(* ===== verification/ArcPrelude.thy ===== *)
theory ArcPrelude
  imports Main "HOL-Library.Word" "HOL-Library.Multiset"
begin

section \<open>Prelude: shared types, results and the invariant principle\<close>

text \<open>
  What the components share.  Rust's fixed-width integers are words, \<open>Result<T, E>\<close> is the
  sum type with \<open>Err\<close> on the left, and the \<open>?\<close> operator is \<open>and_then\<close>.  The last section
  holds the proof principle every state machine of the development uses: the states reachable
  from an initial state, and the locale \<open>invariant_of\<close> whose interpretation on a concrete
  machine turns one-step preservation into a fact about all reachable states.
\<close>

subsection \<open>Machine integers and time\<close>

type_synonym u8 = "8 word"
type_synonym u16 = "16 word"
type_synonym u32 = "32 word"
type_synonym u64 = "64 word"
type_synonym uuid = "128 word"

lemma unat_u8: "unat (x :: u8) < 256"
  using unsigned_less [where ?'a = nat, of x] by simp

lemma unat_u16: "unat (x :: u16) < 65536"
  using unsigned_less [where ?'a = nat, of x] by simp

lemma unat_u32: "unat (x :: u32) < 4294967296"
  using unsigned_less [where ?'a = nat, of x] by simp

text \<open>An instant of \<open>DateTime<Utc>\<close>, in nanoseconds since the epoch.\<close>

type_synonym instant = int

text \<open>A \<open>std::time::Duration\<close>, in nanoseconds.\<close>

type_synonym duration = nat

definition nanos_of_secs :: "nat \<Rightarrow> nat" where
  "nanos_of_secs s = 1000000000 * s"

definition nanos_of_millis :: "nat \<Rightarrow> nat" where
  "nanos_of_millis ms = 1000000 * ms"

subsection \<open>Results\<close>

type_synonym ('a, 'e) result = "'e + 'a"

abbreviation Ok :: "'a \<Rightarrow> 'e + 'a" where
  "Ok \<equiv> Inr"

abbreviation Err :: "'e \<Rightarrow> 'e + 'a" where
  "Err \<equiv> Inl"

text \<open>The early return of the \<open>?\<close> operator.\<close>

definition and_then :: "'e + 'a \<Rightarrow> ('a \<Rightarrow> 'e + 'b) \<Rightarrow> 'e + 'b" where
  "and_then r f = (case r of Err e \<Rightarrow> Err e | Ok x \<Rightarrow> f x)"

text \<open>The same for code that also changes a state: an error keeps the state it was raised in.\<close>

definition st_then :: "('e + 'a) \<times> 's \<Rightarrow> ('a \<Rightarrow> 's \<Rightarrow> ('e + 'b) \<times> 's) \<Rightarrow> ('e + 'b) \<times> 's" where
  "st_then x f = (case fst x of Err e \<Rightarrow> (Err e, snd x) | Ok a \<Rightarrow> f a (snd x))"

definition is_ok :: "'e + 'a \<Rightarrow> bool" where
  "is_ok r = (case r of Err e \<Rightarrow> False | Ok x \<Rightarrow> True)"

definition get_or_insert :: "'a option \<Rightarrow> 'a \<Rightarrow> 'a option" where
  "get_or_insert o' v = (case o' of None \<Rightarrow> Some v | Some x \<Rightarrow> Some x)"

definition unwrap_or :: "'a \<Rightarrow> 'a option \<Rightarrow> 'a" where
  "unwrap_or d o' = (case o' of None \<Rightarrow> d | Some x \<Rightarrow> x)"

named_theorems result_simps \<open>evaluation of results and options\<close>

lemma and_then_Err [simp, result_simps]: "and_then (Err e) f = Err e"
  by (simp add: and_then_def)

lemma and_then_Ok [simp, result_simps]: "and_then (Ok x) f = f x"
  by (simp add: and_then_def)

lemma st_then_simps [simp, result_simps]:
  "st_then (Err e, s) f = (Err e, s)" "st_then (Ok a, s) f = f a s"
  by (simp_all add: st_then_def)

lemma and_then_eq_Ok:
  "and_then r f = Ok y \<longleftrightarrow> (\<exists>x. r = Ok x \<and> f x = Ok y)"
  by (cases r) auto

lemma and_then_eq_Err:
  "and_then r f = Err e \<longleftrightarrow> r = Err e \<or> (\<exists>x. r = Ok x \<and> f x = Err e)"
  by (cases r) auto

lemma is_ok_simps [simp, result_simps]: "\<not> is_ok (Err e)" "is_ok (Ok x)"
  by (simp_all add: is_ok_def)

lemma is_ok_iff: "is_ok r \<longleftrightarrow> (\<exists>x. r = Ok x)"
  by (cases r) auto

lemma get_or_insert_simps [simp, result_simps]:
  "get_or_insert None v = Some v" "get_or_insert (Some x) v = Some x"
  by (simp_all add: get_or_insert_def)

lemma unwrap_or_simps [simp, result_simps]:
  "unwrap_or d None = d" "unwrap_or d (Some x) = x"
  by (simp_all add: unwrap_or_def)

lemma get_or_insert_not_None [simp]: "get_or_insert o' v \<noteq> None"
  by (cases o') auto

lemma get_or_insert_Some [simp]: "\<exists>y. get_or_insert o' v = Some y"
  by (cases o') auto

subsection \<open>Reachable states and invariants\<close>

text \<open>
  A machine is a predicate on initial states and a relation labelled by events.  Reachability is
  rule induction over it, and \<open>invariant_of\<close> is the contract a machine owes for an invariant.
\<close>

inductive reach :: "('s \<Rightarrow> bool) \<Rightarrow> ('s \<Rightarrow> 'e \<Rightarrow> 's \<Rightarrow> bool) \<Rightarrow> 's \<Rightarrow> bool"
  for start :: "'s \<Rightarrow> bool" and move :: "'s \<Rightarrow> 'e \<Rightarrow> 's \<Rightarrow> bool" where
  reach_start: "start s \<Longrightarrow> reach start move s"
| reach_move: "reach start move s \<Longrightarrow> move s e t \<Longrightarrow> reach start move t"

locale invariant_of =
  fixes start :: "'s \<Rightarrow> bool"
    and move :: "'s \<Rightarrow> 'e \<Rightarrow> 's \<Rightarrow> bool"
    and holds :: "'s \<Rightarrow> bool"
  assumes holds_start: "start s \<Longrightarrow> holds s"
    and holds_move: "holds s \<Longrightarrow> move s e t \<Longrightarrow> holds t"
begin

lemma holds_reach: "reach start move s \<Longrightarrow> holds s"
  by (induction rule: reach.induct) (auto intro: holds_start holds_move)

end

text \<open>A deterministic machine run over a list of events.\<close>

definition run :: "('s \<Rightarrow> 'e \<Rightarrow> 's) \<Rightarrow> 's \<Rightarrow> 'e list \<Rightarrow> 's" where
  "run step s es = foldl step s es"

lemma run_Nil [simp]: "run step s [] = s"
  by (simp add: run_def)

lemma run_Cons [simp]: "run step s (e # es) = run step (step s e) es"
  by (simp add: run_def)

lemma run_append: "run step s (es @ fs) = run step (run step s es) fs"
  by (simp add: run_def)

lemma run_snoc: "run step s (es @ [e]) = step (run step s es) e"
  by (simp add: run_append)

lemma reach_run:
  assumes "reach start (\<lambda>s e t. t = step s e) s"
  shows "reach start (\<lambda>s e t. t = step s e) (run step s es)"
  using assms by (induction es arbitrary: s) (auto intro: reach_move)

subsection \<open>Conservation\<close>

text \<open>
  The contract of a component that takes things in and hands things out: what it holds afterwards
  and what it handed out is what it held before and what it took.
\<close>

text \<open>A run over a list of operations, with everything handed out along the way.\<close>

fun run_ops :: "('op \<Rightarrow> 'st \<Rightarrow> 'a list \<times> 'st) \<Rightarrow> 'op list \<Rightarrow> 'st \<Rightarrow> 'a list \<times> 'st" where
  "run_ops step [] st = ([], st)"
| "run_ops step (op # ops) st =
     (let (out, st1) = step op st; (outs, st2) = run_ops step ops st1 in (out @ outs, st2))"

locale conserving =
  fixes step :: "'op \<Rightarrow> 'st \<Rightarrow> 'a list \<times> 'st"
    and intake :: "'op \<Rightarrow> 'a multiset"
    and held :: "'st \<Rightarrow> 'a multiset"
    and ok :: "'st \<Rightarrow> bool"
  assumes keeps: "ok st \<Longrightarrow> ok (snd (step op st))"
    and conserves: "ok st \<Longrightarrow> held (snd (step op st)) + mset (fst (step op st)) = held st + intake op"
begin

lemma run_keeps: "ok st \<Longrightarrow> ok (snd (run_ops step ops st))"
  by (induction ops arbitrary: st) (auto simp: Let_def case_prod_beta keeps)

lemma run_conserves:
  "ok st \<Longrightarrow>
     held (snd (run_ops step ops st)) + mset (fst (run_ops step ops st))
       = held st + sum_list (map intake ops)"
proof (induction ops arbitrary: st)
  case (Cons op ops)
  let ?st1 = "snd (step op st)"
  have 1: "held (snd (run_ops step ops ?st1)) + mset (fst (run_ops step ops ?st1))
      = held ?st1 + sum_list (map intake ops)"
    using Cons.IH [OF keeps [OF Cons.prems]] .
  have 2: "held ?st1 + mset (fst (step op st)) = held st + intake op"
    using conserves [OF Cons.prems] .
  show ?case
    using 1 2 by (simp add: Let_def case_prod_beta ac_simps)
qed simp

end

end
