(* ===== verification/Computer_Types.thy ===== *)
theory Computer_Types
  imports ArcPrelude
begin

section \<open>Sandbox vocabulary: errors, states, specs, identifiers\<close>

text \<open>
  The types every part of the sandbox runtime shares: the error enum of
  \<open>arcbox-computer-runtime/src/error.rs\<close> with its display text, the public state and the
  creation spec of \<open>sandbox/types.rs\<close>, and the identifier check of \<open>sandbox.rs\<close>.  The payload of
  an error that wraps another crate's error (I/O, JSON, driver) is that error's own text.
\<close>

subsection \<open>Errors\<close>

datatype ComputerError =
    NotFound string
  | AlreadyExists string
  | WrongState (wrong_id: string) (wrong_expected: string) (wrong_actual: string)
  | PausedError string
  | Io string
  | Json string
  | Driver string
  | Network string
  | Snapshot string
  | DeviceMapper string
  | Rootfs string
  | Process string
  | Config string
  | Vsock string
  | PathNotFound string
  | NotADirectory string
  | DirectoryNotEmpty string
  | TemplateNotFound string
  | TemplateVersionExists string
  | FailedPrecondition string
  | DeadlineExceeded string
  | Unavailable string
  | AckUnconfirmed (ack_id: string) (ack_detail: string)
  | StdinGap u64 u64
  | Other string

text \<open>Decimal text of an unsigned integer, as \<open>{}\<close> prints it.\<close>

fun show_nat :: "nat \<Rightarrow> string" where
  "show_nat n =
     (if n < 10 then [char_of (48 + n :: nat)] else show_nat (n div 10) @ [char_of (48 + n mod 10 :: nat)])"

declare show_nat.simps [simp del]

fun error_text :: "ComputerError \<Rightarrow> string" where
  "error_text (NotFound m) = ''VM not found: '' @ m"
| "error_text (AlreadyExists m) = ''VM already exists: '' @ m"
| "error_text (WrongState i e a) =
     ''VM '' @ [CHR 0x27] @ i @ [CHR 0x27] @ '' is in wrong state: expected '' @ e @ '', got '' @ a"
| "error_text (PausedError m) = ''sandbox '' @ [CHR 0x27] @ m @ [CHR 0x27] @ '' is paused''"
| "error_text (Io m) = ''I/O error: '' @ m"
| "error_text (Json m) = ''JSON error: '' @ m"
| "error_text (Driver m) = ''driver error: '' @ m"
| "error_text (Network m) = ''network error: '' @ m"
| "error_text (Snapshot m) = ''snapshot error: '' @ m"
| "error_text (DeviceMapper m) = ''device-mapper error: '' @ m"
| "error_text (Rootfs m) = ''rootfs error: '' @ m"
| "error_text (Process m) = ''process error: '' @ m"
| "error_text (Config m) = ''configuration error: '' @ m"
| "error_text (Vsock m) = ''vsock error: '' @ m"
| "error_text (PathNotFound m) = ''path not found: '' @ m"
| "error_text (NotADirectory m) = ''not a directory: '' @ m"
| "error_text (DirectoryNotEmpty m) = ''directory not empty: '' @ m"
| "error_text (TemplateNotFound m) = ''template not found: '' @ m"
| "error_text (TemplateVersionExists m) = ''template version already exists: '' @ m"
| "error_text (FailedPrecondition m) = ''failed precondition: '' @ m"
| "error_text (DeadlineExceeded m) = ''deadline exceeded: '' @ m"
| "error_text (Unavailable m) = ''service unavailable: '' @ m"
| "error_text (AckUnconfirmed i d) =
     ''sandbox '' @ i @ '' committed, but ACK durability is unconfirmed: '' @ d"
| "error_text (StdinGap accepted offset) =
     ''stdin offset '' @ show_nat (unat offset) @ '' is past the ''
       @ show_nat (unat accepted) @ '' accepted bytes''"
| "error_text (Other m) = m"

subsection \<open>Public state and idle policy\<close>

datatype ComputerState =
    Starting | Ready | Running | Stopping | Stopped | Failed | Pausing | Paused

fun state_text :: "ComputerState \<Rightarrow> string" where
  "state_text ComputerState.Starting = ''starting''"
| "state_text ComputerState.Ready = ''ready''"
| "state_text ComputerState.Running = ''running''"
| "state_text ComputerState.Stopping = ''stopping''"
| "state_text ComputerState.Stopped = ''stopped''"
| "state_text ComputerState.Failed = ''failed''"
| "state_text ComputerState.Pausing = ''pausing''"
| "state_text ComputerState.Paused = ''paused''"

datatype IdleAction = Kill | Pause

text \<open>The variant marked \<open>#[default]\<close>.\<close>

definition default_idle_action :: IdleAction where
  "default_idle_action = IdleAction.Kill"

record LifecycleUpdate =
  upd_ttl_seconds :: "u32 option"
  upd_idle_timeout_seconds :: "u32 option"
  upd_on_idle :: "IdleAction option"

subsection \<open>The creation spec\<close>

record ComputerNetworkSpec =
  net_mode :: string

record ComputerMountSpec =
  mount_source :: string
  mount_target :: string
  mount_readonly :: bool

record TemplateWarmRef =
  warm_snapshot_id :: string
  warm_vcpus :: u32
  warm_memory_mib :: u64

datatype ReadyProbeSpec =
    Port (probe_port: u16) (probe_timeout: u32)
  | Command (probe_cmd: "string list") (probe_timeout: u32)

record ComputerSpec =
  spec_id :: "string option"
  spec_labels :: "string \<rightharpoonup> string"
  spec_kernel :: string
  spec_rootfs :: string
  spec_boot_args :: string
  spec_vcpus :: u32
  spec_memory_mib :: u64
  spec_cmd :: "string list"
  spec_env :: "string \<rightharpoonup> string"
  spec_working_dir :: string
  spec_user :: string
  spec_mounts :: "ComputerMountSpec list"
  spec_network :: ComputerNetworkSpec
  spec_ttl_seconds :: u32
  spec_ssh_public_key :: "string option"
  spec_idle_timeout_seconds :: u32
  spec_on_idle :: IdleAction
  spec_template_warm :: "TemplateWarmRef option"
  spec_ready_probe :: "ReadyProbeSpec option"

definition default_spec :: ComputerSpec where
  "default_spec =
     \<lparr>spec_id = None, spec_labels = Map.empty, spec_kernel = [], spec_rootfs = [],
      spec_boot_args = [], spec_vcpus = 0, spec_memory_mib = 0, spec_cmd = [],
      spec_env = Map.empty, spec_working_dir = [], spec_user = [], spec_mounts = [],
      spec_network = \<lparr>net_mode = []\<rparr>, spec_ttl_seconds = 0, spec_ssh_public_key = None,
      spec_idle_timeout_seconds = 0, spec_on_idle = default_idle_action,
      spec_template_warm = None, spec_ready_probe = None\<rparr>"

subsection \<open>Identifiers\<close>

definition is_ascii_alphanumeric :: "char \<Rightarrow> bool" where
  "is_ascii_alphanumeric b \<longleftrightarrow>
     (let n = of_char b :: nat in (48 \<le> n \<and> n \<le> 57) \<or> (65 \<le> n \<and> n \<le> 90) \<or> (97 \<le> n \<and> n \<le> 122))"

definition id_byte :: "char \<Rightarrow> bool" where
  "id_byte b \<longleftrightarrow> is_ascii_alphanumeric b \<or> b = CHR ''-'' \<or> b = CHR ''_''"

text \<open>
  \<open>{:?}\<close> of a string: quoted, with the ASCII escapes of \<open>char::escape_debug\<close>.  A byte of a
  multi-byte character is passed through, as printable characters are.
\<close>

definition hex_digit :: "nat \<Rightarrow> char" where
  "hex_digit n = (if n < 10 then char_of (48 + n) else char_of (87 + n))"

definition escape_debug :: "char \<Rightarrow> string" where
  "escape_debug b =
     (let n = of_char b :: nat in
      if n = 0 then [CHR 0x5C, CHR ''0'']
      else if n = 9 then [CHR 0x5C, CHR ''t'']
      else if n = 10 then [CHR 0x5C, CHR ''n'']
      else if n = 13 then [CHR 0x5C, CHR ''r'']
      else if n = 34 \<or> n = 92 then [CHR 0x5C, b]
      else if n < 16 then [CHR 0x5C, CHR ''u'', CHR ''{'', hex_digit n, CHR ''}'']
      else if n < 32 \<or> n = 127 then
        [CHR 0x5C, CHR ''u'', CHR ''{'', hex_digit (n div 16), hex_digit (n mod 16), CHR ''}'']
      else [b])"

definition debug_str :: "string \<Rightarrow> string" where
  "debug_str s = CHR 0x22 # concat (map escape_debug s) @ [CHR 0x22]"

definition validate_id :: "string \<Rightarrow> string \<Rightarrow> (unit, ComputerError) result" where
  "validate_id kind i =
     (if i = [] then Err (Config (kind @ '' must not be empty''))
      else if \<not> list_all id_byte i then
        Err (Config (''invalid '' @ kind @ '' '' @ debug_str i
          @ '': only ASCII letters, digits, '' @ [CHR 0x27] @ ''-'' @ [CHR 0x27] @ '' and ''
          @ [CHR 0x27] @ ''_'' @ [CHR 0x27] @ '' are allowed''))
      else Ok ())"

definition valid_id :: "string \<Rightarrow> bool" where
  "valid_id i \<longleftrightarrow> i \<noteq> [] \<and> list_all id_byte i"

lemma validate_id_Ok [simp]: "validate_id kind i = Ok u \<longleftrightarrow> valid_id i"
  by (auto simp: validate_id_def valid_id_def)

lemma validate_id_valid [simp]: "valid_id i \<Longrightarrow> validate_id kind i = Ok ()"
  by (simp add: validate_id_def valid_id_def)

text \<open>A valid identifier is a single path component: it cannot name another directory.\<close>

lemma valid_id_no_separator:
  assumes "valid_id i"
  shows "CHR ''/'' \<notin> set i" and "CHR ''.'' \<notin> set i"
proof -
  have "\<not> id_byte (CHR ''/'')" "\<not> id_byte (CHR ''.'')"
    by (simp_all add: id_byte_def is_ascii_alphanumeric_def)
  with assms show "CHR ''/'' \<notin> set i" and "CHR ''.'' \<notin> set i"
    by (auto simp: valid_id_def list_all_iff)
qed

end
