(* ===== verification/Computer_Phase.thy ===== *)
theory Computer_Phase
  imports Computer_Types
begin

section \<open>Durable records: phases, edges and validation\<close>

text \<open>
  \<open>sandbox/record/phase.rs\<close>: the phases a durable record can hold, the legal moves between
  them, what each move writes into the record, how a repeated create request is classified, and
  the validation every stored record must pass.  \<open>Utc::now()\<close> and \<open>Uuid::new_v4()\<close> are
  arguments of the operations that call them.
\<close>

subsection \<open>Phases\<close>

datatype ComputerPhase =
    Creating | Starting | Ready | Stopping | Stopped | Failed | Removing
  | Pausing | Paused | Resuming

fun as_str :: "ComputerPhase \<Rightarrow> string" where
  "as_str ComputerPhase.Creating = ''creating''"
| "as_str ComputerPhase.Starting = ''starting''"
| "as_str ComputerPhase.Ready = ''ready''"
| "as_str ComputerPhase.Stopping = ''stopping''"
| "as_str ComputerPhase.Stopped = ''stopped''"
| "as_str ComputerPhase.Failed = ''failed''"
| "as_str ComputerPhase.Removing = ''removing''"
| "as_str ComputerPhase.Pausing = ''pausing''"
| "as_str ComputerPhase.Paused = ''paused''"
| "as_str ComputerPhase.Resuming = ''resuming''"

text \<open>The edges beside the self-edge, in the order the \<open>matches!\<close> lists them.\<close>

fun edge :: "ComputerPhase \<Rightarrow> ComputerPhase \<Rightarrow> bool" where
  "edge ComputerPhase.Creating n \<longleftrightarrow>
     n \<in> {ComputerPhase.Starting, ComputerPhase.Failed, ComputerPhase.Removing}"
| "edge ComputerPhase.Starting n \<longleftrightarrow>
     n \<in> {ComputerPhase.Ready, ComputerPhase.Stopping, ComputerPhase.Failed, ComputerPhase.Removing}"
| "edge ComputerPhase.Ready n \<longleftrightarrow>
     n \<in> {ComputerPhase.Stopping, ComputerPhase.Pausing, ComputerPhase.Failed, ComputerPhase.Removing}"
| "edge ComputerPhase.Stopping n \<longleftrightarrow>
     n \<in> {ComputerPhase.Stopped, ComputerPhase.Failed, ComputerPhase.Removing}"
| "edge ComputerPhase.Stopped n \<longleftrightarrow> n = ComputerPhase.Removing"
| "edge ComputerPhase.Failed n \<longleftrightarrow> n = ComputerPhase.Removing"
| "edge ComputerPhase.Pausing n \<longleftrightarrow>
     n \<in> {ComputerPhase.Paused, ComputerPhase.Ready, ComputerPhase.Failed, ComputerPhase.Removing}"
| "edge ComputerPhase.Resuming n \<longleftrightarrow>
     n \<in> {ComputerPhase.Paused, ComputerPhase.Ready, ComputerPhase.Failed, ComputerPhase.Removing}"
| "edge ComputerPhase.Paused n \<longleftrightarrow>
     n \<in> {ComputerPhase.Resuming, ComputerPhase.Failed, ComputerPhase.Removing}"
| "edge ComputerPhase.Removing n \<longleftrightarrow> False"

definition can_transition_to :: "ComputerPhase \<Rightarrow> ComputerPhase \<Rightarrow> bool" where
  "can_transition_to p n \<longleftrightarrow> p = n \<or> edge p n"

subsection \<open>Records and transitions\<close>

record ComputerProvisionOutcome =
  ip_address :: string

definition default_outcome :: ComputerProvisionOutcome where
  "default_outcome = \<lparr>ip_address = []\<rparr>"

definition debug_outcome :: "ComputerProvisionOutcome \<Rightarrow> string" where
  "debug_outcome p = ''ComputerProvisionOutcome { ip_address: '' @ debug_str (ip_address p) @ '' }''"

record ComputerRecord =
  rec_version :: u32
  rec_id :: string
  rec_generation :: uuid
  rec_request_key :: string
  rec_effective_spec :: ComputerSpec
  rec_phase :: ComputerPhase
  rec_provision_outcome :: "ComputerProvisionOutcome option"
  rec_created_at :: instant
  rec_error :: "string option"
  rec_pause_snapshot_id :: "string option"
  rec_paused_at :: "instant option"
  rec_ttl_deadline :: "instant option"

definition RECORD_VERSION :: u32 where
  "RECORD_VERSION = 1"

datatype ProvisionIntent =
    Created ComputerRecord
  | Resume ComputerRecord
  | Replay ComputerRecord
  | Blocked ComputerRecord

datatype ComputerTransition =
    Starting ComputerProvisionOutcome
  | ReadyWithOutcome ComputerProvisionOutcome
  | Ready
  | Stopping
  | Stopped
  | Failed string
  | Removing
  | Pausing
  | Paused (paused_snapshot: string)
  | Resuming

fun transition_phase :: "ComputerTransition \<Rightarrow> ComputerPhase" where
  "transition_phase (ComputerTransition.Starting _) = ComputerPhase.Starting"
| "transition_phase (ReadyWithOutcome _) = ComputerPhase.Ready"
| "transition_phase ComputerTransition.Ready = ComputerPhase.Ready"
| "transition_phase ComputerTransition.Stopping = ComputerPhase.Stopping"
| "transition_phase ComputerTransition.Stopped = ComputerPhase.Stopped"
| "transition_phase (ComputerTransition.Failed _) = ComputerPhase.Failed"
| "transition_phase ComputerTransition.Removing = ComputerPhase.Removing"
| "transition_phase ComputerTransition.Pausing = ComputerPhase.Pausing"
| "transition_phase (ComputerTransition.Paused _) = ComputerPhase.Paused"
| "transition_phase ComputerTransition.Resuming = ComputerPhase.Resuming"

definition new_record ::
  "instant \<Rightarrow> uuid \<Rightarrow> string \<Rightarrow> string \<Rightarrow> ComputerSpec \<Rightarrow> ComputerRecord" where
  "new_record now gen i key spec =
     (let ttl = unat (spec_ttl_seconds spec);
          deadline = (if 0 < ttl then Some (now + int (nanos_of_secs ttl)) else None)
      in \<lparr>rec_version = RECORD_VERSION, rec_id = i, rec_generation = gen, rec_request_key = key,
          rec_effective_spec = spec, rec_phase = ComputerPhase.Creating,
          rec_provision_outcome = None, rec_created_at = now, rec_error = None,
          rec_pause_snapshot_id = None, rec_paused_at = None, rec_ttl_deadline = deadline\<rparr>)"

definition redact_spec :: "ComputerSpec \<Rightarrow> ComputerSpec" where
  "redact_spec s =
     s\<lparr>spec_boot_args := [], spec_cmd := [], spec_env := Map.empty, spec_working_dir := [],
       spec_user := [], spec_mounts := [], spec_ttl_seconds := 0, spec_ssh_public_key := None\<rparr>"

definition redact_runtime_inputs :: "ComputerRecord \<Rightarrow> ComputerRecord" where
  "redact_runtime_inputs r = r\<lparr>rec_effective_spec := redact_spec (rec_effective_spec r)\<rparr>"

text \<open>The conflict two of the transitions check before they record an outcome.\<close>

definition outcome_conflict ::
  "ComputerRecord \<Rightarrow> ComputerProvisionOutcome \<Rightarrow> ComputerError option" where
  "outcome_conflict r oc =
     (case rec_provision_outcome r of
        None \<Rightarrow> None
      | Some existing \<Rightarrow>
          if existing \<noteq> oc
          then Some (WrongState (rec_id r) (''provision outcome '' @ debug_outcome existing)
                       (''provision outcome '' @ debug_outcome oc))
          else None)"

fun write_transition ::
  "instant \<Rightarrow> ComputerTransition \<Rightarrow> ComputerRecord \<Rightarrow> (ComputerRecord, ComputerError) result" where
  "write_transition now (ComputerTransition.Starting oc) r =
     (case outcome_conflict r oc of
        Some e \<Rightarrow> Err e
      | None \<Rightarrow> Ok (r\<lparr>rec_phase := ComputerPhase.Starting, rec_provision_outcome := Some oc,
                       rec_error := None\<rparr>))"
| "write_transition now (ReadyWithOutcome oc) r =
     (case outcome_conflict r oc of
        Some e \<Rightarrow> Err e
      | None \<Rightarrow> Ok (redact_runtime_inputs
                      (r\<lparr>rec_phase := ComputerPhase.Ready, rec_provision_outcome := Some oc,
                         rec_error := None\<rparr>)))"
| "write_transition now ComputerTransition.Ready r =
     Ok (redact_runtime_inputs
           (r\<lparr>rec_phase := ComputerPhase.Ready, rec_error := None,
              rec_pause_snapshot_id := None, rec_paused_at := None\<rparr>))"
| "write_transition now ComputerTransition.Stopping r =
     Ok (redact_runtime_inputs (r\<lparr>rec_phase := ComputerPhase.Stopping, rec_error := None\<rparr>))"
| "write_transition now ComputerTransition.Stopped r =
     Ok (r\<lparr>rec_phase := ComputerPhase.Stopped, rec_error := None\<rparr>)"
| "write_transition now (ComputerTransition.Failed msg) r =
     Ok (redact_runtime_inputs (r\<lparr>rec_phase := ComputerPhase.Failed, rec_error := Some msg\<rparr>))"
| "write_transition now ComputerTransition.Removing r =
     Ok (redact_runtime_inputs (r\<lparr>rec_phase := ComputerPhase.Removing\<rparr>))"
| "write_transition now ComputerTransition.Pausing r =
     Ok (r\<lparr>rec_phase := ComputerPhase.Pausing, rec_error := None\<rparr>)"
| "write_transition now (ComputerTransition.Paused snap) r =
     Ok (r\<lparr>rec_phase := ComputerPhase.Paused, rec_pause_snapshot_id := Some snap,
           rec_paused_at := get_or_insert (rec_paused_at r) now, rec_error := None\<rparr>)"
| "write_transition now ComputerTransition.Resuming r =
     Ok (r\<lparr>rec_phase := ComputerPhase.Resuming, rec_error := None\<rparr>)"

fun carries_ready_outcome :: "ComputerTransition \<Rightarrow> bool" where
  "carries_ready_outcome (ReadyWithOutcome _) = True"
| "carries_ready_outcome _ = False"

definition apply_transition ::
  "instant \<Rightarrow> ComputerTransition \<Rightarrow> ComputerRecord \<Rightarrow> (ComputerRecord, ComputerError) result" where
  "apply_transition now t r =
     (let next = transition_phase t;
          atomic_ready = carries_ready_outcome t \<and> rec_phase r = ComputerPhase.Creating
      in if \<not> atomic_ready \<and> \<not> can_transition_to (rec_phase r) next
         then Err (WrongState (rec_id r) (''a valid transition from '' @ as_str (rec_phase r))
                     (as_str next))
         else write_transition now t r)"

subsection \<open>Classifying a repeated request\<close>

datatype ExistingProvision = Pending | Replay | Blocked

fun provision_class :: "ComputerPhase \<Rightarrow> ExistingProvision" where
  "provision_class ComputerPhase.Creating = ExistingProvision.Pending"
| "provision_class ComputerPhase.Starting = ExistingProvision.Replay"
| "provision_class ComputerPhase.Ready = ExistingProvision.Replay"
| "provision_class _ = ExistingProvision.Blocked"

definition classify_existing_provision ::
  "ComputerRecord \<Rightarrow> string \<Rightarrow> (ExistingProvision, ComputerError) result" where
  "classify_existing_provision r key =
     (if rec_request_key r \<noteq> key then Err (AlreadyExists (rec_id r))
      else Ok (provision_class (rec_phase r)))"

subsection \<open>Validation\<close>

definition outcome_phases :: "ComputerPhase list" where
  "outcome_phases =
     [ComputerPhase.Starting, ComputerPhase.Ready, ComputerPhase.Stopping, ComputerPhase.Stopped,
      ComputerPhase.Pausing, ComputerPhase.Paused, ComputerPhase.Resuming]"

definition validate_record :: "string \<Rightarrow> ComputerRecord \<Rightarrow> (unit, ComputerError) result" where
  "validate_record i r =
     and_then (validate_id ''sandbox id'' i) (\<lambda>_.
       if rec_version r \<noteq> RECORD_VERSION then
         Err (Config (''unsupported sandbox record version '' @ show_nat (unat (rec_version r))
           @ '' for '' @ i))
       else if rec_id r \<noteq> i then
         Err (Config (''sandbox record id mismatch: expected '' @ i @ '', got '' @ rec_id r))
       else if spec_id (rec_effective_spec r) \<noteq> Some i then
         Err (Config (''sandbox record spec id mismatch for '' @ i))
       else if rec_request_key r = [] then
         Err (Config (''sandbox record provision request key is empty for '' @ i))
       else if rec_phase r = ComputerPhase.Creating \<and> rec_provision_outcome r \<noteq> None then
         Err (Config (''creating sandbox record unexpectedly has a provision outcome for '' @ i))
       else if rec_phase r \<in> set outcome_phases \<and> rec_provision_outcome r = None then
         Err (Config (''sandbox record has no provision outcome in phase ''
           @ as_str (rec_phase r) @ '' for '' @ i))
       else if rec_phase r \<in> {ComputerPhase.Paused, ComputerPhase.Resuming}
            \<and> rec_pause_snapshot_id r = None then
         Err (Config (''sandbox record has no pause snapshot in phase ''
           @ as_str (rec_phase r) @ '' for '' @ i))
       else Ok ())"

subsection \<open>What a record keeps\<close>

definition redacted :: "ComputerSpec \<Rightarrow> bool" where
  "redacted s \<longleftrightarrow>
     spec_boot_args s = [] \<and> spec_cmd s = [] \<and> spec_env s = Map.empty \<and> spec_working_dir s = []
     \<and> spec_user s = [] \<and> spec_mounts s = [] \<and> spec_ttl_seconds s = 0
     \<and> spec_ssh_public_key s = None"

text \<open>
  The invariant of a record stored under \<open>i\<close>: it validates; past \<open>Starting\<close> it carries no
  runtime input; it carries an error text when it failed, and otherwise only while it is being
  removed; a pause leaves its snapshot and its time together, never before the first \<open>Ready\<close>.
\<close>

definition record_wf :: "string \<Rightarrow> ComputerRecord \<Rightarrow> bool" where
  "record_wf i r \<longleftrightarrow>
     validate_record i r = Ok ()
     \<and> (rec_phase r \<notin> {ComputerPhase.Creating, ComputerPhase.Starting}
          \<longrightarrow> redacted (rec_effective_spec r))
     \<and> (rec_phase r = ComputerPhase.Failed \<longrightarrow> rec_error r \<noteq> None)
     \<and> (rec_error r \<noteq> None \<longrightarrow> rec_phase r \<in> {ComputerPhase.Failed, ComputerPhase.Removing})
     \<and> (rec_paused_at r \<noteq> None \<longleftrightarrow> rec_pause_snapshot_id r \<noteq> None)
     \<and> (rec_phase r \<in> {ComputerPhase.Creating, ComputerPhase.Starting}
          \<longrightarrow> rec_pause_snapshot_id r = None)"

text \<open>The fields a transition never writes.\<close>

definition same_identity :: "ComputerRecord \<Rightarrow> ComputerRecord \<Rightarrow> bool" where
  "same_identity r r' \<longleftrightarrow>
     rec_version r' = rec_version r \<and> rec_id r' = rec_id r \<and> rec_generation r' = rec_generation r
     \<and> rec_request_key r' = rec_request_key r \<and> rec_created_at r' = rec_created_at r
     \<and> rec_ttl_deadline r' = rec_ttl_deadline r
     \<and> spec_id (rec_effective_spec r') = spec_id (rec_effective_spec r)
     \<and> spec_idle_timeout_seconds (rec_effective_spec r')
         = spec_idle_timeout_seconds (rec_effective_spec r)
     \<and> spec_on_idle (rec_effective_spec r') = spec_on_idle (rec_effective_spec r)"

text \<open>
  A new record, as \<open>provision_intent\<close> creates it, and the two ways the store rewrites one:
  \<open>transition\<close> and \<open>update_lifecycle\<close>, whose body is \<open>write_lifecycle\<close>.
\<close>

definition write_lifecycle ::
  "instant option \<Rightarrow> u32 \<Rightarrow> IdleAction \<Rightarrow> ComputerRecord \<Rightarrow> ComputerRecord" where
  "write_lifecycle ttl idle on_idle r =
     r\<lparr>rec_ttl_deadline := ttl,
       rec_effective_spec := (rec_effective_spec r)\<lparr>spec_idle_timeout_seconds := idle,
                                                    spec_on_idle := on_idle\<rparr>\<rparr>"

datatype RecordWrite =
    Apply instant ComputerTransition
  | SetLifecycle "instant option" u32 IdleAction

definition fresh_record :: "string \<Rightarrow> ComputerRecord \<Rightarrow> bool" where
  "fresh_record i r \<longleftrightarrow>
     (\<exists>now gen key spec. valid_id i \<and> key \<noteq> [] \<and> spec_id spec = Some i
        \<and> r = new_record now gen i key spec)"

fun record_move :: "ComputerRecord \<Rightarrow> RecordWrite \<Rightarrow> ComputerRecord \<Rightarrow> bool" where
  "record_move r (Apply now t) r' \<longleftrightarrow> apply_transition now t r = Ok r'"
| "record_move r (SetLifecycle ttl idle on_idle) r' \<longleftrightarrow> r' = write_lifecycle ttl idle on_idle r"

definition sample_spec :: "string \<Rightarrow> ComputerSpec" where
  "sample_spec i = default_spec\<lparr>spec_id := Some i, spec_cmd := [''run''], spec_ttl_seconds := 60\<rparr>"

fun outcome_of :: "ComputerTransition \<Rightarrow> ComputerProvisionOutcome option" where
  "outcome_of (ComputerTransition.Starting oc) = Some oc"
| "outcome_of (ReadyWithOutcome oc) = Some oc"
| "outcome_of _ = None"

lemma redacted_redact [simp]: "redacted (redact_spec s)"
  by (simp add: redacted_def redact_spec_def)

lemma redact_spec_fields [simp]:
  "spec_id (redact_spec s) = spec_id s"
  "spec_idle_timeout_seconds (redact_spec s) = spec_idle_timeout_seconds s"
  "spec_on_idle (redact_spec s) = spec_on_idle s"
  "spec_kernel (redact_spec s) = spec_kernel s"
  "spec_rootfs (redact_spec s) = spec_rootfs s"
  by (simp_all add: redact_spec_def)

lemma redact_runtime_inputs_fields [simp]:
  "rec_version (redact_runtime_inputs r) = rec_version r"
  "rec_id (redact_runtime_inputs r) = rec_id r"
  "rec_generation (redact_runtime_inputs r) = rec_generation r"
  "rec_request_key (redact_runtime_inputs r) = rec_request_key r"
  "rec_effective_spec (redact_runtime_inputs r) = redact_spec (rec_effective_spec r)"
  "rec_phase (redact_runtime_inputs r) = rec_phase r"
  "rec_provision_outcome (redact_runtime_inputs r) = rec_provision_outcome r"
  "rec_created_at (redact_runtime_inputs r) = rec_created_at r"
  "rec_error (redact_runtime_inputs r) = rec_error r"
  "rec_pause_snapshot_id (redact_runtime_inputs r) = rec_pause_snapshot_id r"
  "rec_paused_at (redact_runtime_inputs r) = rec_paused_at r"
  "rec_ttl_deadline (redact_runtime_inputs r) = rec_ttl_deadline r"
  by (simp_all add: redact_runtime_inputs_def)

lemma validate_record_Ok:
  "validate_record i r = Ok () \<longleftrightarrow>
     valid_id i \<and> rec_version r = RECORD_VERSION \<and> rec_id r = i
     \<and> spec_id (rec_effective_spec r) = Some i \<and> rec_request_key r \<noteq> []
     \<and> (rec_phase r = ComputerPhase.Creating \<longrightarrow> rec_provision_outcome r = None)
     \<and> (rec_phase r \<in> set outcome_phases \<longrightarrow> rec_provision_outcome r \<noteq> None)
     \<and> (rec_phase r \<in> {ComputerPhase.Paused, ComputerPhase.Resuming}
          \<longrightarrow> rec_pause_snapshot_id r \<noteq> None)"
  by (auto simp: validate_record_def and_then_eq_Ok split: if_splits)

lemma apply_transition_Ok:
  "apply_transition now t r = Ok r' \<longleftrightarrow>
     (can_transition_to (rec_phase r) (transition_phase t)
       \<or> carries_ready_outcome t \<and> rec_phase r = ComputerPhase.Creating)
     \<and> write_transition now t r = Ok r'"
  by (auto simp: apply_transition_def Let_def)

lemma write_transition_phase:
  "write_transition now t r = Ok r' \<Longrightarrow> rec_phase r' = transition_phase t"
  by (cases t) (auto split: option.splits)

lemma write_transition_identity:
  "write_transition now t r = Ok r' \<Longrightarrow> same_identity r r'"
  by (cases t) (auto simp: same_identity_def split: option.splits)

lemma write_transition_is_ok:
  "is_ok (write_transition now t r) \<longleftrightarrow>
     (case (rec_provision_outcome r, outcome_of t) of
        (Some existing, Some oc) \<Rightarrow> existing = oc | _ \<Rightarrow> True)"
  by (cases t) (auto simp: outcome_conflict_def split: option.splits)

lemma apply_transition_identity:
  "apply_transition now t r = Ok r' \<Longrightarrow> same_identity r r'"
  by (auto simp: apply_transition_Ok dest: write_transition_identity)

lemma apply_transition_phase:
  "apply_transition now t r = Ok r' \<Longrightarrow> rec_phase r' = transition_phase t"
  by (auto simp: apply_transition_Ok dest: write_transition_phase)

lemma fresh_recordI:
  "valid_id i \<Longrightarrow> key \<noteq> [] \<Longrightarrow> spec_id spec = Some i
   \<Longrightarrow> fresh_record i (new_record now gen i key spec)"
  by (auto simp: fresh_record_def)

lemma new_record_wf:
  assumes "valid_id i" "key \<noteq> []" "spec_id spec = Some i"
  shows "record_wf i (new_record now gen i key spec)"
  using assms
  by (simp add: record_wf_def validate_record_Ok new_record_def Let_def outcome_phases_def)

text \<open>The edge table read backwards: from where each phase can be entered.\<close>

lemma can_transition_from:
  "can_transition_to p ComputerPhase.Starting \<longleftrightarrow>
     p \<in> {ComputerPhase.Creating, ComputerPhase.Starting}"
  "can_transition_to p ComputerPhase.Ready \<longleftrightarrow>
     p \<in> {ComputerPhase.Starting, ComputerPhase.Ready, ComputerPhase.Pausing, ComputerPhase.Resuming}"
  "can_transition_to p ComputerPhase.Stopping \<longleftrightarrow>
     p \<in> {ComputerPhase.Starting, ComputerPhase.Ready, ComputerPhase.Stopping}"
  "can_transition_to p ComputerPhase.Stopped \<longleftrightarrow>
     p \<in> {ComputerPhase.Stopping, ComputerPhase.Stopped}"
  "can_transition_to p ComputerPhase.Failed \<longleftrightarrow>
     p \<notin> {ComputerPhase.Stopped, ComputerPhase.Removing}"
  "can_transition_to p ComputerPhase.Removing"
  "can_transition_to p ComputerPhase.Pausing \<longleftrightarrow>
     p \<in> {ComputerPhase.Ready, ComputerPhase.Pausing}"
  "can_transition_to p ComputerPhase.Paused \<longleftrightarrow>
     p \<in> {ComputerPhase.Pausing, ComputerPhase.Paused, ComputerPhase.Resuming}"
  "can_transition_to p ComputerPhase.Resuming \<longleftrightarrow>
     p \<in> {ComputerPhase.Paused, ComputerPhase.Resuming}"
  by (cases p; simp add: can_transition_to_def)+

lemma outcome_conflict_None:
  "outcome_conflict r oc = None \<longleftrightarrow> rec_provision_outcome r \<in> {None, Some oc}"
  by (auto simp: outcome_conflict_def split: option.splits)

lemma apply_transition_wf:
  assumes "record_wf i r" and "apply_transition now t r = Ok r'"
  shows "record_wf i r'"
proof -
  note defs = apply_transition_Ok can_transition_from record_wf_def validate_record_Ok
    outcome_phases_def outcome_conflict_None
  show ?thesis
    using assms
    by (cases t; clarsimp simp: defs split: option.splits; (elim disjE)?; simp)
qed

lemma write_lifecycle_wf [simp]:
  "record_wf i (write_lifecycle ttl idle on_idle r) \<longleftrightarrow> record_wf i r"
  by (simp add: record_wf_def validate_record_Ok write_lifecycle_def redacted_def)

text \<open>
  C23: \<open>apply\<close> succeeds exactly on the edges of the phase table, beside the single-hop
  \<open>Creating -> Ready\<close> commit of a restore, and unless the record already holds a different
  provision outcome.  On success the record is in the transition's phase and keeps its identity:
  version, id, generation, request key, creation time, lifetime deadline and idle policy.
\<close>

theorem apply_exactly_legal:
  "(is_ok (apply_transition now t r) \<longleftrightarrow>
      (can_transition_to (rec_phase r) (transition_phase t)
        \<or> carries_ready_outcome t \<and> rec_phase r = ComputerPhase.Creating)
      \<and> (case (rec_provision_outcome r, outcome_of t) of
           (Some existing, Some oc) \<Rightarrow> existing = oc | _ \<Rightarrow> True))
   \<and> (case apply_transition now t r of
        Ok r' \<Rightarrow> rec_phase r' = transition_phase t \<and> same_identity r r'
      | Err e \<Rightarrow> (\<exists>x a. e = WrongState (rec_id r) x a))"
proof
  show "is_ok (apply_transition now t r) \<longleftrightarrow>
      (can_transition_to (rec_phase r) (transition_phase t)
        \<or> carries_ready_outcome t \<and> rec_phase r = ComputerPhase.Creating)
      \<and> (case (rec_provision_outcome r, outcome_of t) of
           (Some existing, Some oc) \<Rightarrow> existing = oc | _ \<Rightarrow> True)"
    unfolding write_transition_is_ok [of now t r, symmetric]
    by (auto simp: apply_transition_def Let_def)
  show "case apply_transition now t r of
        Ok r' \<Rightarrow> rec_phase r' = transition_phase t \<and> same_identity r r'
      | Err e \<Rightarrow> (\<exists>x a. e = WrongState (rec_id r) x a)"
  proof (cases "apply_transition now t r")
    case (Inl e)
    then have "\<exists>x a. e = WrongState (rec_id r) x a"
      by (cases t) (auto simp: apply_transition_def Let_def outcome_conflict_def
          split: if_splits option.splits)
    with Inl show ?thesis by simp
  next
    case (Inr r')
    then show ?thesis by (simp add: apply_transition_phase apply_transition_identity)
  qed
qed

interpretation record_machine: invariant_of "fresh_record i" record_move "record_wf i" for i
proof
  show "fresh_record i r \<Longrightarrow> record_wf i r" for r
    by (auto simp: fresh_record_def intro: new_record_wf)
  show "record_wf i r \<Longrightarrow> record_move r w r' \<Longrightarrow> record_wf i r'" for r w r'
    by (cases w) (auto simp: write_lifecycle_wf dest: apply_transition_wf)
qed



text \<open>
  C27: a pause is stamped once.  However often a resume fails and parks the record at
  \<open>Paused\<close> again, the stamp of the first park stays; \<open>Ready\<close> clears it.
\<close>

theorem paused_at_stamped_once:
  assumes "record_wf i r" "rec_phase r = ComputerPhase.Paused"
    and "apply_transition n1 ComputerTransition.Resuming r = Ok r1"
    and "apply_transition n2 (ComputerTransition.Paused snap) r1 = Ok r2"
  shows "rec_paused_at r2 = rec_paused_at r \<and> rec_paused_at r \<noteq> None
    \<and> rec_pause_snapshot_id r2 = Some snap
    \<and> (\<forall>n3 r3. apply_transition n3 ComputerTransition.Ready r1 = Ok r3 \<longrightarrow>
          rec_paused_at r3 = None \<and> rec_pause_snapshot_id r3 = None)"
proof -
  from assms(1,2) obtain at where "rec_paused_at r = Some at"
    by (auto simp: record_wf_def validate_record_Ok)
  with assms(3,4) show ?thesis by (auto simp: apply_transition_Ok)
qed

theorem paused_at_stamped_once_witness:
  "let r = (new_record 5 7 ''box'' ''key'' (redact_spec (sample_spec ''box'')))
             \<lparr>rec_phase := ComputerPhase.Paused, rec_provision_outcome := Some default_outcome,
              rec_pause_snapshot_id := Some ''s1'', rec_paused_at := Some 40\<rparr>;
       r1 = r\<lparr>rec_phase := ComputerPhase.Resuming\<rparr>;
       r2 = r1\<lparr>rec_phase := ComputerPhase.Paused\<rparr>
   in apply_transition 50 ComputerTransition.Resuming r = Ok r1
      \<and> apply_transition 60 (ComputerTransition.Paused ''s1'') r1 = Ok r2
      \<and> rec_paused_at r2 = Some 40"
proof -
  define r where "r = (new_record 5 7 ''box'' ''key'' (redact_spec (sample_spec ''box'')))
             \<lparr>rec_phase := ComputerPhase.Paused, rec_provision_outcome := Some default_outcome,
              rec_pause_snapshot_id := Some ''s1'', rec_paused_at := Some 40\<rparr>"
  define r1 where "r1 = r\<lparr>rec_phase := ComputerPhase.Resuming\<rparr>"
  define r2 where "r2 = r1\<lparr>rec_phase := ComputerPhase.Paused\<rparr>"
  have wf: "record_wf ''box'' r"
    by (simp add: r_def record_wf_def validate_record_Ok new_record_def sample_spec_def
        valid_id_def id_byte_def is_ascii_alphanumeric_def Let_def outcome_phases_def)
  have 1: "apply_transition 50 ComputerTransition.Resuming r = Ok r1"
    by (simp add: r_def r1_def apply_transition_Ok can_transition_to_def new_record_def Let_def)
  have 2: "apply_transition 60 (ComputerTransition.Paused ''s1'') r1 = Ok r2"
    by (simp add: r_def r1_def r2_def apply_transition_Ok can_transition_to_def new_record_def
        Let_def)
  have "rec_phase r = ComputerPhase.Paused" by (simp add: r_def)
  from paused_at_stamped_once [OF wf this 1 2] have "rec_paused_at r2 = Some 40"
    by (simp add: r_def)
  with 1 2 show ?thesis by (simp add: Let_def r_def r1_def r2_def)
qed

end
