(* ===== verification/Statig.thy ===== *)
theory Statig
  imports ArcPrelude
begin

section \<open>The contract of the hierarchical state machine crate\<close>

text \<open>
  Both lifecycles of the program are written against the third-party crate \<open>statig\<close>.  Its macro
  turns one handler per state and superstate into a machine whose \<open>handle_with_context\<close>
  dispatches an event.  The crate is not part of the repository, so its dispatch is a parameter
  of the model, and the locale \<open>statig\<close> states the documented rules the program relies on: the
  event goes to the current state's handler first; \<open>Handled\<close> ends the dispatch where it is;
  \<open>Transition\<close> ends it in the target; \<open>Super\<close> passes the event on to the enclosing superstate
  with whatever the handler already wrote to the context; an event every handler defers is
  dropped.  The machines of this program declare no entry or exit actions.

  \<open>handlers s\<close> is the list of handlers of state \<open>s\<close>, innermost first.
\<close>

datatype 's Outcome = Handled | Super | Transition 's

type_synonym ('s, 'e, 'c) handler = "'e \<Rightarrow> 'c \<Rightarrow> 's Outcome \<times> 'c"

text \<open>The context after a prefix of handlers that all defer; \<open>None\<close> when one of them does not.\<close>

fun deferred :: "('s, 'e, 'c) handler list \<Rightarrow> 'e \<Rightarrow> 'c \<Rightarrow> 'c option" where
  "deferred [] e c = Some c"
| "deferred (h # hs) e c =
     (case h e c of
        (Super, c') \<Rightarrow> deferred hs e c'
      | (Handled, c') \<Rightarrow> None
      | (Transition t, c') \<Rightarrow> None)"

locale statig =
  fixes handlers :: "'s \<Rightarrow> ('s, 'e, 'c) handler list"
    and handle_with_context :: "'s \<Rightarrow> 'e \<Rightarrow> 'c \<Rightarrow> 's \<times> 'c"
  assumes handled:
      "\<lbrakk>handlers s = pre @ h # post; deferred pre e c = Some c1; h e c1 = (Handled, c2)\<rbrakk>
       \<Longrightarrow> handle_with_context s e c = (s, c2)"
    and transition:
      "\<lbrakk>handlers s = pre @ h # post; deferred pre e c = Some c1; h e c1 = (Transition t, c2)\<rbrakk>
       \<Longrightarrow> handle_with_context s e c = (t, c2)"
    and unclaimed:
      "deferred (handlers s) e c = Some c1 \<Longrightarrow> handle_with_context s e c = (s, c1)"

text \<open>
  The rules leave no freedom: they are met by exactly one function, the walk up the chain of
  handlers.
\<close>

fun bubble :: "'s \<Rightarrow> ('s, 'e, 'c) handler list \<Rightarrow> 'e \<Rightarrow> 'c \<Rightarrow> 's \<times> 'c" where
  "bubble s [] e c = (s, c)"
| "bubble s (h # hs) e c =
     (case h e c of
        (Handled, c') \<Rightarrow> (s, c')
      | (Transition t, c') \<Rightarrow> (t, c')
      | (Super, c') \<Rightarrow> bubble s hs e c')"

lemma deferred_append:
  "deferred (hs @ ks) e c = (case deferred hs e c of None \<Rightarrow> None | Some c' \<Rightarrow> deferred ks e c')"
  by (induction hs arbitrary: c) (auto split: prod.splits Outcome.splits)

lemma bubble_deferred:
  "deferred pre e c = Some c1 \<Longrightarrow> bubble s (pre @ hs) e c = bubble s hs e c1"
  by (induction pre arbitrary: c) (auto split: prod.splits Outcome.splits)

context statig
begin

lemma handle_suffix:
  assumes "handlers s = pre @ hs" and "deferred pre e c = Some c1"
  shows "handle_with_context s e c = bubble s hs e c1"
  using assms
proof (induction hs arbitrary: pre c1)
  case Nil
  then show ?case using unclaimed [of s e c c1] by simp
next
  case (Cons h hs)
  obtain o' c2 where h: "h e c1 = (o', c2)" by (cases "h e c1")
  show ?case
  proof (cases o')
    case Handled
    with h Cons.prems show ?thesis using handled [of s pre h hs e c c1 c2] by simp
  next
    case (Transition t)
    with h Cons.prems show ?thesis using transition [of s pre h hs e c c1 t c2] by simp
  next
    case Super
    have "deferred (pre @ [h]) e c = Some c2"
      using Cons.prems(2) h Super by (simp add: deferred_append)
    with Cons.IH [of "pre @ [h]" c2] Cons.prems(1) h Super show ?thesis by simp
  qed
qed

lemma handle_bubble: "handle_with_context s e c = bubble s (handlers s) e c"
  by (rule handle_suffix [of s "[]"]) simp_all

end

lemma statig_bubble: "statig handlers (\<lambda>s. bubble s (handlers s))"
proof
  fix s pre h post e c c1 c2
  assume "handlers s = pre @ h # post" "deferred pre e c = Some c1" "h e c1 = (Handled, c2)"
  then show "bubble s (handlers s) e c = (s, c2)" by (simp add: bubble_deferred)
next
  fix s pre h post e c c1 t c2
  assume "handlers s = pre @ h # post" "deferred pre e c = Some c1" "h e c1 = (Transition t, c2)"
  then show "bubble s (handlers s) e c = (t, c2)" by (simp add: bubble_deferred)
next
  fix s e c c1
  assume "deferred (handlers s) e c = Some c1"
  then show "bubble s (handlers s) e c = (s, c1)"
    using bubble_deferred [of "handlers s" e c c1 s "[]"] by simp
qed

end
