(* ===== verification/Computer_Machine.thy ===== *)
theory Computer_Machine
  imports Computer_Phase Statig
begin

section \<open>The sandbox lifecycle machine\<close>

text \<open>
  \<open>lifecycle/event.rs\<close>, \<open>effect.rs\<close>, \<open>machine.rs\<close> and \<open>projection.rs\<close>: what the machine is
  told, what it asks for, the handler of every state and superstate, and the two projections of
  a state.  A handler keeps the name of its state with the suffix \<open>_h\<close>; the operations of the
  effect buffer have the prefix \<open>fx_\<close>.  \<open>computer_handlers\<close> is the superstate hierarchy.
\<close>

subsection \<open>Events\<close>

datatype RestoreOrigin = Restore | WarmCreate

datatype Provision = Boot (warm: bool) | Restore (origin: RestoreOrigin)

datatype PauseReason = Requested | IdleTimeout

fun pause_reason_text :: "PauseReason \<Rightarrow> string" where
  "pause_reason_text PauseReason.Requested = ''pause''"
| "pause_reason_text PauseReason.IdleTimeout = ''idle_timeout''"

datatype WorkloadClaim = Api | Initial

datatype Event =
    Provision Provision
  | Checkpoint
  | Pause PauseReason
  | Resume
  | Stop (budget_ms: u64)
  | Remove (force: bool)
  | Detach
  | ClaimWorkload WorkloadClaim
  | WorkloadExited
  | WorkloadReleased
  | ResourcesHandedOff
  | AgentReady
  | Restored
  | Gated
  | CaptureDone (snapshot_id: string)
  | ReleasedForPause
  | StopDone
  | RemoveDone
  | Detached
  | Failure
  | Frozen
  | Stranded
  | VmExited
  | TtlExpired
  | IdleExpired IdleAction
  | Recovered ComputerPhase
  | Adopted

subsection \<open>Effects\<close>

datatype Notify =
    Created | Ready | Running | Idle | Stopping | Stopped | Failed | Removed | Pausing | Paused
  | Resumed

datatype Unconfirmed = Ack | Unavailable | RevertToPaused

datatype Durability = Warn | GateJournal | Report Unconfirmed

datatype ReleaseScope = Runtime | KeepDisk | Full

datatype RecordEnd = Aborted | Removed

datatype Timer = Ttl | Idle

datatype Answer = Ready | Resumed | Paused | Stopped | Removed | Detached

datatype Effect =
    PersistPhase ComputerPhase Durability
  | CommitRestored Durability
  | ForgetRecord RecordEnd
  | SpawnBoot bool
  | SpawnRestore RestoreOrigin
  | SpawnGate
  | SpawnCheckpoint (hold: bool)
  | SpawnResume
  | SpawnStop u64 (drain: bool)
  | SpawnRelease ReleaseScope
  | Detach
  | AbortInflight
  | Publish Notify
  | ArmTimer Timer
  | CancelTimer Timer
  | Answer Answer
  | ClearJournal

record Effects =
  items :: "Effect list"

definition fx_emit :: "Effect \<Rightarrow> Effects \<Rightarrow> Effects" where
  "fx_emit f c = c\<lparr>items := items c @ [f]\<rparr>"

definition fx_persist :: "ComputerPhase \<Rightarrow> Durability \<Rightarrow> Effects \<Rightarrow> Effects" where
  "fx_persist p d = fx_emit (Effect.PersistPhase p d)"

definition fx_release :: "ReleaseScope \<Rightarrow> Effects \<Rightarrow> Effects" where
  "fx_release scope = fx_emit (Effect.SpawnRelease scope)"

definition fx_stop :: "u64 \<Rightarrow> bool \<Rightarrow> Effects \<Rightarrow> Effects" where
  "fx_stop budget drains c =
     (let c = fx_persist ComputerPhase.Stopping Durability.Warn c;
          c = fx_emit (Effect.CancelTimer Timer.Idle) c;
          c = fx_emit (Effect.Publish Notify.Stopping) c
      in fx_emit (Effect.SpawnStop budget drains) c)"

definition fx_removal :: "Effects \<Rightarrow> Effects" where
  "fx_removal c =
     (let c = fx_emit Effect.AbortInflight c;
          c = fx_emit (Effect.CancelTimer Timer.Ttl) c;
          c = fx_emit (Effect.CancelTimer Timer.Idle) c;
          c = fx_persist ComputerPhase.Removing Durability.Warn c
      in fx_release ReleaseScope.Full c)"

definition fx_failure :: "Effects \<Rightarrow> Effects" where
  "fx_failure c =
     (let c = fx_persist ComputerPhase.Failed Durability.GateJournal c;
          c = fx_release ReleaseScope.Runtime c;
          c = fx_emit Effect.ClearJournal c;
          c = fx_emit (Effect.CancelTimer Timer.Idle) c;
          c = fx_emit (Effect.CancelTimer Timer.Ttl) c
      in fx_emit (Effect.Publish Notify.Failed) c)"

definition fx_take :: "Effects \<Rightarrow> Effect list \<times> Effects" where
  "fx_take c = (items c, c\<lparr>items := []\<rparr>)"

subsection \<open>States and their projections\<close>

datatype State =
    Provisioning
  | Staging
  | Booting
  | Restoring RestoreOrigin
  | Gating (committed: bool) (claimed: bool)
  | Ready
  | Running
  | Checkpointing
  | Capturing
  | Releasing
  | Paused
  | Resuming
  | Stopping
  | Stopped
  | Failed
  | Removing
  | Detached
  | Gone

definition initial_state :: State where
  "initial_state = State.Provisioning"

fun to_public :: "State \<Rightarrow> ComputerState" where
  "to_public State.Provisioning = ComputerState.Starting"
| "to_public State.Staging = ComputerState.Starting"
| "to_public State.Booting = ComputerState.Starting"
| "to_public (State.Restoring _) = ComputerState.Starting"
| "to_public State.Resuming = ComputerState.Starting"
| "to_public (State.Gating _ False) = ComputerState.Starting"
| "to_public (State.Gating _ True) = ComputerState.Running"
| "to_public State.Ready = ComputerState.Ready"
| "to_public State.Checkpointing = ComputerState.Ready"
| "to_public State.Running = ComputerState.Running"
| "to_public State.Capturing = ComputerState.Pausing"
| "to_public State.Releasing = ComputerState.Pausing"
| "to_public State.Paused = ComputerState.Paused"
| "to_public State.Stopping = ComputerState.Stopping"
| "to_public State.Removing = ComputerState.Stopping"
| "to_public State.Detached = ComputerState.Ready"
| "to_public State.Stopped = ComputerState.Stopped"
| "to_public State.Gone = ComputerState.Stopped"
| "to_public State.Failed = ComputerState.Failed"

fun durable :: "State \<Rightarrow> ComputerPhase option" where
  "durable State.Provisioning = Some ComputerPhase.Creating"
| "durable (State.Restoring _) = Some ComputerPhase.Creating"
| "durable State.Staging = Some ComputerPhase.Starting"
| "durable State.Booting = Some ComputerPhase.Starting"
| "durable (State.Gating c _) = Some (if c then ComputerPhase.Ready else ComputerPhase.Starting)"
| "durable State.Gone = None"
| "durable State.Ready = Some ComputerPhase.Ready"
| "durable State.Running = Some ComputerPhase.Ready"
| "durable State.Checkpointing = Some ComputerPhase.Ready"
| "durable State.Detached = Some ComputerPhase.Ready"
| "durable State.Capturing = Some ComputerPhase.Pausing"
| "durable State.Releasing = Some ComputerPhase.Pausing"
| "durable State.Paused = Some ComputerPhase.Paused"
| "durable State.Resuming = Some ComputerPhase.Resuming"
| "durable State.Stopping = Some ComputerPhase.Stopping"
| "durable State.Stopped = Some ComputerPhase.Stopped"
| "durable State.Failed = Some ComputerPhase.Failed"
| "durable State.Removing = Some ComputerPhase.Removing"

subsection \<open>Handlers\<close>

type_synonym computer_handler = "(State, Event, Effects) handler"

definition computer_h :: computer_handler where
  "computer_h e c =
     (case e of
        Event.Remove _ \<Rightarrow> (Transition State.Removing, fx_removal c)
      | Event.TtlExpired \<Rightarrow> (Transition State.Removing, fx_removal c)
      | Event.Frozen \<Rightarrow> (Transition State.Failed, fx_failure c)
      | Event.Failure \<Rightarrow> (Transition State.Failed, fx_failure c)
      | Event.Stranded \<Rightarrow> (Transition State.Failed, fx_failure c)
      | Event.VmExited \<Rightarrow> (Transition State.Failed, fx_failure c)
      | _ \<Rightarrow> (Handled, c))"

definition recovered_outcome :: "ComputerPhase \<Rightarrow> State Outcome" where
  "recovered_outcome p =
     (case p of
        ComputerPhase.Creating \<Rightarrow> Handled
      | ComputerPhase.Starting \<Rightarrow> Transition State.Failed
      | ComputerPhase.Ready \<Rightarrow> Transition State.Failed
      | ComputerPhase.Stopping \<Rightarrow> Transition State.Failed
      | ComputerPhase.Pausing \<Rightarrow> Transition State.Failed
      | ComputerPhase.Resuming \<Rightarrow> Transition State.Failed
      | ComputerPhase.Failed \<Rightarrow> Transition State.Failed
      | ComputerPhase.Stopped \<Rightarrow> Transition State.Stopped
      | ComputerPhase.Paused \<Rightarrow> Transition State.Paused
      | ComputerPhase.Removing \<Rightarrow> Transition State.Removing)"

definition provisioning_h :: computer_handler where
  "provisioning_h e c =
     (case e of
        Event.Provision (Provision.Boot w) \<Rightarrow>
          (let c = fx_persist ComputerPhase.Starting (Durability.Report Unconfirmed.Ack) c;
               c = fx_emit (Effect.SpawnBoot w) c;
               c = fx_emit (Effect.Publish Notify.Created) c;
               c = fx_emit (Effect.ArmTimer Timer.Ttl) c
           in (Transition State.Staging, c))
      | Event.Provision (Provision.Restore o') \<Rightarrow>
          (Transition (State.Restoring o'), fx_emit (Effect.SpawnRestore o') c)
      | Event.Failure \<Rightarrow>
          (Transition State.Gone, fx_emit (Effect.ForgetRecord RecordEnd.Aborted) c)
      | Event.Recovered p \<Rightarrow> (recovered_outcome p, c)
      | Event.Adopted \<Rightarrow> (Transition State.Ready, c)
      | Event.Remove False \<Rightarrow> (Handled, c)
      | _ \<Rightarrow> (Super, c))"

definition staging_h :: computer_handler where
  "staging_h e c =
     (case e of
        Event.ResourcesHandedOff \<Rightarrow> (Transition State.Booting, c)
      | Event.Remove False \<Rightarrow> (Handled, c)
      | _ \<Rightarrow> (Super, c))"

definition launching_h :: computer_handler where
  "launching_h e c =
     (case e of
        Event.ResourcesHandedOff \<Rightarrow> (Handled, c)
      | Event.Remove False \<Rightarrow> (Handled, c)
      | _ \<Rightarrow> (Super, c))"

definition booting_h :: computer_handler where
  "booting_h e c =
     (case e of
        Event.AgentReady \<Rightarrow> (Transition (State.Gating False False), fx_emit Effect.SpawnGate c)
      | _ \<Rightarrow> (Super, c))"

definition restoring_h :: "RestoreOrigin \<Rightarrow> computer_handler" where
  "restoring_h o' e c =
     (case e of
        Event.Restored \<Rightarrow>
          (let c = fx_emit (Effect.CommitRestored (Durability.Report Unconfirmed.Ack)) c;
               c = (if o' = RestoreOrigin.WarmCreate
                    then fx_emit (Effect.Publish Notify.Created) c else c);
               c = fx_emit (Effect.ArmTimer Timer.Ttl) c;
               c = fx_emit Effect.SpawnGate c
           in (Transition (State.Gating True False), c))
      | Event.Failure \<Rightarrow> (Transition State.Removing, fx_removal c)
      | Event.Stranded \<Rightarrow> (Transition State.Removing, fx_removal c)
      | Event.VmExited \<Rightarrow> (Transition State.Removing, fx_removal c)
      | Event.Frozen \<Rightarrow> (Transition State.Removing, fx_removal c)
      | _ \<Rightarrow> (Super, c))"

definition gating_h :: "bool \<Rightarrow> bool \<Rightarrow> computer_handler" where
  "gating_h com cl e c =
     (case e of
        Event.Gated \<Rightarrow>
          (let c = (if \<not> com
                    then fx_persist ComputerPhase.Ready (Durability.Report Unconfirmed.Unavailable) c
                    else c);
               c = fx_emit (Effect.Publish Notify.Ready) c;
               c = fx_emit (Effect.Answer Answer.Ready) c
           in if cl then (Transition State.Running, c)
              else (Transition State.Ready, fx_emit (Effect.ArmTimer Timer.Idle) c))
      | Event.ClaimWorkload WorkloadClaim.Initial \<Rightarrow>
          (if \<not> cl
           then (Transition (State.Gating com True), fx_emit (Effect.Publish Notify.Running) c)
           else (Handled, c))
      | Event.WorkloadExited \<Rightarrow>
          (if cl then (Transition (State.Gating com False), fx_emit (Effect.Publish Notify.Idle) c)
           else (Super, c))
      | Event.WorkloadReleased \<Rightarrow>
          (if cl then (Transition (State.Gating com False), fx_emit (Effect.Publish Notify.Idle) c)
           else (Super, c))
      | Event.Failure \<Rightarrow> (if com then (Transition State.Removing, fx_removal c) else (Super, c))
      | Event.Frozen \<Rightarrow> (if com then (Transition State.Removing, fx_removal c) else (Super, c))
      | Event.Stranded \<Rightarrow> (if com then (Transition State.Removing, fx_removal c) else (Super, c))
      | Event.ClaimWorkload _ \<Rightarrow> (Handled, c)
      | Event.Remove False \<Rightarrow> (Handled, c)
      | _ \<Rightarrow> (Super, c))"

definition active_h :: computer_handler where
  "active_h e c =
     (case e of
        Event.Stop b \<Rightarrow> (Transition State.Stopping, fx_stop b False c)
      | Event.Detach \<Rightarrow> (Handled, fx_emit Effect.Detach c)
      | Event.Detached \<Rightarrow>
          (let c = fx_emit (Effect.Answer Answer.Detached) c;
               c = fx_emit (Effect.CancelTimer Timer.Ttl) c;
               c = fx_emit (Effect.CancelTimer Timer.Idle) c
           in (Transition State.Detached, c))
      | _ \<Rightarrow> (Super, c))"

text \<open>\<open>ready\<close> calls itself: an idle window that ends in a pause is handled as a \<open>Pause\<close>.\<close>

function ready_h :: computer_handler where
  "ready_h e c =
     (case e of
        Event.ClaimWorkload _ \<Rightarrow>
          (let c = fx_emit (Effect.CancelTimer Timer.Idle) c;
               c = fx_emit (Effect.Publish Notify.Running) c
           in (Transition State.Running, c))
      | Event.Pause _ \<Rightarrow>
          (let c = fx_persist ComputerPhase.Pausing Durability.Warn c;
               c = fx_emit (Effect.CancelTimer Timer.Idle) c;
               c = fx_emit (Effect.Publish Notify.Pausing) c;
               c = fx_emit (Effect.SpawnCheckpoint True) c
           in (Transition State.Capturing, c))
      | Event.IdleExpired IdleAction.Pause \<Rightarrow> ready_h (Event.Pause PauseReason.IdleTimeout) c
      | Event.IdleExpired IdleAction.Kill \<Rightarrow> (Transition State.Removing, fx_removal c)
      | Event.Checkpoint \<Rightarrow>
          (let c = fx_emit (Effect.CancelTimer Timer.Idle) c;
               c = fx_emit (Effect.SpawnCheckpoint False) c
           in (Transition State.Checkpointing, c))
      | _ \<Rightarrow> (Super, c))"
  by pat_completeness auto

termination ready_h
  by (relation "measure (\<lambda>(e, c). case e of Event.IdleExpired _ \<Rightarrow> 1 | _ \<Rightarrow> 0)") auto

declare ready_h.simps [simp del]

definition running_h :: computer_handler where
  "running_h e c =
     (case e of
        Event.WorkloadExited \<Rightarrow>
          (let c = fx_emit (Effect.Publish Notify.Idle) c;
               c = fx_emit (Effect.ArmTimer Timer.Idle) c
           in (Transition State.Ready, c))
      | Event.WorkloadReleased \<Rightarrow>
          (let c = fx_emit (Effect.Publish Notify.Idle) c;
               c = fx_emit (Effect.ArmTimer Timer.Idle) c
           in (Transition State.Ready, c))
      | Event.Stop b \<Rightarrow> (Transition State.Stopping, fx_stop b True c)
      | Event.ClaimWorkload _ \<Rightarrow> (Handled, c)
      | Event.Pause _ \<Rightarrow> (Handled, c)
      | Event.Checkpoint \<Rightarrow> (Handled, c)
      | Event.IdleExpired _ \<Rightarrow> (Handled, c)
      | Event.Remove False \<Rightarrow> (Handled, c)
      | _ \<Rightarrow> (Super, c))"

definition checkpointing_h :: computer_handler where
  "checkpointing_h e c =
     (case e of
        Event.CaptureDone _ \<Rightarrow> (Transition State.Ready, fx_emit (Effect.ArmTimer Timer.Idle) c)
      | Event.Failure \<Rightarrow> (Transition State.Ready, fx_emit (Effect.ArmTimer Timer.Idle) c)
      | Event.ClaimWorkload _ \<Rightarrow> (Handled, c)
      | Event.Pause _ \<Rightarrow> (Handled, c)
      | Event.Checkpoint \<Rightarrow> (Handled, c)
      | Event.Detach \<Rightarrow> (Handled, c)
      | Event.Detached \<Rightarrow> (Handled, c)
      | Event.IdleExpired _ \<Rightarrow> (Handled, c)
      | _ \<Rightarrow> (Super, c))"

definition suspending_h :: computer_handler where
  "suspending_h e c =
     (case e of
        Event.Stop _ \<Rightarrow> (Handled, c)
      | _ \<Rightarrow> (Super, c))"

definition capturing_h :: computer_handler where
  "capturing_h e c =
     (case e of
        Event.CaptureDone _ \<Rightarrow> (Transition State.Releasing, fx_release ReleaseScope.KeepDisk c)
      | Event.Failure \<Rightarrow>
          (let c = fx_persist ComputerPhase.Ready Durability.Warn c;
               c = fx_emit (Effect.Publish Notify.Ready) c;
               c = fx_emit (Effect.ArmTimer Timer.Idle) c
           in (Transition State.Ready, c))
      | _ \<Rightarrow> (Super, c))"

definition releasing_h :: computer_handler where
  "releasing_h e c =
     (case e of
        Event.ReleasedForPause \<Rightarrow>
          (let c = fx_persist ComputerPhase.Paused Durability.GateJournal c;
               c = fx_emit Effect.ClearJournal c;
               c = fx_emit (Effect.Publish Notify.Paused) c;
               c = fx_emit (Effect.Answer Answer.Paused) c
           in (Transition State.Paused, c))
      | _ \<Rightarrow> (Super, c))"

definition paused_h :: computer_handler where
  "paused_h e c =
     (case e of
        Event.Resume \<Rightarrow>
          (let c = fx_persist ComputerPhase.Resuming
                     (Durability.Report Unconfirmed.RevertToPaused) c;
               c = fx_emit Effect.SpawnResume c
           in (Transition State.Resuming, c))
      | Event.Pause _ \<Rightarrow> (Handled, c)
      | _ \<Rightarrow> (Super, c))"

definition resuming_h :: computer_handler where
  "resuming_h e c =
     (case e of
        Event.Restored \<Rightarrow>
          (let c = fx_persist ComputerPhase.Ready Durability.Warn c;
               c = fx_emit (Effect.Publish Notify.Resumed) c;
               c = fx_emit (Effect.Answer Answer.Resumed) c;
               c = fx_emit (Effect.ArmTimer Timer.Idle) c
           in (Transition State.Ready, c))
      | Event.Failure \<Rightarrow>
          (let c = fx_persist ComputerPhase.Paused Durability.Warn c;
               c = fx_emit (Effect.Publish Notify.Paused) c
           in (Transition State.Paused, c))
      | Event.Remove False \<Rightarrow> (Handled, c)
      | _ \<Rightarrow> (Super, c))"

definition stopping_h :: computer_handler where
  "stopping_h e c =
     (case e of
        Event.StopDone \<Rightarrow>
          (let c = fx_persist ComputerPhase.Stopped Durability.GateJournal c;
               c = fx_emit Effect.ClearJournal c;
               c = fx_emit (Effect.CancelTimer Timer.Ttl) c;
               c = fx_emit (Effect.Publish Notify.Stopped) c;
               c = fx_emit (Effect.Answer Answer.Stopped) c
           in (Transition State.Stopped, c))
      | Event.VmExited \<Rightarrow> (Handled, c)
      | _ \<Rightarrow> (Super, c))"

definition resting_h :: computer_handler where
  "resting_h e c =
     (case e of
        Event.TtlExpired \<Rightarrow> (Handled, c)
      | Event.IdleExpired _ \<Rightarrow> (Handled, c)
      | Event.VmExited \<Rightarrow> (Handled, c)
      | Event.Failure \<Rightarrow> (Handled, c)
      | Event.Stranded \<Rightarrow> (Handled, c)
      | Event.Frozen \<Rightarrow> (Handled, c)
      | _ \<Rightarrow> (Super, c))"

definition stopped_h :: computer_handler where
  "stopped_h e c = (Super, c)"

definition failed_h :: computer_handler where
  "failed_h e c = (Super, c)"

definition removing_h :: computer_handler where
  "removing_h e c =
     (case e of
        Event.RemoveDone \<Rightarrow>
          (let c = fx_emit (Effect.ForgetRecord RecordEnd.Removed) c;
               c = fx_emit (Effect.Publish Notify.Removed) c;
               c = fx_emit (Effect.Answer Answer.Removed) c
           in (Transition State.Gone, c))
      | Event.Remove _ \<Rightarrow> (Handled, c)
      | Event.TtlExpired \<Rightarrow> (Handled, c)
      | Event.Failure \<Rightarrow> (Handled, c)
      | Event.Stranded \<Rightarrow> (Handled, c)
      | Event.Frozen \<Rightarrow> (Handled, c)
      | Event.VmExited \<Rightarrow> (Handled, c)
      | _ \<Rightarrow> (Super, c))"

definition detached_h :: computer_handler where
  "detached_h e c = (Handled, c)"

definition gone_h :: computer_handler where
  "gone_h e c = (Handled, c)"

text \<open>The handler of each state followed by those of its superstates, innermost first.\<close>

fun computer_handlers :: "State \<Rightarrow> computer_handler list" where
  "computer_handlers State.Provisioning = [provisioning_h, computer_h]"
| "computer_handlers State.Staging = [staging_h, computer_h]"
| "computer_handlers State.Booting = [booting_h, launching_h, computer_h]"
| "computer_handlers (State.Restoring o') = [restoring_h o', launching_h, computer_h]"
| "computer_handlers (State.Gating com cl) = [gating_h com cl, computer_h]"
| "computer_handlers State.Ready = [ready_h, active_h, computer_h]"
| "computer_handlers State.Running = [running_h, active_h, computer_h]"
| "computer_handlers State.Checkpointing = [checkpointing_h, active_h, computer_h]"
| "computer_handlers State.Capturing = [capturing_h, suspending_h, computer_h]"
| "computer_handlers State.Releasing = [releasing_h, suspending_h, computer_h]"
| "computer_handlers State.Paused = [paused_h, computer_h]"
| "computer_handlers State.Resuming = [resuming_h, computer_h]"
| "computer_handlers State.Stopping = [stopping_h, computer_h]"
| "computer_handlers State.Stopped = [stopped_h, resting_h, computer_h]"
| "computer_handlers State.Failed = [failed_h, resting_h, computer_h]"
| "computer_handlers State.Removing = [removing_h, computer_h]"
| "computer_handlers State.Detached = [detached_h]"
| "computer_handlers State.Gone = [gone_h]"

type_synonym machine = "State \<Rightarrow> Event \<Rightarrow> Effects \<Rightarrow> State \<times> Effects"

text \<open>The dispatch that walks the chain of handlers.\<close>

definition computer_step :: machine where
  "computer_step s e c = bubble s (computer_handlers s) e c"

text \<open>One dispatch as the actor does it, from an empty buffer: the state after and the effects.\<close>

definition dispatch_of :: "machine \<Rightarrow> State \<Rightarrow> Event \<Rightarrow> State \<times> Effect list" where
  "dispatch_of hw s e = (let (s', c) = hw s e \<lparr>items = []\<rparr> in (s', fst (fx_take c)))"

definition next_state :: "machine \<Rightarrow> State \<Rightarrow> Event \<Rightarrow> State" where
  "next_state hw s e = fst (dispatch_of hw s e)"

definition emitted :: "machine \<Rightarrow> State \<Rightarrow> Event \<Rightarrow> Effect list" where
  "emitted hw s e = snd (dispatch_of hw s e)"

subsection \<open>What is said about the machine\<close>

text \<open>
  The durable side of an effect, as the store accepts it: a phase write needs a legal edge, the
  restore commit and the abort need a \<open>Creating\<close> record, the end of a removal a \<open>Removing\<close>
  one.  The outer \<open>None\<close> is a write the store would refuse; the inner one is no record.
\<close>

fun write_effect :: "Effect \<Rightarrow> ComputerPhase option \<Rightarrow> ComputerPhase option option" where
  "write_effect (Effect.PersistPhase p _) r =
     (case r of Some q \<Rightarrow> if can_transition_to q p then Some (Some p) else None | None \<Rightarrow> None)"
| "write_effect (Effect.CommitRestored _) r =
     (if r = Some ComputerPhase.Creating then Some (Some ComputerPhase.Ready) else None)"
| "write_effect (Effect.ForgetRecord RecordEnd.Aborted) r =
     (if r = Some ComputerPhase.Creating then Some None else None)"
| "write_effect (Effect.ForgetRecord RecordEnd.Removed) r =
     (if r = Some ComputerPhase.Removing then Some None else None)"
| "write_effect _ r = Some r"

fun write_effects :: "Effect list \<Rightarrow> ComputerPhase option \<Rightarrow> ComputerPhase option option" where
  "write_effects [] r = Some r"
| "write_effects (f # fs) r =
     (case write_effect f r of None \<Rightarrow> None | Some r' \<Rightarrow> write_effects fs r')"

text \<open>The events of startup recovery, which adopt a record instead of writing one.\<close>

fun boot_event :: "Event \<Rightarrow> bool" where
  "boot_event (Event.Recovered _) = True"
| "boot_event Event.Adopted = True"
| "boot_event _ = False"

text \<open>A run over a list of events, with every effect in order.\<close>

fun run_machine :: "machine \<Rightarrow> State \<Rightarrow> Event list \<Rightarrow> State \<times> Effect list" where
  "run_machine hw s [] = (s, [])"
| "run_machine hw s (e # es) =
     (let (s', fs) = run_machine hw (next_state hw s e) es in (s', emitted hw s e @ fs))"

definition removal_effects :: "Effect list" where
  "removal_effects = items (fx_removal \<lparr>items = []\<rparr>)"

definition failure_effects :: "Effect list" where
  "failure_effects = items (fx_failure \<lparr>items = []\<rparr>)"

text \<open>The single workload slot is held while \<open>running\<close> and in a gate the boot's \<open>cmd\<close> claimed.\<close>

fun slot_held :: "State \<Rightarrow> bool" where
  "slot_held State.Running = True"
| "slot_held (State.Gating _ cl) = cl"
| "slot_held _ = False"

text \<open>What the effects of a run leave armed and announced.\<close>

record Observed =
  obs_ttl :: bool
  obs_idle :: bool
  obs_created :: bool
  obs_ready :: bool
  obs_rpc :: bool

fun observe :: "Observed \<Rightarrow> Effect \<Rightarrow> Observed" where
  "observe g (Effect.ArmTimer Timer.Ttl) = g\<lparr>obs_ttl := True\<rparr>"
| "observe g (Effect.ArmTimer Timer.Idle) = g\<lparr>obs_idle := True\<rparr>"
| "observe g (Effect.CancelTimer Timer.Ttl) = g\<lparr>obs_ttl := False\<rparr>"
| "observe g (Effect.CancelTimer Timer.Idle) = g\<lparr>obs_idle := False\<rparr>"
| "observe g (Effect.Publish Notify.Created) = g\<lparr>obs_created := True\<rparr>"
| "observe g (Effect.Publish Notify.Ready) = g\<lparr>obs_ready := True\<rparr>"
| "observe g (Effect.SpawnRestore o') =
     (if o' = RestoreOrigin.Restore then g\<lparr>obs_rpc := True\<rparr> else g)"
| "observe g _ = g"

definition unobserved :: Observed where
  "unobserved = \<lparr>obs_ttl = False, obs_idle = False, obs_created = False, obs_ready = False,
     obs_rpc = False\<rparr>"

definition observed_start :: "State \<times> Observed \<Rightarrow> bool" where
  "observed_start sg \<longleftrightarrow> sg = (initial_state, unobserved)"

definition observed_move ::
  "machine \<Rightarrow> State \<times> Observed \<Rightarrow> Event \<Rightarrow> State \<times> Observed \<Rightarrow> bool" where
  "observed_move hw sg e sg' \<longleftrightarrow>
     \<not> boot_event e
     \<and> sg' = (next_state hw (fst sg) e, foldl observe (snd sg) (emitted hw (fst sg) e))"

text \<open>A computer counts against its lifetime from the commit of its launch until it rests.\<close>

fun ttl_runs :: "State \<Rightarrow> bool" where
  "ttl_runs State.Provisioning = False"
| "ttl_runs (State.Restoring _) = False"
| "ttl_runs State.Stopped = False"
| "ttl_runs State.Failed = False"
| "ttl_runs State.Removing = False"
| "ttl_runs State.Detached = False"
| "ttl_runs State.Gone = False"
| "ttl_runs _ = True"

fun observed_ok :: "State \<times> Observed \<Rightarrow> bool" where
  "observed_ok (s, g) \<longleftrightarrow>
     obs_ttl g = ttl_runs s
     \<and> obs_idle g = (s = State.Ready)
     \<and> (ttl_runs s \<longrightarrow> obs_created g \<or> obs_rpc g)
     \<and> (s = State.Restoring RestoreOrigin.Restore \<longrightarrow> obs_rpc g)
     \<and> (obs_ready g \<longrightarrow> obs_created g \<or> obs_rpc g)"

subsection \<open>Evaluating a dispatch\<close>

lemmas fx_defs = fx_emit_def fx_persist_def fx_release_def fx_stop_def fx_removal_def
  fx_failure_def fx_take_def removal_effects_def failure_effects_def

lemmas handler_defs = computer_h_def recovered_outcome_def provisioning_h_def staging_h_def
  launching_h_def booting_h_def restoring_h_def gating_h_def active_h_def ready_h.simps
  running_h_def checkpointing_h_def suspending_h_def capturing_h_def releasing_h_def paused_h_def
  resuming_h_def stopping_h_def resting_h_def stopped_h_def failed_h_def removing_h_def
  detached_h_def gone_h_def

lemmas step_defs = next_state_def emitted_def dispatch_of_def computer_step_def handler_defs
  fx_defs Let_def

lemmas step_splits = Provision.split bool.split WorkloadClaim.split IdleAction.split
  ComputerPhase.split RestoreOrigin.split

text \<open>Any dispatch that follows the documented rules is the walk up the handlers.\<close>

lemma statig_computer: "statig computer_handlers computer_step"
  using statig_bubble [of computer_handlers] by (simp add: computer_step_def [abs_def])

interpretation computer_statig: statig computer_handlers computer_step
  by (rule statig_computer)

lemma statig_unique:
  assumes "statig computer_handlers hw"
  shows "hw = computer_step"
  using statig.handle_bubble [OF assms] by (intro ext) (simp add: computer_step_def)

lemma write_effects_append:
  "write_effects (fs @ gs) r =
     (case write_effects fs r of None \<Rightarrow> None | Some r' \<Rightarrow> write_effects gs r')"
  by (induction fs arbitrary: r) (auto split: option.splits)

lemma step_durable:
  "\<not> boot_event e \<Longrightarrow>
     write_effects (emitted computer_step s e) (durable s)
       = Some (durable (next_state computer_step s e))"
  by (cases s; cases e; simp add: step_defs can_transition_to_def split: step_splits)

lemma not_WarmCreate [simp]: "o' \<noteq> RestoreOrigin.WarmCreate \<longleftrightarrow> o' = RestoreOrigin.Restore"
  by (cases o') simp_all

lemma step_observed:
  assumes "observed_ok (s, g)" "\<not> boot_event e"
  shows "observed_ok (next_state computer_step s e, foldl observe g (emitted computer_step s e))"
  using assms by (cases s; cases e; simp add: step_defs split: step_splits)

interpretation observed_machine:
  invariant_of observed_start "observed_move computer_step" observed_ok
proof
  show "observed_start sg \<Longrightarrow> observed_ok sg" for sg
    by (simp add: observed_start_def initial_state_def unobserved_def)
  show "observed_ok sg \<Longrightarrow> observed_move computer_step sg e sg' \<Longrightarrow> observed_ok sg'" for sg e sg'
    using step_observed [of "fst sg" "snd sg" e] by (simp add: observed_move_def)
qed

lemma run_machine_Cons:
  "run_machine hw s (e # es) =
     (fst (run_machine hw (next_state hw s e) es),
      emitted hw s e @ snd (run_machine hw (next_state hw s e) es))"
  by (simp add: Let_def case_prod_beta)

declare run_machine.simps(2) [simp del]
declare run_machine_Cons [simp]

end
