(* ===== verification/Computer_Lifecycle.thy ===== *)
theory Computer_Lifecycle
  imports Computer_Machine
begin

section \<open>Properties of the sandbox lifecycle machine\<close>

text \<open>
  What the transition table guarantees, for every dispatch \<open>hw\<close> that follows the documented
  rules of the state machine crate: the record written along any run is the one the state
  projects to, removal always ends, the busy gate, the workload slot, the timers, the
  announcements, the journal and the handover.
\<close>

subsection \<open>Runs and single steps\<close>

lemma to_public_Gating [simp]:
  "to_public (State.Gating com cl)
     = (if cl then ComputerState.Running else ComputerState.Starting)"
  by (cases cl) simp_all

lemma run_durable:
  assumes "\<forall>e \<in> set es. \<not> boot_event e"
  shows "write_effects (snd (run_machine computer_step s es)) (durable s)
           = Some (durable (fst (run_machine computer_step s es)))"
  using assms by (induction es arbitrary: s) (simp_all add: step_durable write_effects_append)

text \<open>C1: the durable record follows the machine along every run.  From any state, whatever
  commands, completions and observations arrive in whatever order, every record write the machine
  asks for is one the store accepts at that point, and after the run the record is in the phase
  the reached state projects to (no record exactly in \<open>gone\<close>).\<close>

theorem durable_refinement:
  assumes "statig computer_handlers hw" and "\<forall>e \<in> set es. \<not> boot_event e"
  shows "write_effects (snd (run_machine hw s es)) (durable s)
           = Some (durable (fst (run_machine hw s es)))"
  using run_durable [OF assms(2)] statig_unique [OF assms(1)] by simp

theorem durable_refinement_witness:
  "write_effects
     (snd (run_machine computer_step State.Provisioning
        [Event.Provision (Provision.Boot False), Event.ResourcesHandedOff, Event.AgentReady,
         Event.Gated, Event.Pause PauseReason.Requested, Event.CaptureDone ''s1'',
         Event.ReleasedForPause]))
     (Some ComputerPhase.Creating) = Some (Some ComputerPhase.Paused)"
  using durable_refinement [OF statig_computer, of
      "[Event.Provision (Provision.Boot False), Event.ResourcesHandedOff, Event.AgentReady,
        Event.Gated, Event.Pause PauseReason.Requested, Event.CaptureDone ''s1'',
        Event.ReleasedForPause]" State.Provisioning]
  by (simp add: step_defs)

text \<open>C4: removal always works and always ends.  From every state but the two terminal ones a
  forced remove followed by the completion of the teardown ends in \<open>gone\<close>, with the record
  deleted, the callers answered and the runtime released with the widest scope, and no further
  event is acted on.\<close>

theorem removal_completes:
  assumes "statig computer_handlers hw" and "s \<notin> {State.Detached, State.Gone}"
  shows "run_machine hw s [Event.Remove True, Event.RemoveDone] =
      (State.Gone,
       (if s = State.Removing then [] else removal_effects)
         @ [Effect.ForgetRecord RecordEnd.Removed, Effect.Publish Notify.Removed,
            Effect.Answer Answer.Removed])
    \<and> Effect.SpawnRelease ReleaseScope.Full \<in> set removal_effects
    \<and> dispatch_of hw State.Gone e = (State.Gone, [])"
  using assms(2) unfolding statig_unique [OF assms(1)]
  by (cases s) (simp_all add: step_defs split: step_splits)

theorem removal_completes_witness:
  "fst (run_machine computer_step State.Running [Event.Remove True, Event.RemoveDone]) = State.Gone"
  using removal_completes [OF statig_computer, of State.Running] by simp

text \<open>the busy gate.  A remove that is not forced is refused, with nothing emitted, exactly
  where a caller sees the computer starting or running, where a removal is already in progress,
  and after the end; everywhere else it does what a forced one does.\<close>

theorem remove_busy_gate:
  assumes "statig computer_handlers hw"
  shows "dispatch_of hw s (Event.Remove False) =
    (if to_public s \<in> {ComputerState.Starting, ComputerState.Running}
        \<or> s \<in> {State.Removing, State.Detached, State.Gone}
     then (s, []) else (State.Removing, removal_effects))"
  unfolding statig_unique [OF assms]
  by (cases s) (auto simp: step_defs split: bool.split)

theorem remove_busy_gate_witness:
  "dispatch_of computer_step State.Booting (Event.Remove False) = (State.Booting, [])
   \<and> dispatch_of computer_step State.Capturing (Event.Remove False)
       = (State.Removing, removal_effects)"
  using remove_busy_gate [OF statig_computer, of State.Booting]
    remove_busy_gate [OF statig_computer, of State.Capturing] by simp

text \<open>C16: one workload at a time.  A claim takes the slot only from a free one: RUNNING is
  published exactly when the slot passes from free to held, and IDLE exactly when it is given
  back to a computer that goes on.  An API claim succeeds only in \<open>ready\<close>, the boot's own claim
  also in an unclaimed gate, and a claim that does not succeed changes nothing.\<close>

theorem workload_slot:
  assumes "statig computer_handlers hw"
  shows "(Effect.Publish Notify.Running \<in> set (emitted hw s e)
            \<longleftrightarrow> \<not> slot_held s \<and> slot_held (next_state hw s e))
    \<and> (Effect.Publish Notify.Idle \<in> set (emitted hw s e)
            \<longleftrightarrow> slot_held s \<and> \<not> slot_held (next_state hw s e)
                \<and> next_state hw s e \<in> {State.Ready, State.Gating True False, State.Gating False False})
    \<and> (slot_held (next_state hw s (Event.ClaimWorkload k)) \<and> \<not> slot_held s
            \<longleftrightarrow> s = State.Ready
                \<or> k = WorkloadClaim.Initial \<and> (\<exists>com. s = State.Gating com False))
    \<and> (slot_held s \<longrightarrow> dispatch_of hw s (Event.ClaimWorkload k) = (s, []))"
proof -
  have "(Effect.Publish Notify.Running \<in> set (emitted computer_step s e)
            \<longleftrightarrow> \<not> slot_held s \<and> slot_held (next_state computer_step s e))"
    by (cases s; cases e; simp add: step_defs split: step_splits)
  moreover have "Effect.Publish Notify.Idle \<in> set (emitted computer_step s e)
            \<longleftrightarrow> slot_held s \<and> \<not> slot_held (next_state computer_step s e)
                \<and> next_state computer_step s e
                    \<in> {State.Ready, State.Gating True False, State.Gating False False}"
    by (cases s; cases e; simp add: step_defs split: step_splits)
  moreover have "slot_held (next_state computer_step s (Event.ClaimWorkload k)) \<and> \<not> slot_held s
            \<longleftrightarrow> s = State.Ready
                \<or> k = WorkloadClaim.Initial \<and> (\<exists>com. s = State.Gating com False)"
    by (cases s; cases k; simp add: step_defs)
  moreover have "slot_held s
      \<longrightarrow> dispatch_of computer_step s (Event.ClaimWorkload k) = (s, [])"
    by (cases s; cases k; simp add: step_defs)
  ultimately show ?thesis unfolding statig_unique [OF assms] by blast
qed

theorem workload_slot_witness:
  "dispatch_of computer_step State.Running (Event.ClaimWorkload WorkloadClaim.Api)
     = (State.Running, [])
   \<and> slot_held (next_state computer_step (State.Gating False False)
        (Event.ClaimWorkload WorkloadClaim.Initial))"
  using workload_slot [OF statig_computer, of State.Running Event.Gated WorkloadClaim.Api]
    workload_slot [OF statig_computer, of "State.Gating False False" Event.Gated
      WorkloadClaim.Initial] by auto

subsection \<open>Timers and announcements along runs\<close>

text \<open>C15: the timers follow the state.  In every state a computer can reach from its
  provisioning by a launch, the idle window is armed exactly in \<open>ready\<close> and the lifetime cap
  exactly from the commit of the launch until the computer rests, is removed or is handed over;
  so neither timer can fire into a computer that has nothing left to expire.\<close>

theorem timers_follow_state:
  assumes "statig computer_handlers hw" and "reach observed_start (observed_move hw) (s, g)"
  shows "obs_idle g = (s = State.Ready) \<and> obs_ttl g = ttl_runs s"
  using observed_machine.holds_reach [of "(s, g)"] assms(2)
  unfolding statig_unique [OF assms(1)] by simp

lemma observed_boot:
  "reach observed_start (observed_move computer_step)
     (State.Staging, unobserved\<lparr>obs_created := True, obs_ttl := True\<rparr>)"
proof (rule reach_move)
  show "reach observed_start (observed_move computer_step) (State.Provisioning, unobserved)"
    by (rule reach_start) (simp add: observed_start_def initial_state_def)
  show "observed_move computer_step (State.Provisioning, unobserved)
     (Event.Provision (Provision.Boot True))
     (State.Staging, unobserved\<lparr>obs_created := True, obs_ttl := True\<rparr>)"
    by (simp add: observed_move_def step_defs unobserved_def)
qed

theorem timers_follow_state_witness:
  "obs_ttl (unobserved\<lparr>obs_created := True, obs_ttl := True\<rparr>) = ttl_runs State.Staging"
  using timers_follow_state [OF statig_computer observed_boot] by simp

text \<open>C23: the announcement contract.  READY is published only by a transition into a computer
  that is usable and durably \<open>Ready\<close>; and in every reachable state READY has been published only
  if CREATED was, or the computer came from the restore request, which announces READY alone.\<close>

theorem ready_announcement:
  assumes "statig computer_handlers hw" and "reach observed_start (observed_move hw) (s, g)"
  shows "(obs_ready g \<longrightarrow> obs_created g \<or> obs_rpc g)
    \<and> (Effect.Publish Notify.Ready \<in> set (emitted hw s e) \<longrightarrow>
         next_state hw s e \<in> {State.Ready, State.Running}
         \<and> write_effects (takeWhile (\<lambda>f. f \<noteq> Effect.Publish Notify.Ready) (emitted hw s e)) (durable s)
             = Some (Some ComputerPhase.Ready)
         \<and> (obs_created g \<or> obs_rpc g))"
proof -
  have ok: "observed_ok (s, g)"
    using observed_machine.holds_reach [of "(s, g)"] assms(2)
    unfolding statig_unique [OF assms(1)] by simp
  have "Effect.Publish Notify.Ready \<in> set (emitted computer_step s e) \<longrightarrow>
         next_state computer_step s e \<in> {State.Ready, State.Running}
         \<and> write_effects (takeWhile (\<lambda>f. f \<noteq> Effect.Publish Notify.Ready) (emitted computer_step s e))
             (durable s) = Some (Some ComputerPhase.Ready)
         \<and> ttl_runs s"
    by (cases s; cases e; simp add: step_defs can_transition_to_def split: step_splits)
  with ok show ?thesis unfolding statig_unique [OF assms(1)] by auto
qed

theorem ready_announcement_witness:
  "Effect.Publish Notify.Ready \<notin> set (emitted computer_step State.Staging Event.ResourcesHandedOff)
   \<and> obs_created (unobserved\<lparr>obs_created := True, obs_ttl := True\<rparr>)"
  using ready_announcement [OF statig_computer observed_boot, of Event.ResourcesHandedOff]
  by (auto simp: step_defs)

subsection \<open>Journal, stop, failure and handover\<close>

text \<open>C24: the crash journal is cleared only behind a gated write.  Wherever a transition asks
  for \<open>ClearJournal\<close>, an earlier effect of the same transition writes, with the durability that
  gates the journal, exactly the phase the new state projects to; and no effect between the two
  starts anything but the release the failure path owes.\<close>

theorem journal_clear_gated:
  assumes "statig computer_handlers hw" and "emitted hw s e = pre @ Effect.ClearJournal # post"
  shows "\<exists>p. durable (next_state hw s e) = Some p
    \<and> (pre = [Effect.PersistPhase p Durability.GateJournal]
       \<or> pre = [Effect.PersistPhase p Durability.GateJournal,
                Effect.SpawnRelease ReleaseScope.Runtime])
    \<and> Effect.ClearJournal \<notin> set post"
proof -
  have "Effect.ClearJournal \<in> set (emitted computer_step s e) \<longrightarrow>
     (\<exists>p fs. durable (next_state computer_step s e) = Some p \<and> Effect.ClearJournal \<notin> set fs
        \<and> (emitted computer_step s e
             = [Effect.PersistPhase p Durability.GateJournal] @ Effect.ClearJournal # fs
          \<or> emitted computer_step s e
             = [Effect.PersistPhase p Durability.GateJournal,
                Effect.SpawnRelease ReleaseScope.Runtime] @ Effect.ClearJournal # fs))"
    by (cases s; cases e; simp add: step_defs split: step_splits)
  with assms(2) show ?thesis unfolding statig_unique [OF assms(1)]
    by (auto simp: append_eq_append_conv2 append_eq_Cons_conv Cons_eq_append_conv)
qed

theorem journal_clear_gated_witness:
  "\<exists>p. durable (next_state computer_step State.Stopping Event.StopDone) = Some p
     \<and> p = ComputerPhase.Stopped"
proof -
  have "emitted computer_step State.Stopping Event.StopDone
     = [Effect.PersistPhase ComputerPhase.Stopped Durability.GateJournal] @ Effect.ClearJournal #
       [Effect.CancelTimer Timer.Ttl, Effect.Publish Notify.Stopped, Effect.Answer Answer.Stopped]"
    by (simp add: step_defs)
  from journal_clear_gated [OF statig_computer this] show ?thesis by auto
qed

text \<open>a stop acts exactly where there is a settled live guest, drains exactly when a
  workload is running, and its completion leaves a stopped record whose journal clear and answer
  come after the gated write.\<close>

theorem stop_exactly_active:
  assumes "statig computer_handlers hw"
  shows "dispatch_of hw s (Event.Stop b) =
    (if s \<in> {State.Ready, State.Running, State.Checkpointing}
     then (State.Stopping,
           [Effect.PersistPhase ComputerPhase.Stopping Durability.Warn,
            Effect.CancelTimer Timer.Idle, Effect.Publish Notify.Stopping,
            Effect.SpawnStop b (s = State.Running)])
     else (s, []))
    \<and> dispatch_of hw State.Stopping Event.StopDone =
        (State.Stopped,
         [Effect.PersistPhase ComputerPhase.Stopped Durability.GateJournal, Effect.ClearJournal,
          Effect.CancelTimer Timer.Ttl, Effect.Publish Notify.Stopped,
          Effect.Answer Answer.Stopped])"
  unfolding statig_unique [OF assms] by (cases s) (simp_all add: step_defs)

theorem stop_exactly_active_witness:
  "dispatch_of computer_step State.Paused (Event.Stop 500) = (State.Paused, [])"
  using stop_exactly_active [OF statig_computer, of State.Paused 500] by simp

text \<open>a failure the guest does not survive never leaves a usable computer.  After a frozen
  guest, an unwind that did not complete or an unasked exit, the computer is failed with its
  runtime released, or on its way to removal, or was already past having a guest; only the exit
  a stop asked for is ignored.\<close>

theorem unrecoverable_failure:
  assumes "statig computer_handlers hw"
    and "e \<in> {Event.Frozen, Event.Stranded, Event.VmExited}"
  shows "dispatch_of hw s e =
    (if s \<in> {State.Stopped, State.Failed, State.Removing, State.Detached, State.Gone}
        \<or> s = State.Stopping \<and> e = Event.VmExited
     then (s, [])
     else if (\<exists>o'. s = State.Restoring o')
        \<or> (\<exists>cl. s = State.Gating True cl) \<and> e \<noteq> Event.VmExited
     then (State.Removing, removal_effects)
     else (State.Failed, failure_effects))"
  using assms(2) unfolding statig_unique [OF assms(1)]
  by (cases s) (auto simp: step_defs)

theorem unrecoverable_failure_witness:
  "dispatch_of computer_step State.Resuming Event.Stranded = (State.Failed, failure_effects)"
  using unrecoverable_failure [OF statig_computer, of Event.Stranded State.Resuming] by simp

text \<open>a handover is asked for only where a settled live handle is, leaves the machine where
  it was until it succeeded, writes no record, and is final: a handed-over computer ignores every
  event, removals and expiries included.\<close>

theorem handover_final:
  assumes "statig computer_handlers hw"
  shows "(Effect.Detach \<in> set (emitted hw s e)
            \<longleftrightarrow> e = Event.Detach \<and> s \<in> {State.Ready, State.Running})
    \<and> next_state hw s Event.Detach = s
    \<and> (next_state hw s e = State.Detached \<and> s \<noteq> State.Detached \<longrightarrow>
         e = Event.Detached \<and> s \<in> {State.Ready, State.Running}
         \<and> emitted hw s e = [Effect.Answer Answer.Detached, Effect.CancelTimer Timer.Ttl,
                             Effect.CancelTimer Timer.Idle])
    \<and> dispatch_of hw State.Detached e = (State.Detached, [])"
proof -
  have "Effect.Detach \<in> set (emitted computer_step s e)
            \<longleftrightarrow> e = Event.Detach \<and> s \<in> {State.Ready, State.Running}"
    by (cases s; cases e; simp add: step_defs split: step_splits)
  moreover have "next_state computer_step s Event.Detach = s"
    by (cases s) (simp_all add: step_defs)
  moreover have "next_state computer_step s e = State.Detached \<and> s \<noteq> State.Detached \<longrightarrow>
         e = Event.Detached \<and> s \<in> {State.Ready, State.Running}
         \<and> emitted computer_step s e = [Effect.Answer Answer.Detached, Effect.CancelTimer Timer.Ttl,
                             Effect.CancelTimer Timer.Idle]"
    by (cases s; cases e; simp add: step_defs split: step_splits)
  moreover have "dispatch_of computer_step State.Detached e = (State.Detached, [])"
    by (simp add: step_defs)
  ultimately show ?thesis unfolding statig_unique [OF assms] by blast
qed

theorem handover_final_witness:
  "dispatch_of computer_step State.Detached (Event.Remove True) = (State.Detached, [])
   \<and> Effect.Detach \<notin> set (emitted computer_step State.Checkpointing Event.Detach)"
  using handover_final [OF statig_computer, of State.Checkpointing Event.Detach]
    handover_final [OF statig_computer, of State.Detached "Event.Remove True"] by simp

text \<open>C17: pause and resume are inverse.  From \<open>ready\<close>, a pause that completes and a resume that
  completes end in \<open>ready\<close> again, through the durable phases \<open>Pausing\<close>, \<open>Paused\<close>, \<open>Resuming\<close>,
  \<open>Ready\<close>; a resume that unwound parks back at \<open>Paused\<close>, and a capture that failed leaves the
  computer ready.\<close>

theorem pause_resume_roundtrip:
  assumes "statig computer_handlers hw"
  shows "fst (run_machine hw State.Ready
           [Event.Pause r, Event.CaptureDone snap, Event.ReleasedForPause, Event.Resume,
            Event.Restored]) = State.Ready
    \<and> [p. Effect.PersistPhase p _ \<leftarrow> snd (run_machine hw State.Ready
           [Event.Pause r, Event.CaptureDone snap, Event.ReleasedForPause, Event.Resume,
            Event.Restored])]
        = [ComputerPhase.Pausing, ComputerPhase.Paused, ComputerPhase.Resuming,
           ComputerPhase.Ready]
    \<and> fst (run_machine hw State.Paused [Event.Resume, Event.Failure]) = State.Paused
    \<and> fst (run_machine hw State.Ready [Event.Pause r, Event.Failure]) = State.Ready"
  unfolding statig_unique [OF assms] by (simp add: step_defs)

theorem pause_resume_roundtrip_witness:
  "fst (run_machine computer_step State.Ready
      [Event.Pause PauseReason.Requested, Event.CaptureDone ''s1'', Event.ReleasedForPause,
       Event.Resume, Event.Restored]) = State.Ready"
  using pause_resume_roundtrip [OF statig_computer] by blast

end
