(* ===== verification/Atomic_File.thy ===== *)
theory Atomic_File
  imports ArcPrelude
begin

section \<open>Atomic file replacement\<close>

text \<open>
  \<open>common/arcbox-atomic-file/src/lib.rs\<close>: write a temporary sibling, \<open>fsync\<close> it, rename it over
  the destination and \<open>fsync\<close> the directory.  A file system is a map from paths to files; every
  system call the code makes is a step on it that can be made to fail by an injected fault.  A
  write returns its result and the trace of file systems left by each of its calls, so that what
  a concurrent reader or a crash can see is a statement about the members of the trace.
\<close>

subsection \<open>Paths, files and faults\<close>

record path =
  parent :: "string option"
  file_name :: string

definition join :: "string \<Rightarrow> string \<Rightarrow> path" where
  "join dir name = \<lparr>parent = Some dir, file_name = name\<rparr>"

definition path_text :: "path \<Rightarrow> string" where
  "path_text p = (case parent p of None \<Rightarrow> file_name p | Some d \<Rightarrow> d @ ''/'' @ file_name p)"

datatype FileType = Regular | Directory | OtherType

record 'byte stored_file =
  file_type :: FileType
  file_mode :: u32
  content :: "'byte list"

type_synonym 'byte fs = "path \<rightharpoonup> 'byte stored_file"

datatype ErrorKind = NotFound | AlreadyExists | InvalidInput | IsADirectory | OtherKind

datatype IoError = IoError (io_kind: ErrorKind) (io_text: string)

text \<open>
  The faults of one call.  A fault is the text of the error the call returns instead of acting;
  a failed write may have written some bytes first.  A fault is never \<open>NotFound\<close>: that kind is
  what the calls themselves answer for a missing file.
\<close>

record 'byte AtomicIo =
  io_open :: "string option"
  io_write :: "(string \<times> 'byte list) option"
  io_chmod :: "string option"
  io_fsync :: "string option"
  io_rename :: "string option"
  io_unlink :: "string option"
  io_dirsync :: "string option"

definition no_faults :: "'byte AtomicIo" where
  "no_faults = \<lparr>io_open = None, io_write = None, io_chmod = None, io_fsync = None,
     io_rename = None, io_unlink = None, io_dirsync = None\<rparr>"

definition private_mode :: u32 where
  "private_mode = 384"

definition public_mode :: u32 where
  "public_mode = 420"

subsection \<open>System calls\<close>

type_synonym 'byte io_step = "'byte fs \<Rightarrow> (unit, IoError) result \<times> 'byte fs"

definition fault :: "string option \<Rightarrow> 'byte io_step \<Rightarrow> 'byte io_step" where
  "fault o' step fs = (case o' of Some t \<Rightarrow> (Err (IoError OtherKind t), fs) | None \<Rightarrow> step fs)"

definition create_new :: "path \<Rightarrow> 'byte io_step" where
  "create_new p fs =
     (if fs p \<noteq> None then (Err (IoError AlreadyExists ''File exists (os error 17)''), fs)
      else (Ok (), fs(p \<mapsto> \<lparr>file_type = Regular, file_mode = private_mode, content = []\<rparr>)))"

definition on_file :: "('byte stored_file \<Rightarrow> 'byte stored_file) \<Rightarrow> path \<Rightarrow> 'byte fs \<Rightarrow> 'byte fs" where
  "on_file f p fs = fs(p := map_option f (fs p))"

definition write_all :: "(string \<times> 'byte list) option \<Rightarrow> path \<Rightarrow> 'byte list \<Rightarrow> 'byte io_step" where
  "write_all o' p bytes fs =
     (case o' of
        Some (t, part) \<Rightarrow>
          (Err (IoError OtherKind t), on_file (\<lambda>f. f\<lparr>content := part\<rparr>) p fs)
      | None \<Rightarrow> (Ok (), on_file (\<lambda>f. f\<lparr>content := bytes\<rparr>) p fs))"

definition set_permissions :: "path \<Rightarrow> u32 \<Rightarrow> 'byte io_step" where
  "set_permissions p m fs = (Ok (), on_file (\<lambda>f. f\<lparr>file_mode := m\<rparr>) p fs)"

definition sync_all :: "'byte io_step" where
  "sync_all fs = (Ok (), fs)"

definition rename :: "path \<Rightarrow> path \<Rightarrow> 'byte io_step" where
  "rename src dst fs =
     (case fs dst of
        Some f \<Rightarrow>
          if file_type f = Directory
          then (Err (IoError IsADirectory ''Is a directory (os error 21)''), fs)
          else (Ok (), fs(dst := fs src, src := None))
      | None \<Rightarrow> (Ok (), fs(dst := fs src, src := None)))"

definition remove_file :: "path \<Rightarrow> 'byte io_step" where
  "remove_file p fs =
     (case fs p of
        None \<Rightarrow> (Err (IoError NotFound ''No such file or directory (os error 2)''), fs)
      | Some f \<Rightarrow>
          if file_type f = Directory
          then (Err (IoError IsADirectory ''Is a directory (os error 21)''), fs)
          else (Ok (), fs(p := None)))"

text \<open>The steps of the closure, up to the first that fails, with the file system after each.\<close>

fun run_steps :: "'byte io_step list \<Rightarrow> 'byte fs \<Rightarrow> (unit, IoError) result \<times> 'byte fs list" where
  "run_steps [] fs = (Ok (), [])"
| "run_steps (st # sts) fs =
     (case st fs of
        (Err e, fs') \<Rightarrow> (Err e, [fs'])
      | (Ok _, fs') \<Rightarrow> (let (r, tr) = run_steps sts fs' in (r, fs' # tr)))"

subsection \<open>The write\<close>

datatype AtomicWriteError =
    NotCommitted (awe_path: path) (awe_source: IoError)
  | DurabilityUncertain (awe_path: path) (awe_source: IoError)

fun atomic_error_text :: "AtomicWriteError \<Rightarrow> string" where
  "atomic_error_text (NotCommitted p e) =
     path_text p @ '' was not replaced: '' @ io_text e"
| "atomic_error_text (DurabilityUncertain p e) =
     path_text p @ '' was renamed but directory durability is unconfirmed: '' @ io_text e"

definition source_io :: "AtomicWriteError \<Rightarrow> IoError" where
  "source_io e = (case e of NotCommitted _ s \<Rightarrow> s | DurabilityUncertain _ s \<Rightarrow> s)"

definition temp_path :: "string \<Rightarrow> string \<Rightarrow> path" where
  "temp_path dir uuid = join dir (''.arcbox-'' @ uuid @ ''.tmp'')"

text \<open>Remove the temporary file behind a failure; a removal that fails is added to the error.\<close>

definition clean_up :: "'byte AtomicIo \<Rightarrow> path \<Rightarrow> IoError \<Rightarrow> 'byte fs \<Rightarrow> IoError \<times> 'byte fs" where
  "clean_up io temp original fs =
     (case fault (io_unlink io) (remove_file temp) fs of
        (Ok _, fs') \<Rightarrow> (original, fs')
      | (Err e, fs') \<Rightarrow>
          (if io_kind e = NotFound then original
           else IoError (io_kind original)
                  (io_text original @ ''; failed to remove temporary file '' @ path_text temp
                     @ '': '' @ io_text e), fs'))"

definition prepare_steps :: "'byte AtomicIo \<Rightarrow> path \<Rightarrow> 'byte list \<Rightarrow> u32 \<Rightarrow> 'byte io_step list" where
  "prepare_steps io temp bytes m =
     [fault (io_open io) (create_new temp),
      write_all (io_write io) temp bytes,
      fault (io_chmod io) (set_permissions temp m),
      fault (io_fsync io) sync_all]"

definition write_steps :: "'byte AtomicIo \<Rightarrow> path \<Rightarrow> path \<Rightarrow> 'byte list \<Rightarrow> u32 \<Rightarrow> 'byte io_step list" where
  "write_steps io temp dest bytes m =
     prepare_steps io temp bytes m @ [fault (io_rename io) (rename temp dest)]"

definition write_with_mode ::
  "'byte AtomicIo \<Rightarrow> string \<Rightarrow> path \<Rightarrow> 'byte list \<Rightarrow> u32 \<Rightarrow> 'byte fs
     \<Rightarrow> (unit, AtomicWriteError) result \<times> 'byte fs list" where
  "write_with_mode io uuid dest bytes m fs =
     (case parent dest of
        None \<Rightarrow>
          (Err (NotCommitted dest (IoError InvalidInput (''path has no parent: '' @ path_text dest))), [])
      | Some dir \<Rightarrow>
          (let temp = temp_path dir uuid;
               (r, tr) = run_steps (write_steps io temp dest bytes m) fs
           in case r of
                Err original \<Rightarrow>
                  (let (e, fs') = clean_up io temp original (last tr)
                   in (Err (NotCommitted dest e), tr @ [fs']))
              | Ok _ \<Rightarrow>
                  (case io_dirsync io of
                     Some t \<Rightarrow> (Err (DurabilityUncertain dest (IoError OtherKind t)), tr)
                   | None \<Rightarrow> (Ok (), tr))))"

definition write_file ::
  "'byte AtomicIo \<Rightarrow> string \<Rightarrow> path \<Rightarrow> 'byte list \<Rightarrow> 'byte fs
     \<Rightarrow> (unit, AtomicWriteError) result \<times> 'byte fs list" where
  "write_file io uuid dest bytes fs = write_with_mode io uuid dest bytes private_mode fs"

definition write_public ::
  "'byte AtomicIo \<Rightarrow> string \<Rightarrow> path \<Rightarrow> 'byte list \<Rightarrow> 'byte fs
     \<Rightarrow> (unit, AtomicWriteError) result \<times> 'byte fs list" where
  "write_public io uuid dest bytes fs = write_with_mode io uuid dest bytes public_mode fs"

text \<open>The file system a write leaves.\<close>

definition after :: "'byte fs \<Rightarrow> 'byte fs list \<Rightarrow> 'byte fs" where
  "after fs tr = last (fs # tr)"

subsection \<open>What a write guarantees\<close>

definition new_file :: "'byte list \<Rightarrow> u32 \<Rightarrow> 'byte stored_file" where
  "new_file bytes m = \<lparr>file_type = Regular, file_mode = m, content = bytes\<rparr>"

definition committed_result :: "(unit, AtomicWriteError) result \<Rightarrow> bool" where
  "committed_result r \<longleftrightarrow>
     (case r of Ok _ \<Rightarrow> True | Err (DurabilityUncertain _ _) \<Rightarrow> True | Err (NotCommitted _ _) \<Rightarrow> False)"

lemmas call_defs = fault_def create_new_def on_file_def write_all_def set_permissions_def
  sync_all_def rename_def remove_file_def

lemma temp_path_eq [simp]: "temp_path d u = temp_path d' u' \<longleftrightarrow> d = d' \<and> u = u'"
  by (simp add: temp_path_def join_def)

lemma run_steps_snoc:
  "run_steps (sts @ [st]) fs =
     (case run_steps sts fs of
        (Err e, tr) \<Rightarrow> (Err e, tr)
      | (Ok _, tr) \<Rightarrow>
          (case st (after fs tr) of
             (Err e, fs') \<Rightarrow> (Err e, tr @ [fs'])
           | (Ok _, fs') \<Rightarrow> (Ok (), tr @ [fs'])))"
  by (induction sts arbitrary: fs)
    (auto simp: after_def Let_def split: prod.splits sum.splits)

lemma run_steps_keep:
  assumes "\<And>st fs. st \<in> set sts \<Longrightarrow> snd (st fs) p = fs p"
    and "run_steps sts fs = (r, tr)" "fs' \<in> set tr"
  shows "fs' p = fs p"
  using assms
proof (induction sts arbitrary: fs r tr)
  case (Cons st sts)
  obtain x fs1 where st: "st fs = (x, fs1)" by (cases "st fs")
  with Cons.prems(1) [of st fs] have "fs1 p = fs p" by simp
  with Cons.IH [of fs1] Cons.prems st show ?case
    by (cases x; cases "run_steps sts fs1") auto
qed simp

lemma run_steps_Err_trace: "run_steps sts fs = (Err e, tr) \<Longrightarrow> tr \<noteq> []"
  by (cases sts) (auto simp: Let_def split: prod.splits sum.splits)

lemma after_in: "tr \<noteq> [] \<Longrightarrow> after fs tr \<in> set tr"
  by (simp add: after_def)

lemma prepare_keep:
  assumes "run_steps (prepare_steps io temp bytes m) fs = (r, tr)" "p \<noteq> temp" "fs' \<in> set tr"
  shows "fs' p = fs p"
proof (rule run_steps_keep [OF _ assms(1,3)])
  show "snd (st fs) p = fs p" if "st \<in> set (prepare_steps io temp bytes m)" for st fs
    using that assms(2)
    by (auto simp: prepare_steps_def call_defs split: option.splits)
qed

lemma prepare_Ok:
  assumes "run_steps (prepare_steps io temp bytes m) fs = (Ok u, tr)"
  shows "fs temp = None" and "after fs tr = fs(temp \<mapsto> new_file bytes m)"
  using assms
  by (auto simp: prepare_steps_def call_defs new_file_def after_def split: option.splits if_splits)

lemma clean_up_keep:
  "clean_up io temp original fs = (e, fs') \<Longrightarrow> p \<noteq> temp \<Longrightarrow> fs' p = fs p"
  by (auto simp: clean_up_def call_defs split: option.splits if_splits)

text \<open>The outcomes of a write with a parent directory, by the first step that fails.\<close>

lemma write_with_mode_cases:
  assumes "write_with_mode io uuid dest bytes m fs = (r, tr)" "parent dest = Some dir"
  defines "temp \<equiv> temp_path dir uuid"
  obtains (prep_failed) e tr0 e' fs' where
      "run_steps (prepare_steps io temp bytes m) fs = (Err e, tr0)"
      "clean_up io temp e (last tr0) = (e', fs')" "r = Err (NotCommitted dest e')" "tr = tr0 @ [fs']"
  | (rename_failed) e tr0 fs1 e' fs' where
      "run_steps (prepare_steps io temp bytes m) fs = (Ok (), tr0)"
      "fault (io_rename io) (rename temp dest) (fs(temp \<mapsto> new_file bytes m)) = (Err e, fs1)"
      "clean_up io temp e fs1 = (e', fs')" "r = Err (NotCommitted dest e')"
      "tr = tr0 @ [fs1, fs']"
  | (renamed) tr0 fs1 where
      "run_steps (prepare_steps io temp bytes m) fs = (Ok (), tr0)"
      "fault (io_rename io) (rename temp dest) (fs(temp \<mapsto> new_file bytes m)) = (Ok (), fs1)"
      "tr = tr0 @ [fs1]"
      "r = (case io_dirsync io of None \<Rightarrow> Ok ()
            | Some t \<Rightarrow> Err (DurabilityUncertain dest (IoError OtherKind t)))"
proof (cases "run_steps (prepare_steps io temp bytes m) fs")
  case (Pair x tr0)
  show thesis
  proof (cases x)
    case (Inl e)
    with Pair assms prep_failed show thesis
      by (auto simp: write_with_mode_def write_steps_def run_steps_snoc Let_def split: prod.splits)
  next
    case (Inr u)
    obtain y fs1 where y:
      "fault (io_rename io) (rename temp dest) (fs(temp \<mapsto> new_file bytes m)) = (y, fs1)"
      by (cases "fault (io_rename io) (rename temp dest) (fs(temp \<mapsto> new_file bytes m))")
    show thesis
    proof (cases y)
      case Inl
      with Pair Inr y assms rename_failed show thesis
        by (auto simp: write_with_mode_def write_steps_def run_steps_snoc Let_def prepare_Ok(2)
            split: prod.splits)
    next
      case (Inr v)
      with Pair \<open>x = Inr u\<close> y assms renamed show thesis
        by (cases "io_dirsync io")
          (auto simp: write_with_mode_def write_steps_def run_steps_snoc Let_def prepare_Ok(2))
    qed
  qed
qed

lemma rename_Ok:
  "fault o' (rename temp dest) fs = (Ok u, fs1) \<Longrightarrow> fs1 = fs(dest := fs temp, temp := None)"
  by (auto simp: call_defs split: option.splits if_splits)

lemma rename_Err: "fault o' (rename temp dest) fs = (Err e, fs1) \<Longrightarrow> fs1 = fs"
  by (auto simp: call_defs split: option.splits if_splits)

text \<open>Only the destination and the temporary sibling are touched.\<close>

lemma write_with_mode_frame:
  assumes w: "write_with_mode io uuid dest bytes m fs = (r, tr)" and "fs' \<in> set tr"
    and "parent dest = Some dir" and p: "p \<noteq> dest" "p \<noteq> temp_path dir uuid"
  shows "fs' p = fs p"
  using w assms(3)
proof (cases rule: write_with_mode_cases)
  case (prep_failed e tr0 e' fs1)
  have "last tr0 p = fs p"
    using prepare_keep [OF prep_failed(1) p(2)] run_steps_Err_trace [OF prep_failed(1)] by simp
  with assms(2) prep_failed prepare_keep [OF prep_failed(1) p(2)] clean_up_keep [OF prep_failed(2) p(2)]
  show ?thesis by auto
next
  case (rename_failed e tr0 fs1 e' fs2)
  with assms(2) p prepare_keep [OF rename_failed(1) p(2)] rename_Err [OF rename_failed(2)]
    clean_up_keep [OF rename_failed(3) p(2)]
  show ?thesis by auto
next
  case (renamed tr0 fs1)
  with assms(2) p prepare_keep [OF renamed(1) p(2)] rename_Ok [OF renamed(2)]
  show ?thesis by auto
qed

lemma write_with_mode_visible:
  assumes w: "write_with_mode io uuid dest bytes m fs = (r, tr)" and "parent dest = Some dir"
    and ne: "dest \<noteq> temp_path dir uuid"
  shows "if committed_result r then
           (\<forall>fs' \<in> set tr. fs' dest \<in> {fs dest, Some (new_file bytes m)})
           \<and> after fs tr = fs(dest \<mapsto> new_file bytes m) \<and> fs (temp_path dir uuid) = None
         else (\<forall>fs' \<in> set tr. fs' dest = fs dest)"
  using w assms(2)
proof (cases rule: write_with_mode_cases)
  case (prep_failed e tr0 e' fs1)
  have "last tr0 dest = fs dest"
    using prepare_keep [OF prep_failed(1) ne] run_steps_Err_trace [OF prep_failed(1)] by simp
  with prep_failed prepare_keep [OF prep_failed(1) ne] clean_up_keep [OF prep_failed(2) ne]
  show ?thesis by (auto simp: committed_result_def)
next
  case (rename_failed e tr0 fs1 e' fs2)
  with ne prepare_keep [OF rename_failed(1) ne] rename_Err [OF rename_failed(2)]
    clean_up_keep [OF rename_failed(3) ne]
  show ?thesis by (auto simp: committed_result_def)
next
  case (renamed tr0 fs1)
  have "committed_result r" using renamed(4) by (auto simp: committed_result_def split: option.splits)
  moreover have "fs1 = fs(dest \<mapsto> new_file bytes m)"
    using rename_Ok [OF renamed(2)] prepare_Ok(1) [OF renamed(1)] ne
    by (auto simp: fun_eq_iff)
  ultimately show ?thesis
    using renamed(3) prepare_keep [OF renamed(1) ne] prepare_Ok(1) [OF renamed(1)]
    by (auto simp: after_def)
qed

lemma clean_up_removes:
  assumes "clean_up io temp e fs = (e', fs')" "io_unlink io = None"
    and "\<And>f. fs temp = Some f \<Longrightarrow> file_type f = Regular"
  shows "fs' = fs(temp := None)"
  using assms by (auto simp: clean_up_def call_defs fun_eq_iff split: option.splits if_splits)

text \<open>Up to a failed preparation only the temporary file exists besides what was there.\<close>

lemma prepare_Err:
  assumes "run_steps (prepare_steps io temp bytes m) fs = (Err e, tr)" "fs temp = None"
  shows "(last tr)(temp := None) = fs"
    and "last tr temp = Some f \<Longrightarrow> file_type f = Regular"
  using assms
  by (auto simp: prepare_steps_def call_defs fun_eq_iff split: option.splits if_splits)

lemma write_with_mode_leaves_no_temp:
  assumes w: "write_with_mode io uuid dest bytes m fs = (r, tr)" and "parent dest = Some dir"
    and "dest \<noteq> temp_path dir uuid" "\<not> committed_result r"
    and fresh: "fs (temp_path dir uuid) = None" and ul: "io_unlink io = None"
  shows "after fs tr = fs"
  using w assms(2)
proof (cases rule: write_with_mode_cases)
  case (prep_failed e tr0 e' fs1)
  have "fs1 = (last tr0)(temp_path dir uuid := None)"
    by (rule clean_up_removes [OF prep_failed(2) ul]) (use prepare_Err(2) [OF prep_failed(1) fresh] in auto)
  with prep_failed(4) prepare_Err(1) [OF prep_failed(1) fresh] show ?thesis by (simp add: after_def)
next
  case (rename_failed e tr0 fs1 e' fs2)
  have "fs2 = fs1(temp_path dir uuid := None)"
    by (rule clean_up_removes [OF rename_failed(3) ul])
      (use rename_Err [OF rename_failed(2)] in \<open>auto simp: new_file_def\<close>)
  with rename_failed(5) rename_Err [OF rename_failed(2)] fresh show ?thesis
    by (simp add: after_def fun_upd_idem)
next
  case (renamed tr0 fs1)
  with assms(4) show ?thesis by (auto simp: committed_result_def split: option.splits)
qed

lemma write_with_mode_no_faults:
  assumes "parent dest = Some dir" "fs (temp_path dir uuid) = None"
    and "\<And>f. fs dest = Some f \<Longrightarrow> file_type f \<noteq> Directory" "dest \<noteq> temp_path dir uuid"
  shows "\<exists>tr. write_with_mode no_faults uuid dest bytes m fs = (Ok (), tr)"
  using assms
  by (cases "fs dest")
    (auto simp: write_with_mode_def write_steps_def prepare_steps_def no_faults_def call_defs Let_def)

text \<open>C6: the file is replaced atomically.  Whatever call fails, at every instant the
  destination holds the old contents or all of the new ones; a write that reports
  \<open>NotCommitted\<close> never changed the destination, and leaves no temporary file when the cleanup
  itself works; a write that succeeded, or whose durability alone is uncertain, leaves exactly
  the new contents and touches no other path.\<close>

theorem atomic_replacement:
  assumes "write_with_mode io uuid dest bytes m fs = (r, tr)" and "parent dest = Some dir"
    and "dest \<noteq> temp_path dir uuid" and "fs (temp_path dir uuid) = None"
  shows "(\<forall>fs' \<in> set tr. fs' dest \<in> {fs dest, Some (new_file bytes m)})
    \<and> (committed_result r \<longrightarrow> after fs tr = fs(dest \<mapsto> new_file bytes m))
    \<and> (\<not> committed_result r \<longrightarrow> (\<forall>fs' \<in> set tr. fs' dest = fs dest))
    \<and> (\<not> committed_result r \<longrightarrow> io_unlink io = None \<longrightarrow> after fs tr = fs)"
  using write_with_mode_visible [OF assms(1-3)] write_with_mode_leaves_no_temp [OF assms(1-3) _ assms(4)]
  by (auto split: if_splits)

theorem atomic_replacement_witness:
  "let fs = [join ''d'' ''f'' \<mapsto> \<lparr>file_type = Regular, file_mode = private_mode, content = [1::nat]\<rparr>];
       io = no_faults\<lparr>io_write := Some (''disk full'', [7])\<rparr>;
       (r, tr) = write_with_mode io ''u'' (join ''d'' ''f'') [7, 8] private_mode fs
   in \<not> committed_result r \<and> length tr = 3 \<and> after fs tr = fs"
proof -
  define fs where "fs = [join ''d'' ''f'' \<mapsto> \<lparr>file_type = Regular, file_mode = private_mode, content = [1::nat]\<rparr>]"
  define io where "io = (no_faults\<lparr>io_write := Some (''disk full'', [7::nat])\<rparr>)"
  obtain r tr where w: "write_with_mode io ''u'' (join ''d'' ''f'') [7, 8] private_mode fs = (r, tr)"
    by (cases "write_with_mode io ''u'' (join ''d'' ''f'') [7, 8] private_mode fs")
  have "\<not> committed_result r \<and> length tr = 3"
    using w by (simp add: fs_def io_def write_with_mode_def write_steps_def prepare_steps_def
        no_faults_def call_defs clean_up_def temp_path_def join_def committed_result_def Let_def)
      (auto simp: committed_result_def)
  moreover from this have "after fs tr = fs"
    using atomic_replacement [OF w, of "''d''"]
    by (simp add: fs_def io_def no_faults_def join_def temp_path_def)
  ultimately show ?thesis using w by (simp add: fs_def io_def)
qed

end
