(* ===== verification/Computer_Store.thy ===== *)
theory Computer_Store
  imports Computer_Phase Atomic_File "HOL-Library.Char_ord" "HOL-Library.List_Lexorder"
begin

section \<open>The durable record store\<close>

text \<open>
  \<open>sandbox/record/store.rs\<close>: every operation of the file-backed record store, under its mutex,
  on the file system of \<open>Atomic_File\<close>.  The store keeps one file per sandbox; the system calls
  of an operation can be made to fail by the faults of a \<open>StoreIo\<close>, which also carries the
  values the operation draws (\<open>Utc::now()\<close>, \<open>Uuid::new_v4()\<close>).  JSON coding and the printing of
  a UUID belong to other crates: they are the parameter \<open>ext\<close>, and what the store relies on is
  the hypothesis \<open>json_roundtrip\<close>.
\<close>

subsection \<open>State and parameters\<close>

record 'byte ext =
  to_vec_pretty :: "ComputerRecord \<Rightarrow> (string + 'byte list)"
  header_version :: "'byte list \<Rightarrow> (string + u32)"
  from_slice :: "'byte list \<Rightarrow> (string + ComputerRecord)"
  uuid_text :: "uuid \<Rightarrow> string"

definition json_roundtrip :: "'byte ext \<Rightarrow> bool" where
  "json_roundtrip X \<longleftrightarrow>
     (\<forall>r b. to_vec_pretty X r = Ok b \<longrightarrow>
        header_version X b = Ok (rec_version r) \<and> from_slice X b = Ok r)"

record 'byte StoreIo =
  ld_stat :: "string option"
  ld_chmod :: "string option"
  ld_read :: "string option"
  wr :: "'byte AtomicIo"
  wr_uuid :: string
  rm_unlink :: "string option"
  root_sync :: "string option"
  now :: instant
  new_uuid :: uuid

record 'byte ComputerRecordStore =
  root :: string
  poisoned :: bool
  files :: "'byte fs"

record 'a DurableCommit =
  commit_value :: 'a
  durability_error :: "string option"

definition confirmed :: "string \<Rightarrow> 'a DurableCommit \<Rightarrow> ('a, ComputerError) result" where
  "confirmed operation c =
     (case durability_error c of
        Some e \<Rightarrow> Err (Unavailable (operation @ '' is visible but its durability is unconfirmed: '' @ e))
      | None \<Rightarrow> Ok (commit_value c))"

type_synonym ('a, 'byte) store_result =
  "(ComputerError + 'a) \<times> 'byte ComputerRecordStore"

subsection \<open>Private operations\<close>

definition record_path :: "'byte ComputerRecordStore \<Rightarrow> string \<Rightarrow> path" where
  "record_path st i = join (root st) (i @ ''.json'')"

definition lock :: "'byte ComputerRecordStore \<Rightarrow> (unit, 'byte) store_result" where
  "lock st = (if poisoned st then (Err (Other ''sandbox record store mutex poisoned''), st)
              else (Ok (), st))"

definition decode :: "'byte ext \<Rightarrow> string \<Rightarrow> 'byte list \<Rightarrow> (ComputerRecord, ComputerError) result" where
  "decode X i bytes =
     (case header_version X bytes of
        Err t \<Rightarrow> Err (Json t)
      | Ok v \<Rightarrow>
          if v \<noteq> RECORD_VERSION
          then Err (Config (''unsupported sandbox record version '' @ show_nat (unat v) @ '' for '' @ i))
          else (case from_slice X bytes of
                  Err t \<Rightarrow> Err (Json t)
                | Ok r \<Rightarrow> and_then (validate_record i r) (\<lambda>_. Ok r)))"

definition load_unlocked ::
  "'byte ext \<Rightarrow> 'byte StoreIo \<Rightarrow> string \<Rightarrow> 'byte ComputerRecordStore
     \<Rightarrow> (ComputerRecord option, 'byte) store_result" where
  "load_unlocked X io i st =
     (case validate_id ''sandbox id'' i of Err e \<Rightarrow> (Err e, st) | Ok _ \<Rightarrow>
      (case ld_stat io of Some t \<Rightarrow> (Err (Io t), st) | None \<Rightarrow>
       (let p = record_path st i in
        case files st p of None \<Rightarrow> (Ok None, st) | Some f \<Rightarrow>
          if file_type f \<noteq> Regular then
            (Err (Config (''sandbox record is not a regular file: '' @ path_text p)), st)
          else
            (let widened = and (file_mode f) 63 \<noteq> 0 in
             if widened \<and> ld_chmod io \<noteq> None then (Err (Io (the (ld_chmod io))), st)
             else
               (let st = (if widened
                          then st\<lparr>files := on_file (\<lambda>f. f\<lparr>file_mode := private_mode\<rparr>) p (files st)\<rparr>
                          else st)
                in case ld_read io of Some t \<Rightarrow> (Err (Io t), st) | None \<Rightarrow>
                     (case decode X i (content f) of
                        Err e \<Rightarrow> (Err e, st)
                      | Ok r \<Rightarrow> (Ok (Some r), st)))))))"

definition save_unlocked ::
  "'byte ext \<Rightarrow> 'byte StoreIo \<Rightarrow> ComputerRecord \<Rightarrow> 'byte ComputerRecordStore
     \<Rightarrow> (string option, 'byte) store_result" where
  "save_unlocked X io r st =
     (case validate_record (rec_id r) r of Err e \<Rightarrow> (Err e, st) | Ok _ \<Rightarrow>
      (case to_vec_pretty X r of Err t \<Rightarrow> (Err (Json t), st) | Ok bytes \<Rightarrow>
       (let (w, tr) = write_file (wr io) (wr_uuid io) (record_path st (rec_id r)) bytes (files st);
            st = st\<lparr>files := after (files st) tr\<rparr>
        in case w of
             Ok _ \<Rightarrow> (Ok None, st)
           | Err (NotCommitted p e) \<Rightarrow> (Err (Io (io_text e)), st)
           | Err (DurabilityUncertain p e) \<Rightarrow>
               (Ok (Some (atomic_error_text (DurabilityUncertain p e))), st))))"

definition confirm_root_unlocked ::
  "'byte StoreIo \<Rightarrow> string \<Rightarrow> 'byte ComputerRecordStore \<Rightarrow> (unit, 'byte) store_result" where
  "confirm_root_unlocked io operation st =
     (case root_sync io of
        None \<Rightarrow> (Ok (), st)
      | Some e \<Rightarrow> (Err (Unavailable (operation @ '' durability could not be confirmed: '' @ e)), st))"

definition confirm_absence_unlocked :: "'byte StoreIo \<Rightarrow> unit DurableCommit" where
  "confirm_absence_unlocked io = \<lparr>commit_value = (), durability_error = root_sync io\<rparr>"

definition delete_unlocked ::
  "'byte StoreIo \<Rightarrow> string \<Rightarrow> 'byte ComputerRecordStore \<Rightarrow> (unit DurableCommit, 'byte) store_result" where
  "delete_unlocked io i st =
     (case fault (rm_unlink io) (remove_file (record_path st i)) (files st) of
        (Err e, fs) \<Rightarrow> (Err (Io (io_text e)), st\<lparr>files := fs\<rparr>)
      | (Ok _, fs) \<Rightarrow>
          (Ok \<lparr>commit_value = (), durability_error = root_sync io\<rparr>, st\<lparr>files := fs\<rparr>))"

definition generation_mismatch :: "'byte ext \<Rightarrow> string \<Rightarrow> uuid \<Rightarrow> uuid \<Rightarrow> ComputerError" where
  "generation_mismatch X i expected actual =
     WrongState i (''generation '' @ uuid_text X expected) (''generation '' @ uuid_text X actual)"

definition validate_provision_input :: "string \<Rightarrow> string \<Rightarrow> (unit, ComputerError) result" where
  "validate_provision_input i key =
     and_then (validate_id ''sandbox id'' i) (\<lambda>_.
       if key = [] then Err (Config ''sandbox provision request key must not be empty'') else Ok ())"

subsection \<open>Public operations\<close>

definition replay_provision ::
  "'byte ext \<Rightarrow> 'byte StoreIo \<Rightarrow> string \<Rightarrow> string \<Rightarrow> 'byte ComputerRecordStore
     \<Rightarrow> (ComputerProvisionOutcome option, 'byte) store_result" where
  "replay_provision X io i key st =
     (case validate_provision_input i key of Err e \<Rightarrow> (Err e, st) | Ok _ \<Rightarrow>
      st_then (lock st) (\<lambda>_ st.
      st_then (load_unlocked X io i st) (\<lambda>found st.
        case found of None \<Rightarrow> (Ok None, st) | Some r \<Rightarrow>
          (case classify_existing_provision r key of
             Err e \<Rightarrow> (Err e, st)
           | Ok ExistingProvision.Pending \<Rightarrow> (Ok None, st)
           | Ok ExistingProvision.Replay \<Rightarrow>
               st_then (confirm_root_unlocked io ''provision replay'' st)
                 (\<lambda>_ st. (Ok (rec_provision_outcome r), st))
           | Ok ExistingProvision.Blocked \<Rightarrow>
               st_then (confirm_root_unlocked io ''provision collision'' st)
                 (\<lambda>_ st. (Err (ComputerError.AlreadyExists i), st))))))"

definition provision_intent ::
  "'byte ext \<Rightarrow> 'byte StoreIo \<Rightarrow> string \<Rightarrow> string \<Rightarrow> ComputerSpec \<Rightarrow> 'byte ComputerRecordStore
     \<Rightarrow> (ProvisionIntent, 'byte) store_result" where
  "provision_intent X io i key spec st =
     (case validate_provision_input i key of Err e \<Rightarrow> (Err e, st) | Ok _ \<Rightarrow>
      st_then (lock st) (\<lambda>_ st.
      st_then (load_unlocked X io i st) (\<lambda>found st.
        case found of
          Some r \<Rightarrow>
            (case classify_existing_provision r key of
               Err e \<Rightarrow> (Err e, st)
             | Ok ExistingProvision.Pending \<Rightarrow> (Ok (ProvisionIntent.Resume r), st)
             | Ok ExistingProvision.Replay \<Rightarrow>
                 st_then (confirm_root_unlocked io ''provision replay'' st)
                   (\<lambda>_ st. (Ok (ProvisionIntent.Replay r), st))
             | Ok ExistingProvision.Blocked \<Rightarrow>
                 st_then (confirm_root_unlocked io ''provision collision'' st)
                   (\<lambda>_ st. (Ok (ProvisionIntent.Blocked r), st)))
        | None \<Rightarrow>
            (let r = new_record (now io) (new_uuid io) i key spec in
             st_then (save_unlocked X io r st) (\<lambda>_ st. (Ok (ProvisionIntent.Created r), st))))))"

definition load_generation ::
  "'byte ext \<Rightarrow> 'byte StoreIo \<Rightarrow> string \<Rightarrow> uuid \<Rightarrow> 'byte ComputerRecordStore
     \<Rightarrow> (ComputerRecord, 'byte) store_result" where
  "load_generation X io i gen st =
     st_then (lock st) (\<lambda>_ st.
     st_then (load_unlocked X io i st) (\<lambda>found st.
       case found of
         None \<Rightarrow> (Err (ComputerError.NotFound i), st)
       | Some r \<Rightarrow>
           if rec_generation r \<noteq> gen
           then (Err (generation_mismatch X i (rec_generation r) gen), st)
           else (Ok r, st)))"

definition transition ::
  "'byte ext \<Rightarrow> 'byte StoreIo \<Rightarrow> string \<Rightarrow> uuid \<Rightarrow> ComputerTransition \<Rightarrow> 'byte ComputerRecordStore
     \<Rightarrow> (ComputerRecord DurableCommit, 'byte) store_result" where
  "transition X io i gen t st =
     st_then (load_generation X io i gen st) (\<lambda>r st.
       case apply_transition (now io) t r of
         Err e \<Rightarrow> (Err e, st)
       | Ok r' \<Rightarrow>
           st_then (save_unlocked X io r' st) (\<lambda>d st.
             (Ok \<lparr>commit_value = r', durability_error = d\<rparr>, st)))"

definition update_lifecycle ::
  "'byte ext \<Rightarrow> 'byte StoreIo \<Rightarrow> string \<Rightarrow> uuid \<Rightarrow> instant option \<Rightarrow> u32 \<Rightarrow> IdleAction
     \<Rightarrow> 'byte ComputerRecordStore \<Rightarrow> (unit DurableCommit, 'byte) store_result" where
  "update_lifecycle X io i gen ttl idle on_idle st =
     st_then (load_generation X io i gen st) (\<lambda>r st.
       st_then (save_unlocked X io (write_lifecycle ttl idle on_idle r) st) (\<lambda>d st.
         (Ok \<lparr>commit_value = (), durability_error = d\<rparr>, st)))"

definition delete_record ::
  "'byte ext \<Rightarrow> 'byte StoreIo \<Rightarrow> string \<Rightarrow> uuid \<Rightarrow> ComputerPhase \<Rightarrow> 'byte ComputerRecordStore
     \<Rightarrow> (unit DurableCommit, 'byte) store_result" where
  "delete_record X io i gen expected st =
     st_then (lock st) (\<lambda>_ st.
     st_then (load_unlocked X io i st) (\<lambda>found st.
       case found of
         None \<Rightarrow> (Ok (confirm_absence_unlocked io), st)
       | Some r \<Rightarrow>
           if rec_generation r \<noteq> gen then (Err (generation_mismatch X i (rec_generation r) gen), st)
           else if rec_phase r \<noteq> expected
           then (Err (WrongState i (as_str expected) (as_str (rec_phase r))), st)
           else delete_unlocked io i st))"

definition abort_provision ::
  "'byte ext \<Rightarrow> 'byte StoreIo \<Rightarrow> string \<Rightarrow> uuid \<Rightarrow> 'byte ComputerRecordStore
     \<Rightarrow> (unit DurableCommit, 'byte) store_result" where
  "abort_provision X io i gen st = delete_record X io i gen ComputerPhase.Creating st"

definition finish_remove ::
  "'byte ext \<Rightarrow> 'byte StoreIo \<Rightarrow> string \<Rightarrow> uuid \<Rightarrow> 'byte ComputerRecordStore
     \<Rightarrow> (unit DurableCommit, 'byte) store_result" where
  "finish_remove X io i gen st = delete_record X io i gen ComputerPhase.Removing st"

definition cancel_pending_or_missing ::
  "'byte ext \<Rightarrow> 'byte StoreIo \<Rightarrow> string \<Rightarrow> 'byte ComputerRecordStore
     \<Rightarrow> (unit DurableCommit, 'byte) store_result" where
  "cancel_pending_or_missing X io i st =
     st_then (lock st) (\<lambda>_ st.
     st_then (load_unlocked X io i st) (\<lambda>found st.
       case found of
         None \<Rightarrow> (Ok (confirm_absence_unlocked io), st)
       | Some r \<Rightarrow>
           if rec_phase r \<noteq> ComputerPhase.Creating \<or> rec_provision_outcome r \<noteq> None
           then (Err (ComputerError.AlreadyExists i), st)
           else delete_unlocked io i st))"

text \<open>
  \<open>load_all\<close>: the names \<open>read_dir\<close> lists, sorted, those with the extension \<open>json\<close>, each loaded
  under its stem.  \<open>split_name\<close> is \<open>file_stem\<close> and \<open>extension\<close>: a dot at the front starts none.
  Each file has its own faults.
\<close>

definition split_name :: "string \<Rightarrow> string \<times> string option" where
  "split_name n =
     (let back = rev n;
          rest = dropWhile (\<lambda>c. c \<noteq> CHR ''.'') back
      in if length rest \<le> 1 then (n, None)
         else (rev (tl rest), Some (rev (takeWhile (\<lambda>c. c \<noteq> CHR ''.'') back))))"

definition load_entry ::
  "'byte ext \<Rightarrow> 'byte StoreIo \<Rightarrow> string \<Rightarrow> 'byte ComputerRecordStore
     \<Rightarrow> (ComputerRecord, 'byte) store_result" where
  "load_entry X io n st =
     (let p = join (root st) n in
      case ld_stat io of Some t \<Rightarrow> (Err (Io t), st) | None \<Rightarrow>
      (case files st p of
         None \<Rightarrow> (Err (Io ''No such file or directory (os error 2)''), st)
       | Some f \<Rightarrow>
           if file_type f \<noteq> Regular then
             (Err (Config (''sandbox record is not a regular file: '' @ path_text p)), st)
           else
             st_then (load_unlocked X io (fst (split_name n)) st) (\<lambda>found st.
               case found of
                 None \<Rightarrow> (Err (Other (''sandbox record disappeared while loading: '' @ path_text p)), st)
               | Some r \<Rightarrow> (Ok r, st))))"

fun load_entries ::
  "'byte ext \<Rightarrow> (string \<Rightarrow> 'byte StoreIo) \<Rightarrow> string list \<Rightarrow> 'byte ComputerRecordStore
     \<Rightarrow> (ComputerRecord list, 'byte) store_result" where
  "load_entries X ios [] st = (Ok [], st)"
| "load_entries X ios (n # ns) st =
     st_then (load_entry X (ios n) n st) (\<lambda>r st.
     st_then (load_entries X ios ns st) (\<lambda>rs st. (Ok (r # rs), st)))"

definition json_names :: "string list \<Rightarrow> string list" where
  "json_names names = filter (\<lambda>n. snd (split_name n) = Some ''json'') (sort names)"

definition load_all ::
  "'byte ext \<Rightarrow> (string \<Rightarrow> 'byte StoreIo) \<Rightarrow> string list \<Rightarrow> 'byte ComputerRecordStore
     \<Rightarrow> (ComputerRecord list, 'byte) store_result" where
  "load_all X ios names st =
     st_then (lock st) (\<lambda>_ st. load_entries X ios (json_names names) st)"

subsection \<open>The abstract store\<close>

text \<open>What a load would return: the store as a map from ids to records.\<close>

definition view :: "'byte ext \<Rightarrow> 'byte ComputerRecordStore \<Rightarrow> string \<rightharpoonup> ComputerRecord" where
  "view X st i =
     (if valid_id i then
        (case files st (record_path st i) of
           None \<Rightarrow> None
         | Some f \<Rightarrow>
             if file_type f = Regular
             then (case decode X i (content f) of Err _ \<Rightarrow> None | Ok r \<Rightarrow> Some r) else None)
      else None)"

text \<open>Every record file is a regular file holding a well-formed record of its id.\<close>

definition file_ok :: "'byte ext \<Rightarrow> string \<Rightarrow> 'byte stored_file option \<Rightarrow> bool" where
  "file_ok X i fo \<longleftrightarrow>
     (case fo of
        None \<Rightarrow> True
      | Some f \<Rightarrow> file_type f = Regular
          \<and> (case decode X i (content f) of Err _ \<Rightarrow> False | Ok r \<Rightarrow> record_wf i r))"

definition store_ok :: "'byte ext \<Rightarrow> 'byte ComputerRecordStore \<Rightarrow> bool" where
  "store_ok X st \<longleftrightarrow> (\<forall>i. valid_id i \<longrightarrow> file_ok X i (files st (record_path st i)))"

text \<open>The operations that write, and what each may do to the abstract store.\<close>

datatype StoreOp =
    ProvisionOp string string ComputerSpec
  | TransitionOp string uuid ComputerTransition
  | LifecycleOp string uuid "instant option" u32 IdleAction
  | AbortOp string uuid
  | FinishOp string uuid
  | CancelOp string

fun exec_op ::
  "'byte ext \<Rightarrow> 'byte StoreIo \<Rightarrow> StoreOp \<Rightarrow> 'byte ComputerRecordStore
     \<Rightarrow> bool \<times> 'byte ComputerRecordStore" where
  "exec_op X io (ProvisionOp i key spec) st =
     map_prod is_ok id (provision_intent X io i key spec st)"
| "exec_op X io (TransitionOp i gen t) st = map_prod is_ok id (transition X io i gen t st)"
| "exec_op X io (LifecycleOp i gen ttl idle on_idle) st =
     map_prod is_ok id (update_lifecycle X io i gen ttl idle on_idle st)"
| "exec_op X io (AbortOp i gen) st = map_prod is_ok id (abort_provision X io i gen st)"
| "exec_op X io (FinishOp i gen) st = map_prod is_ok id (finish_remove X io i gen st)"
| "exec_op X io (CancelOp i) st = map_prod is_ok id (cancel_pending_or_missing X io i st)"

fun abs_op ::
  "instant \<Rightarrow> uuid \<Rightarrow> StoreOp \<Rightarrow> (string \<rightharpoonup> ComputerRecord) \<Rightarrow> (string \<rightharpoonup> ComputerRecord) option" where
  "abs_op n u (ProvisionOp i key spec) v =
     (if \<not> valid_id i \<or> key = [] then None else
      case v i of
        None \<Rightarrow> Some (v(i \<mapsto> new_record n u i key spec))
      | Some r \<Rightarrow> if rec_request_key r = key then Some v else None)"
| "abs_op n u (TransitionOp i gen t) v =
     (case v i of
        None \<Rightarrow> None
      | Some r \<Rightarrow>
          if rec_generation r \<noteq> gen then None
          else (case apply_transition n t r of Err _ \<Rightarrow> None | Ok r' \<Rightarrow> Some (v(i \<mapsto> r'))))"
| "abs_op n u (LifecycleOp i gen ttl idle on_idle) v =
     (case v i of
        None \<Rightarrow> None
      | Some r \<Rightarrow>
          if rec_generation r \<noteq> gen then None
          else Some (v(i \<mapsto> write_lifecycle ttl idle on_idle r)))"
| "abs_op n u (AbortOp i gen) v =
     (if \<not> valid_id i then None else
      case v i of
        None \<Rightarrow> Some v
      | Some r \<Rightarrow>
          if rec_generation r = gen \<and> rec_phase r = ComputerPhase.Creating then Some (v(i := None))
          else None)"
| "abs_op n u (FinishOp i gen) v =
     (if \<not> valid_id i then None else
      case v i of
        None \<Rightarrow> Some v
      | Some r \<Rightarrow>
          if rec_generation r = gen \<and> rec_phase r = ComputerPhase.Removing then Some (v(i := None))
          else None)"
| "abs_op n u (CancelOp i) v =
     (if \<not> valid_id i then None else
      case v i of
        None \<Rightarrow> Some v
      | Some r \<Rightarrow>
          if rec_phase r = ComputerPhase.Creating \<and> rec_provision_outcome r = None
          then Some (v(i := None)) else None)"

text \<open>A provisioning request names its own id; the others carry no spec.\<close>

fun op_spec_ok :: "StoreOp \<Rightarrow> bool" where
  "op_spec_ok (ProvisionOp i key spec) \<longleftrightarrow> spec_id spec = Some i"
| "op_spec_ok _ \<longleftrightarrow> True"

subsection \<open>Load, save and delete\<close>

lemma record_wf_fields:
  assumes "record_wf i r"
  shows "validate_record i r = Ok ()" "valid_id i" "rec_id r = i" "rec_version r = RECORD_VERSION"
  using assms by (simp_all add: record_wf_def validate_record_Ok)

lemma valid_record_path_temp:
  "record_path st i \<noteq> temp_path (root st) u"
proof
  assume "record_path st i = temp_path (root st) u"
  then have "last (i @ ''.json'') = last (''.arcbox-'' @ u @ ''.tmp'')"
    by (simp add: record_path_def temp_path_def join_def)
  then show False by simp
qed

lemma record_path_eq [simp]: "record_path st i = record_path st j \<longleftrightarrow> i = j"
  by (simp add: record_path_def join_def)

lemma record_path_files [simp]: "record_path (st\<lparr>files := fs\<rparr>) i = record_path st i"
  by (simp add: record_path_def)

lemma record_path_root: "root st' = root st \<Longrightarrow> record_path st' i = record_path st i"
  by (simp add: record_path_def)

lemma store_okD:
  "store_ok X st \<Longrightarrow> valid_id i \<Longrightarrow> view X st i = Some r \<Longrightarrow> record_wf i r"
  by (force simp: store_ok_def view_def file_ok_def split: if_splits option.splits sum.splits)

text \<open>Two stores that show the same records, one as good as the other.\<close>

definition kept :: "'byte ext \<Rightarrow> 'byte ComputerRecordStore \<Rightarrow> 'byte ComputerRecordStore \<Rightarrow> bool" where
  "kept X st st' \<longleftrightarrow>
     root st' = root st \<and> poisoned st' = poisoned st \<and> store_ok X st' \<and> view X st' = view X st"

lemma kept_refl: "store_ok X st \<Longrightarrow> kept X st st"
  by (simp add: kept_def)

lemma kept_trans: "kept X st st1 \<Longrightarrow> kept X st1 st2 \<Longrightarrow> kept X st st2"
  by (simp add: kept_def)

lemma kept_chmod:
  assumes "store_ok X st"
  shows "kept X st (st\<lparr>files := on_file (\<lambda>f. f\<lparr>file_mode := m\<rparr>) p (files st)\<rparr>)"
  using assms
  by (auto simp: kept_def store_ok_def file_ok_def view_def on_file_def fun_eq_iff
      split: option.splits)

lemma load_unlocked_kept:
  assumes "store_ok X st" "load_unlocked X io i st = (res, st')"
  shows "kept X st st'" and "res = Ok x \<Longrightarrow> valid_id i \<and> x = view X st i"
proof -
  show "kept X st st'"
    using assms kept_refl [OF assms(1)] kept_chmod [OF assms(1)]
    by (auto simp: load_unlocked_def Let_def split: sum.splits option.splits if_splits)
  show "res = Ok x \<Longrightarrow> valid_id i \<and> x = view X st i"
    using assms
    by (auto simp: load_unlocked_def Let_def view_def split: sum.splits option.splits if_splits)
qed

lemma load_unlocked_clean:
  assumes "store_ok X st" "valid_id i" "ld_stat io = None" "ld_chmod io = None" "ld_read io = None"
  shows "fst (load_unlocked X io i st) = Ok (view X st i)"
  using assms
  by (force simp: load_unlocked_def Let_def view_def store_ok_def file_ok_def
      split: sum.splits option.splits if_splits)

lemma lock_result: "lock st = (res, st') \<Longrightarrow> st' = st"
  by (auto simp: lock_def split: if_splits)

lemma decode_encoded:
  assumes "json_roundtrip X" "to_vec_pretty X r = Ok b" "record_wf i r"
  shows "decode X i b = Ok r"
proof -
  have "header_version X b = Ok (rec_version r)" "from_slice X b = Ok r"
    using assms(1,2) by (auto simp: json_roundtrip_def)
  with record_wf_fields [OF assms(3)] show ?thesis by (simp add: decode_def)
qed

text \<open>Writing the file of one id changes the abstract store there and nowhere else.\<close>

lemma store_put:
  assumes "store_ok X st" "valid_id i"
    and fs: "\<And>j. valid_id j \<Longrightarrow> j \<noteq> i \<Longrightarrow> fs (record_path st j) = files st (record_path st j)"
    and "file_ok X i (fs (record_path st i))"
  shows "store_ok X (st\<lparr>files := fs\<rparr>)"
    and "view X (st\<lparr>files := fs\<rparr>) = (view X st)(i := view X (st\<lparr>files := fs\<rparr>) i)"
proof -
  show "store_ok X (st\<lparr>files := fs\<rparr>)"
    unfolding store_ok_def
  proof (intro allI impI)
    fix j assume "valid_id j"
    with assms show "file_ok X j (files (st\<lparr>files := fs\<rparr>) (record_path (st\<lparr>files := fs\<rparr>) j))"
      by (cases "j = i") (auto simp: store_ok_def)
  qed
  show "view X (st\<lparr>files := fs\<rparr>) = (view X st)(i := view X (st\<lparr>files := fs\<rparr>) i)"
    using fs by (auto simp: view_def fun_eq_iff)
qed

lemma write_file_record:
  assumes w: "write_file io u (record_path st i) bytes (files st) = (r, tr)"
  shows "j \<noteq> i \<Longrightarrow> after (files st) tr (record_path st j) = files st (record_path st j)"
    and "after (files st) tr (record_path st i) =
      (if committed_result r then Some (new_file bytes private_mode)
       else files st (record_path st i))"
proof -
  have dir: "parent (record_path st i) = Some (root st)" by (simp add: record_path_def join_def)
  have temp: "record_path st j \<noteq> temp_path (root st) u" for j by (rule valid_record_path_temp)
  note w' = w [unfolded write_file_def]
  show "after (files st) tr (record_path st j) = files st (record_path st j)" if "j \<noteq> i"
  proof (cases "tr = []")
    case False
    show ?thesis
      by (rule write_with_mode_frame [OF w' after_in [OF False] dir]) (use that temp in simp_all)
  qed (simp add: after_def)
  show "after (files st) tr (record_path st i) =
      (if committed_result r then Some (new_file bytes private_mode)
       else files st (record_path st i))"
  proof (cases "committed_result r")
    case True
    with write_with_mode_visible [OF w' dir temp] show ?thesis by simp
  next
    case False
    with write_with_mode_visible [OF w' dir temp] after_in [of tr "files st"] show ?thesis
      by (cases "tr = []") (auto simp: after_def)
  qed
qed

lemma save_unlocked_result:
  assumes rt: "json_roundtrip X" and st: "store_ok X st" and wf: "record_wf i r"
    and sv: "save_unlocked X io r st = (res, st')"
  shows "root st' = root st" and "poisoned st' = poisoned st" and "store_ok X st'"
    and "view X st' = (if is_ok res then (view X st)(i \<mapsto> r) else view X st)"
proof -
  note f = record_wf_fields [OF wf]
  have "root st' = root st \<and> poisoned st' = poisoned st \<and> store_ok X st'
     \<and> view X st' = (if is_ok res then (view X st)(i \<mapsto> r) else view X st)"
  proof (cases "to_vec_pretty X r")
    case (Inl t)
    with sv f st show ?thesis by (auto simp: save_unlocked_def)
  next
    case (Inr bytes)
    obtain w tr where w: "write_file (wr io) (wr_uuid io) (record_path st i) bytes (files st) = (w, tr)"
      by (cases "write_file (wr io) (wr_uuid io) (record_path st i) bytes (files st)")
    define fs where "fs = after (files st) tr"
    have st': "st' = st\<lparr>files := fs\<rparr>" and res: "is_ok res = committed_result w"
      using sv f Inr w
      by (auto simp: save_unlocked_def fs_def committed_result_def Let_def
          split: sum.splits AtomicWriteError.splits)
    have dec: "decode X i bytes = Ok r" by (rule decode_encoded [OF rt Inr wf])
    have other: "fs (record_path st j) = files st (record_path st j)" if "j \<noteq> i" for j
      using write_file_record(1) [OF w that] by (simp add: fs_def)
    have here: "fs (record_path st i) = (if committed_result w
       then Some (new_file bytes private_mode) else files st (record_path st i))"
      using write_file_record(2) [OF w] by (simp add: fs_def)
    have "file_ok X i (fs (record_path st i))"
      using here dec wf st f by (auto simp: file_ok_def new_file_def store_ok_def)
    note put = store_put [OF st f(2) other this]
    have "view X st' i = (if is_ok res then Some r else view X st i)"
      using here dec f res by (simp add: view_def st' new_file_def)
    with put st' show ?thesis by (auto simp: fun_upd_idem)
  qed
  then show "root st' = root st" "poisoned st' = poisoned st" "store_ok X st'"
    "view X st' = (if is_ok res then (view X st)(i \<mapsto> r) else view X st)" by auto
qed

lemma delete_unlocked_result:
  assumes st: "store_ok X st" and i: "valid_id i" and d: "delete_unlocked io i st = (res, st')"
  shows "root st' = root st \<and> poisoned st' = poisoned st \<and> store_ok X st'
    \<and> view X st' = (if is_ok res then (view X st)(i := None) else view X st)"
proof (cases "is_ok res")
  case False
  with d have "st' = st"
    by (auto simp: delete_unlocked_def call_defs split: option.splits if_splits)
  with st False show ?thesis by simp
next
  case True
  with d have st': "st' = st\<lparr>files := (files st)(record_path st i := None)\<rparr>"
    by (auto simp: delete_unlocked_def call_defs split: option.splits if_splits)
  have put: "store_ok X st'" "view X st' = (view X st)(i := view X st' i)"
    unfolding st' by (rule store_put [OF st i]; simp add: file_ok_def)+
  moreover have "view X st' i = None" by (simp add: view_def st')
  ultimately show ?thesis using True st' by simp
qed

subsection \<open>Every operation against the abstract store\<close>

lemma load_generation_result:
  assumes "store_ok X st" "load_generation X io i gen st = (res, st')"
  shows "kept X st st'"
    and "res = Ok r \<Longrightarrow> valid_id i \<and> view X st i = Some r \<and> rec_generation r = gen"
proof -
  obtain x st1 where l: "load_unlocked X io i st = (x, st1)" by (cases "load_unlocked X io i st")
  note load = load_unlocked_kept [OF assms(1) l]
  show "kept X st st'"
    using assms load(1) kept_refl [OF assms(1)] l
    by (auto simp: load_generation_def lock_def st_then_def split: sum.splits option.splits if_splits)
  show "res = Ok r \<Longrightarrow> valid_id i \<and> view X st i = Some r \<and> rec_generation r = gen"
    using assms load(2) l
    by (auto simp: load_generation_def lock_def st_then_def split: sum.splits option.splits if_splits)
qed

text \<open>What an operation did: its result and the store it left, against the abstract one.\<close>

definition refines_op ::
  "'byte ext \<Rightarrow> 'byte StoreIo \<Rightarrow> StoreOp \<Rightarrow> 'byte ComputerRecordStore \<Rightarrow> bool
     \<Rightarrow> 'byte ComputerRecordStore \<Rightarrow> bool" where
  "refines_op X io op st ok st' \<longleftrightarrow>
     root st' = root st \<and> poisoned st' = poisoned st \<and> store_ok X st'
     \<and> (if ok then abs_op (now io) (new_uuid io) op (view X st) = Some (view X st')
        else view X st' = view X st)"

lemma kept_refines: "kept X st st' \<Longrightarrow> refines_op X io op st False st'"
  by (simp add: kept_def refines_op_def)

lemma save_refines:
  assumes "json_roundtrip X" "kept X st st1" "record_wf i r"
    and "save_unlocked X io r st1 = (res, st')"
    and "abs_op (now io) (new_uuid io) op (view X st) = Some ((view X st)(i \<mapsto> r))"
  shows "refines_op X io op st (is_ok res) st'"
proof -
  have "store_ok X st1" using assms(2) by (simp add: kept_def)
  from save_unlocked_result [OF assms(1) this assms(3,4)] assms(2,5) show ?thesis
    by (auto simp: refines_op_def kept_def)
qed

lemma delete_refines:
  assumes "kept X st st1" "valid_id i" "delete_unlocked io i st1 = (res, st')"
    and "abs_op (now io) (new_uuid io) op (view X st) = Some ((view X st)(i := None))"
  shows "refines_op X io op st (is_ok res) st'"
proof -
  have "store_ok X st1" using assms(1) by (simp add: kept_def)
  from delete_unlocked_result [OF this assms(2,3)] assms(1,4) show ?thesis
    by (auto simp: refines_op_def kept_def)
qed

lemma transition_refines:
  assumes "json_roundtrip X" "store_ok X st" "transition X io i gen t st = (res, st')"
  shows "refines_op X io (TransitionOp i gen t) st (is_ok res) st'"
proof -
  obtain x st1 where l: "load_generation X io i gen st = (x, st1)"
    by (cases "load_generation X io i gen st")
  note load = load_generation_result [OF assms(2) l]
  show ?thesis
  proof (cases x)
    case (Inl e)
    with assms(3) l load(1) show ?thesis by (auto simp: transition_def kept_refines)
  next
    case (Inr r)
    note r = load(2) [OF Inr]
    show ?thesis
    proof (cases "apply_transition (now io) t r")
      case (Inl e)
      with assms(3) l load(1) Inr show ?thesis
        by (auto simp: transition_def kept_refines)
    next
      case (Inr r')
      obtain y st2 where s: "save_unlocked X io r' st1 = (y, st2)"
        by (cases "save_unlocked X io r' st1")
      have "record_wf i r" using store_okD [OF assms(2)] r by blast
      from apply_transition_wf [OF this Inr] have wf: "record_wf i r'" .
      have "abs_op (now io) (new_uuid io) (TransitionOp i gen t) (view X st)
              = Some ((view X st)(i \<mapsto> r'))"
        using r Inr by simp
      from save_refines [OF assms(1) load(1) wf s this] assms(3) l \<open>x = Inr r\<close> Inr s
      show ?thesis by (cases y) (auto simp: transition_def)
    qed
  qed
qed

lemma update_lifecycle_refines:
  assumes "json_roundtrip X" "store_ok X st" "update_lifecycle X io i gen ttl idle on_idle st = (res, st')"
  shows "refines_op X io (LifecycleOp i gen ttl idle on_idle) st (is_ok res) st'"
proof -
  obtain x st1 where l: "load_generation X io i gen st = (x, st1)"
    by (cases "load_generation X io i gen st")
  note load = load_generation_result [OF assms(2) l]
  show ?thesis
  proof (cases x)
    case (Inl e)
    with assms(3) l load(1) show ?thesis by (auto simp: update_lifecycle_def kept_refines)
  next
    case (Inr r)
    note r = load(2) [OF Inr]
    define r' where "r' = write_lifecycle ttl idle on_idle r"
    obtain y st2 where s: "save_unlocked X io r' st1 = (y, st2)"
      by (cases "save_unlocked X io r' st1")
    have wf: "record_wf i r'" using store_okD [OF assms(2)] r by (simp add: r'_def)
    have "abs_op (now io) (new_uuid io) (LifecycleOp i gen ttl idle on_idle) (view X st)
            = Some ((view X st)(i \<mapsto> r'))"
      using r by (simp add: r'_def)
    from save_refines [OF assms(1) load(1) wf s this] assms(3) l Inr s
    show ?thesis by (cases y) (auto simp: update_lifecycle_def r'_def)
  qed
qed

lemma delete_record_refines:
  assumes "store_ok X st" "delete_record X io i gen p st = (res, st')"
    and "op = AbortOp i gen \<and> p = ComputerPhase.Creating
         \<or> op = FinishOp i gen \<and> p = ComputerPhase.Removing"
  shows "refines_op X io op st (is_ok res) st'"
proof (cases "poisoned st")
  case True
  with assms kept_refl [OF assms(1)] show ?thesis
    by (auto simp: delete_record_def lock_def kept_refines)
next
  case False
  obtain x st1 where l: "load_unlocked X io i st = (x, st1)" by (cases "load_unlocked X io i st")
  note load = load_unlocked_kept [OF assms(1) l]
  show ?thesis
  proof (cases x)
    case (Inl e)
    with assms l load(1) False show ?thesis by (auto simp: delete_record_def lock_def kept_refines)
  next
    case (Inr found)
    note v = load(2) [OF Inr]
    obtain y st2 where d: "delete_unlocked io i st1 = (y, st2)" by (cases "delete_unlocked io i st1")
    show ?thesis
    proof (cases "view X st i")
      case None
      with assms l load(1) False Inr v show ?thesis
        by (auto simp: delete_record_def lock_def refines_op_def kept_def)
    next
      case (Some r)
      show ?thesis
      proof (cases "rec_generation r = gen \<and> rec_phase r = p")
        case True
        then have "abs_op (now io) (new_uuid io) op (view X st) = Some ((view X st)(i := None))"
          using assms(3) v Some by auto
        from delete_refines [OF load(1) conjunct1 [OF v] d this] show ?thesis
          using assms(2) l False Inr v Some d True by (auto simp: delete_record_def lock_def)
      next
        case False
        then show ?thesis
          using assms(2) l \<open>\<not> poisoned st\<close> Inr v Some load(1)
          by (auto simp: delete_record_def lock_def kept_refines split: if_splits)
      qed
    qed
  qed
qed

lemma cancel_refines:
  assumes "store_ok X st" "cancel_pending_or_missing X io i st = (res, st')"
  shows "refines_op X io (CancelOp i) st (is_ok res) st'"
proof (cases "poisoned st")
  case True
  with assms kept_refl [OF assms(1)] show ?thesis
    by (auto simp: cancel_pending_or_missing_def lock_def kept_refines)
next
  case False
  obtain x st1 where l: "load_unlocked X io i st = (x, st1)" by (cases "load_unlocked X io i st")
  note load = load_unlocked_kept [OF assms(1) l]
  show ?thesis
  proof (cases x)
    case (Inl e)
    with assms l load(1) False show ?thesis
      by (auto simp: cancel_pending_or_missing_def lock_def kept_refines)
  next
    case (Inr found)
    note v = load(2) [OF Inr]
    obtain y st2 where d: "delete_unlocked io i st1 = (y, st2)" by (cases "delete_unlocked io i st1")
    have found: "found = view X st i" and i: "valid_id i" using v by auto
    have del: "refines_op X io (CancelOp i) st (is_ok y) st2"
      if "view X st i = Some r" "rec_phase r = ComputerPhase.Creating"
        "rec_provision_outcome r = None" for r
      using delete_refines [OF load(1) i d] that i by simp
    show ?thesis
      using assms(2) l load(1) False Inr found i d del
      by (cases "view X st i")
        (auto simp: cancel_pending_or_missing_def lock_def kept_refines refines_op_def [where ok = True]
          kept_def split: if_splits)
  qed
qed

lemma provision_intent_refines:
  assumes "json_roundtrip X" "store_ok X st" "spec_id spec = Some i"
    and "provision_intent X io i key spec st = (res, st')"
  shows "refines_op X io (ProvisionOp i key spec) st (is_ok res) st'"
proof (cases "poisoned st \<or> \<not> valid_id i \<or> key = []")
  case True
  with assms kept_refl [OF assms(2)] show ?thesis
    by (auto simp: provision_intent_def lock_def kept_refines validate_provision_input_def
        and_then_def split: sum.splits if_splits)
next
  case False
  then have i: "valid_id i" and key: "key \<noteq> []" and np: "\<not> poisoned st" by auto
  have inp: "validate_provision_input i key = Ok ()"
    using i key by (simp add: validate_provision_input_def)
  obtain x st1 where l: "load_unlocked X io i st = (x, st1)" by (cases "load_unlocked X io i st")
  note load = load_unlocked_kept [OF assms(2) l]
  show ?thesis
  proof (cases x)
    case (Inl e)
    with assms(4) l load(1) np inp show ?thesis
      by (auto simp: provision_intent_def lock_def kept_refines)
  next
    case (Inr found)
    then have found: "found = view X st i" using load(2) by auto
    show ?thesis
    proof (cases "view X st i")
      case None
      define r where "r = new_record (now io) (new_uuid io) i key spec"
      obtain y st2 where s: "save_unlocked X io r st1 = (y, st2)"
        by (cases "save_unlocked X io r st1")
      have wf: "record_wf i r" using new_record_wf [OF i key assms(3)] by (simp add: r_def)
      have "abs_op (now io) (new_uuid io) (ProvisionOp i key spec) (view X st)
              = Some ((view X st)(i \<mapsto> r))"
        using i key None by (simp add: r_def)
      from save_refines [OF assms(1) load(1) wf s this] show ?thesis
        using assms(4) l np inp Inr found None s
        by (cases y) (auto simp: provision_intent_def lock_def r_def)
    next
      case (Some r)
      have "refines_op X io (ProvisionOp i key spec) st True st1" if "rec_request_key r = key"
        using load(1) that i key Some by (auto simp: refines_op_def kept_def)
      then show ?thesis
        using assms(4) l np inp Inr found Some load(1)
        by (auto simp: provision_intent_def lock_def classify_existing_provision_def
            confirm_root_unlocked_def kept_refines split: ExistingProvision.splits option.splits
            if_splits)
    qed
  qed
qed

lemma exec_op_refines:
  assumes "json_roundtrip X" "store_ok X st" "op_spec_ok op" "exec_op X io op st = (ok, st')"
  shows "refines_op X io op st ok st'"
proof (cases op)
  case (ProvisionOp i key spec)
  with assms show ?thesis
    by (cases "provision_intent X io i key spec st") (auto dest: provision_intent_refines)
next
  case (TransitionOp i gen t)
  with assms show ?thesis by (cases "transition X io i gen t st") (auto dest: transition_refines)
next
  case (LifecycleOp i gen ttl idle on_idle)
  with assms show ?thesis
    by (cases "update_lifecycle X io i gen ttl idle on_idle st") (auto dest: update_lifecycle_refines)
next
  case (AbortOp i gen)
  with assms show ?thesis
    by (cases "abort_provision X io i gen st")
      (auto simp: abort_provision_def dest: delete_record_refines)
next
  case (FinishOp i gen)
  with assms show ?thesis
    by (cases "finish_remove X io i gen st")
      (auto simp: finish_remove_def dest: delete_record_refines)
next
  case (CancelOp i)
  with assms show ?thesis
    by (cases "cancel_pending_or_missing X io i st") (auto dest: cancel_refines)
qed

subsection \<open>Sequences of operations and a fault-free run\<close>

text \<open>The store as a machine: one locked operation after another, each with its own faults.\<close>

definition store_start :: "'byte ComputerRecordStore \<Rightarrow> bool" where
  "store_start st \<longleftrightarrow> \<not> poisoned st \<and> (\<forall>i. valid_id i \<longrightarrow> files st (record_path st i) = None)"

definition store_move ::
  "'byte ext \<Rightarrow> 'byte ComputerRecordStore \<Rightarrow> 'byte StoreIo \<times> StoreOp
     \<Rightarrow> 'byte ComputerRecordStore \<Rightarrow> bool" where
  "store_move X st l st' \<longleftrightarrow>
     json_roundtrip X \<and> op_spec_ok (snd l) \<and> snd (exec_op X (fst l) (snd l) st) = st'"

interpretation record_store:
  invariant_of store_start "store_move X" "\<lambda>st. \<not> poisoned st \<and> store_ok X st" for X
proof
  show "store_start st \<Longrightarrow> \<not> poisoned st \<and> store_ok X st" for st
    by (auto simp: store_start_def store_ok_def file_ok_def)
  show "\<not> poisoned st \<and> store_ok X st \<Longrightarrow> store_move X st l st' \<Longrightarrow> \<not> poisoned st' \<and> store_ok X st'"
    for st l st'
    using exec_op_refines [of X st "snd l" "fst l" "fst (exec_op X (fst l) (snd l) st)" st']
    by (auto simp: store_move_def refines_op_def prod_eq_iff)
qed

definition json_total :: "'byte ext \<Rightarrow> bool" where
  "json_total X \<longleftrightarrow> (\<forall>r. \<exists>b. to_vec_pretty X r = Ok b)"

definition fault_free :: "'byte StoreIo \<Rightarrow> 'byte ComputerRecordStore \<Rightarrow> bool" where
  "fault_free io st \<longleftrightarrow>
     ld_stat io = None \<and> ld_chmod io = None \<and> ld_read io = None \<and> wr io = no_faults
     \<and> rm_unlink io = None \<and> root_sync io = None
     \<and> files st (temp_path (root st) (wr_uuid io)) = None"

lemma load_unlocked_temp:
  "load_unlocked X io i st = (res, st') \<Longrightarrow>
     files st' (temp_path (root st) u) = files st (temp_path (root st) u) \<and> root st' = root st"
  using valid_record_path_temp [of st i u, symmetric]
  by (auto simp: load_unlocked_def Let_def on_file_def split: sum.splits option.splits if_splits)

lemma load_unlocked_type:
  assumes "store_ok X st" "valid_id i" "files st (record_path st i) = Some f"
  shows "file_type f = Regular"
  using assms by (force simp: store_ok_def file_ok_def)

lemma save_unlocked_clean:
  assumes "json_total X" "store_ok X st" "record_wf i r" "fault_free io st"
  shows "fst (save_unlocked X io r st) = Ok None"
proof -
  note f = record_wf_fields [OF assms(3)]
  obtain b where b: "to_vec_pretty X r = Ok b" using assms(1) by (auto simp: json_total_def)
  have "\<exists>tr. write_with_mode no_faults (wr_uuid io) (record_path st i) b private_mode (files st) = (Ok (), tr)"
    using assms(4) load_unlocked_type [OF assms(2) f(2)] valid_record_path_temp [of st i "wr_uuid io"]
    by (intro write_with_mode_no_faults [where dir = "root st"])
      (auto simp: record_path_def join_def fault_free_def)
  then show ?thesis
    using b f assms(4) by (auto simp: save_unlocked_def write_file_def fault_free_def)
qed

lemma delete_unlocked_clean:
  assumes "store_ok X st" "valid_id i" "view X st i = Some r" "fault_free io st"
  shows "fst (delete_unlocked io i st) = Ok \<lparr>commit_value = (), durability_error = None\<rparr>"
  using assms load_unlocked_type [OF assms(1,2)]
  by (auto simp: delete_unlocked_def call_defs fault_free_def view_def
      split: option.splits if_splits)

lemma fault_free_load:
  assumes "store_ok X st" "\<not> poisoned st" "fault_free io st" "valid_id i"
  obtains st1 where "load_unlocked X io i st = (Ok (view X st i), st1)" "kept X st st1"
    "fault_free io st1"
proof -
  obtain x st1 where l: "load_unlocked X io i st = (x, st1)" by (cases "load_unlocked X io i st")
  have "x = Ok (view X st i)"
    using load_unlocked_clean [OF assms(1,4), of io] assms(3) l by (simp add: fault_free_def)
  moreover have "fault_free io st1"
    using load_unlocked_temp [OF l] assms(3) by (simp add: fault_free_def)
  ultimately show thesis using that l load_unlocked_kept(1) [OF assms(1) l] by blast
qed

lemma fault_free_generation:
  assumes "store_ok X st" "\<not> poisoned st" "fault_free io st" "valid_id i"
    and "view X st i = Some r" "rec_generation r = gen"
  obtains st1 where "load_generation X io i gen st = (Ok r, st1)" "kept X st st1"
    "fault_free io st1"
proof -
  obtain st1 where "load_unlocked X io i st = (Ok (view X st i), st1)" "kept X st st1"
    "fault_free io st1"
    using fault_free_load [OF assms(1-4)] .
  with that assms show thesis by (auto simp: load_generation_def lock_def)
qed

lemma view_valid: "view X st i = Some r \<Longrightarrow> valid_id i"
  by (simp add: view_def split: if_splits)

lemma fault_free_save:
  assumes "json_total X" "kept X st st1" "fault_free io st1" "record_wf i r"
  obtains st2 where "save_unlocked X io r st1 = (Ok None, st2)"
  using save_unlocked_clean [OF assms(1) _ assms(4,3)] assms(2) that
  by (cases "save_unlocked X io r st1") (auto simp: kept_def)

lemma fault_free_delete:
  assumes "kept X st st1" "fault_free io st1" "valid_id i" "view X st i = Some r"
  obtains st2 where
    "delete_unlocked io i st1 = (Ok \<lparr>commit_value = (), durability_error = None\<rparr>, st2)"
  using delete_unlocked_clean [OF _ assms(3) _ assms(2), of X r] assms(1,4) that
  by (cases "delete_unlocked io i st1") (auto simp: kept_def)

lemma transition_clean:
  assumes "json_total X" "store_ok X st" "\<not> poisoned st" "fault_free io st"
    and r: "view X st i = Some r" "rec_generation r = gen"
    and ap: "apply_transition (now io) t r = Ok r'"
  shows "fst (transition X io i gen t st) = Ok \<lparr>commit_value = r', durability_error = None\<rparr>"
proof -
  obtain st1 where l: "load_generation X io i gen st = (Ok r, st1)" "kept X st st1" "fault_free io st1"
    using fault_free_generation [OF assms(2-4) view_valid [OF r(1)] r] .
  have "record_wf i r'"
    using apply_transition_wf [OF store_okD [OF assms(2) view_valid [OF r(1)] r(1)] ap] .
  then obtain st2 where "save_unlocked X io r' st1 = (Ok None, st2)"
    using fault_free_save [OF assms(1) l(2,3)] by blast
  with l ap show ?thesis by (simp add: transition_def)
qed

lemma update_lifecycle_clean:
  assumes "json_total X" "store_ok X st" "\<not> poisoned st" "fault_free io st"
    and r: "view X st i = Some r" "rec_generation r = gen"
  shows "fst (update_lifecycle X io i gen ttl idle on_idle st)
    = Ok \<lparr>commit_value = (), durability_error = None\<rparr>"
proof -
  obtain st1 where l: "load_generation X io i gen st = (Ok r, st1)" "kept X st st1" "fault_free io st1"
    using fault_free_generation [OF assms(2-4) view_valid [OF r(1)] r] .
  have "record_wf i (write_lifecycle ttl idle on_idle r)"
    using store_okD [OF assms(2) view_valid [OF r(1)] r(1)] by simp
  then obtain st2 where "save_unlocked X io (write_lifecycle ttl idle on_idle r) st1 = (Ok None, st2)"
    using fault_free_save [OF assms(1) l(2,3)] by blast
  with l show ?thesis by (simp add: update_lifecycle_def)
qed

text \<open>What a fault-free create request answers, on every record.\<close>

definition expected_intent ::
  "'byte StoreIo \<Rightarrow> string \<Rightarrow> string \<Rightarrow> ComputerSpec \<Rightarrow> ComputerRecord option
     \<Rightarrow> (ProvisionIntent, ComputerError) result" where
  "expected_intent io i key spec found =
     (case found of
        None \<Rightarrow> Ok (ProvisionIntent.Created (new_record (now io) (new_uuid io) i key spec))
      | Some r \<Rightarrow>
          if rec_request_key r \<noteq> key then Err (ComputerError.AlreadyExists i)
          else if rec_phase r = ComputerPhase.Creating then Ok (ProvisionIntent.Resume r)
          else if rec_phase r \<in> {ComputerPhase.Starting, ComputerPhase.Ready}
          then Ok (ProvisionIntent.Replay r)
          else Ok (ProvisionIntent.Blocked r))"

lemma provision_intent_clean:
  assumes "json_total X" "store_ok X st" "\<not> poisoned st" "fault_free io st"
    and i: "valid_id i" and key: "key \<noteq> []" and spec: "spec_id spec = Some i"
  shows "fst (provision_intent X io i key spec st) = expected_intent io i key spec (view X st i)"
proof -
  have inp: "validate_provision_input i key = Ok ()"
    using i key by (simp add: validate_provision_input_def)
  obtain st1 where l: "load_unlocked X io i st = (Ok (view X st i), st1)" "kept X st st1" "fault_free io st1"
    using fault_free_load [OF assms(2-4) i] .
  show ?thesis
  proof (cases "view X st i")
    case None
    define r where "r = new_record (now io) (new_uuid io) i key spec"
    have "record_wf i r" using new_record_wf [OF i key spec] by (simp add: r_def)
    then obtain st2 where "save_unlocked X io r st1 = (Ok None, st2)"
      using fault_free_save [OF assms(1) l(2,3)] by blast
    with l None inp assms(3) show ?thesis
      by (simp add: provision_intent_def lock_def r_def expected_intent_def)
  next
    case (Some r)
    then have "rec_id r = i"
      using store_okD [OF assms(2) i] by (simp add: record_wf_fields(3))
    with l Some inp assms(3,4) show ?thesis
      by (cases "rec_phase r")
        (auto simp: provision_intent_def lock_def classify_existing_provision_def
          confirm_root_unlocked_def fault_free_def expected_intent_def)
  qed
qed

lemma delete_record_clean:
  assumes "store_ok X st" "\<not> poisoned st" "fault_free io st" "valid_id i"
    and "view X st i = None
         \<or> (\<exists>r. view X st i = Some r \<and> rec_generation r = gen \<and> rec_phase r = p)"
  shows "fst (delete_record X io i gen p st) = Ok \<lparr>commit_value = (), durability_error = None\<rparr>"
proof -
  obtain st1 where l: "load_unlocked X io i st = (Ok (view X st i), st1)" "kept X st st1" "fault_free io st1"
    using fault_free_load [OF assms(1-4)] .
  have sync: "root_sync io = None" using assms(3) by (simp add: fault_free_def)
  from assms(5) show ?thesis
  proof
    assume "view X st i = None"
    with l assms(2) sync show ?thesis
      by (simp add: delete_record_def lock_def confirm_absence_unlocked_def)
  next
    assume "\<exists>r. view X st i = Some r \<and> rec_generation r = gen \<and> rec_phase r = p"
    then obtain r where r: "view X st i = Some r" "rec_generation r = gen" "rec_phase r = p" by blast
    obtain st2 where
      "delete_unlocked io i st1 = (Ok \<lparr>commit_value = (), durability_error = None\<rparr>, st2)"
      using fault_free_delete [OF l(2,3) assms(4) r(1)] .
    with l assms(2) r show ?thesis by (simp add: delete_record_def lock_def)
  qed
qed

lemma cancel_clean:
  assumes "store_ok X st" "\<not> poisoned st" "fault_free io st" "valid_id i"
    and "view X st i = None
         \<or> (\<exists>r. view X st i = Some r \<and> rec_phase r = ComputerPhase.Creating
              \<and> rec_provision_outcome r = None)"
  shows "fst (cancel_pending_or_missing X io i st) = Ok \<lparr>commit_value = (), durability_error = None\<rparr>"
proof -
  obtain st1 where l: "load_unlocked X io i st = (Ok (view X st i), st1)" "kept X st st1" "fault_free io st1"
    using fault_free_load [OF assms(1-4)] .
  have sync: "root_sync io = None" using assms(3) by (simp add: fault_free_def)
  from assms(5) show ?thesis
  proof
    assume "view X st i = None"
    with l assms(2) sync show ?thesis
      by (simp add: cancel_pending_or_missing_def lock_def confirm_absence_unlocked_def)
  next
    assume "\<exists>r. view X st i = Some r \<and> rec_phase r = ComputerPhase.Creating
              \<and> rec_provision_outcome r = None"
    then obtain r where r: "view X st i = Some r" "rec_phase r = ComputerPhase.Creating"
      "rec_provision_outcome r = None" by blast
    obtain st2 where
      "delete_unlocked io i st1 = (Ok \<lparr>commit_value = (), durability_error = None\<rparr>, st2)"
      using fault_free_delete [OF l(2,3) assms(4) r(1)] .
    with l assms(2) r show ?thesis by (simp add: cancel_pending_or_missing_def lock_def)
  qed
qed

lemma abs_op_accepted:
  assumes ctx: "json_total X" "store_ok X st" "\<not> poisoned st" "fault_free io st"
    and spec: "op_spec_ok op"
    and abs: "abs_op (now io) (new_uuid io) op (view X st) = Some v'"
  shows "fst (exec_op X io op st)"
proof (cases op)
  case (TransitionOp i gen t)
  with abs obtain r r' where "view X st i = Some r" "rec_generation r = gen"
    and "apply_transition (now io) t r = Ok r'"
    by (auto split: option.splits if_splits sum.splits)
  from transition_clean [OF ctx this] TransitionOp show ?thesis by simp
next
  case (LifecycleOp i gen ttl idle on_idle)
  with abs obtain r where "view X st i = Some r" "rec_generation r = gen"
    by (auto split: option.splits if_splits)
  from update_lifecycle_clean [OF ctx this] LifecycleOp show ?thesis by simp
next
  case (ProvisionOp i key spec)
  with abs provision_intent_clean [OF ctx, of i key spec] spec show ?thesis
    by (auto simp: expected_intent_def split: if_splits option.splits)
next
  case (AbortOp i gen)
  with abs have "valid_id i" "view X st i = None
     \<or> (\<exists>r. view X st i = Some r \<and> rec_generation r = gen \<and> rec_phase r = ComputerPhase.Creating)"
    by (auto split: option.splits if_splits)
  from delete_record_clean [OF ctx(2-4) this] AbortOp show ?thesis by (simp add: abort_provision_def)
next
  case (FinishOp i gen)
  with abs have "valid_id i" "view X st i = None
     \<or> (\<exists>r. view X st i = Some r \<and> rec_generation r = gen \<and> rec_phase r = ComputerPhase.Removing)"
    by (auto split: option.splits if_splits)
  from delete_record_clean [OF ctx(2-4) this] FinishOp show ?thesis by (simp add: finish_remove_def)
next
  case (CancelOp i)
  with abs have "valid_id i" "view X st i = None
     \<or> (\<exists>r. view X st i = Some r \<and> rec_phase r = ComputerPhase.Creating
          \<and> rec_provision_outcome r = None)"
    by (auto split: option.splits if_splits)
  from cancel_clean [OF ctx(2-4) this] CancelOp show ?thesis by simp
qed

subsection \<open>Loading every record\<close>

lemma split_name_json:
  "split_name n = (i, Some ''json'') \<Longrightarrow> n = i @ ''.json''"
proof -
  assume s: "split_name n = (i, Some ''json'')"
  let ?nd = "\<lambda>c. c \<noteq> CHR ''.''"
  define rest where "rest = dropWhile ?nd (rev n)"
  from s have len: "1 < length rest" and i: "i = rev (tl rest)"
    and ext: "takeWhile ?nd (rev n) = rev ''json''"
    by (auto simp: split_name_def rest_def Let_def split: if_splits)
  obtain c cs where cs: "rest = c # cs" using len by (cases rest) auto
  then have "c = CHR ''.''" by (simp add: rest_def dropWhile_eq_Cons_conv)
  with cs have "rest = CHR ''.'' # tl rest" by simp
  moreover have "rev n = takeWhile ?nd (rev n) @ rest" by (simp add: rest_def)
  ultimately have "rev n = rev ''json'' @ CHR ''.'' # rev i" by (simp add: ext i)
  then have "rev (rev n) = rev (rev ''json'' @ CHR ''.'' # rev i)" by (rule arg_cong)
  then show "n = i @ ''.json''" by simp
qed

lemma valid_split_name:
  assumes "valid_id i" shows "split_name (i @ ''.json'') = (i, Some ''json'')"
  using assms by (auto simp: split_name_def valid_id_def Let_def)

lemma load_entry_result:
  assumes "store_ok X st" "load_entry X io n st = (res, st')"
  shows "kept X st st'"
    and "res = Ok r \<Longrightarrow> view X st (fst (split_name n)) = Some r"
proof -
  obtain x st1 where l: "load_unlocked X io (fst (split_name n)) st = (x, st1)"
    by (cases "load_unlocked X io (fst (split_name n)) st")
  note load = load_unlocked_kept [OF assms(1) l]
  show "kept X st st'"
    using assms load(1) kept_refl [OF assms(1)] l
    by (auto simp: load_entry_def st_then_def Let_def split: sum.splits option.splits if_splits)
  show "res = Ok r \<Longrightarrow> view X st (fst (split_name n)) = Some r"
    using assms load(2) l
    by (auto simp: load_entry_def st_then_def Let_def split: sum.splits option.splits if_splits)
qed

lemma load_entries_sound:
  assumes "store_ok X st" "load_entries X ios ns st = (Ok rs, st')"
  shows "map (\<lambda>n. view X st (fst (split_name n))) ns = map Some rs"
  using assms
proof (induction ns arbitrary: st rs st')
  case (Cons n ns)
  obtain x st1 where e: "load_entry X (ios n) n st = (x, st1)" by (cases "load_entry X (ios n) n st")
  obtain y st2 where es: "load_entries X ios ns st1 = (y, st2)"
    by (cases "load_entries X ios ns st1")
  from Cons.prems e es obtain r rs' where r: "x = Ok r" "y = Ok rs'" "rs = r # rs'"
    by (auto simp: st_then_def split: sum.splits)
  have k: "kept X st st1" using load_entry_result(1) [OF Cons.prems(1) e] .
  then have "map (\<lambda>n. view X st1 (fst (split_name n))) ns = map Some rs'"
    using Cons.IH [of st1 rs' st2] es r by (simp add: kept_def)
  with k r load_entry_result(2) [OF Cons.prems(1) e] show ?case by (simp add: kept_def)
qed simp

definition listed :: "'byte ComputerRecordStore \<Rightarrow> string list \<Rightarrow> bool" where
  "listed st names \<longleftrightarrow> distinct names \<and> (\<forall>n. n \<in> set names \<longleftrightarrow> files st (join (root st) n) \<noteq> None)"

lemma json_names_set:
  "n \<in> set (json_names names) \<longleftrightarrow> n \<in> set names \<and> snd (split_name n) = Some ''json''"
  by (simp add: json_names_def)

lemma view_listed:
  assumes "listed st names" "view X st i = Some r"
  shows "i @ ''.json'' \<in> set (json_names names)"
proof -
  have "files st (record_path st i) \<noteq> None"
    using assms(2) by (auto simp: view_def split: option.splits if_splits)
  with assms show ?thesis
    using valid_split_name [OF view_valid [OF assms(2)]]
    by (simp add: json_names_set listed_def record_path_def)
qed

lemma load_entry_clean:
  assumes "store_ok X st" "fault_free io st" "valid_id i" "view X st i = Some r"
  obtains st1 where "load_entry X io (i @ ''.json'') st = (Ok r, st1)"
proof -
  obtain x st1 where l: "load_unlocked X io i st = (x, st1)" by (cases "load_unlocked X io i st")
  have "x = Ok (Some r)"
    using load_unlocked_clean [OF assms(1,3), of io] assms(2,4) l by (simp add: fault_free_def)
  moreover obtain f where "files st (record_path st i) = Some f" "file_type f = Regular"
    using assms(4) by (auto simp: view_def split: option.splits if_splits)
  ultimately show thesis
    using that l assms(2) valid_split_name [OF assms(3)]
    by (simp add: load_entry_def record_path_def fault_free_def)
qed

lemma load_entries_clean:
  assumes "store_ok X st" "\<And>n. n \<in> set ns \<Longrightarrow> fault_free (ios n) st"
    and "\<And>n. n \<in> set ns \<Longrightarrow> \<exists>i r. n = i @ ''.json'' \<and> valid_id i \<and> view X st i = Some r"
  shows "is_ok (fst (load_entries X ios ns st))"
  using assms
proof (induction ns arbitrary: st)
  case (Cons n ns)
  obtain i r where n: "n = i @ ''.json''" "valid_id i" "view X st i = Some r"
    using Cons.prems(3) by (metis list.set_intros(1))
  obtain st1 where e: "load_entry X (ios n) n st = (Ok r, st1)"
    using load_entry_clean [OF Cons.prems(1) _ n(2,3)] Cons.prems(2) n(1) by (metis list.set_intros(1))
  have k: "kept X st st1" using load_entry_result(1) [OF Cons.prems(1) e] .
  have "load_unlocked X (ios n) i st = (Ok (Some r), st1)"
    using e n valid_split_name [OF n(2)]
    by (auto simp: load_entry_def st_then_def Let_def prod_eq_iff
        split: option.splits if_splits sum.splits)
  then have "fault_free (ios m) st1" if "m \<in> set ns" for m
    using load_unlocked_temp [of X "ios n" i st "Ok (Some r)" st1] Cons.prems(2) [of m] that
    by (simp add: fault_free_def)
  then have "is_ok (fst (load_entries X ios ns st1))"
    using Cons.IH [of st1] Cons.prems(3) k by (auto simp: kept_def)
  with e show ?case by (cases "load_entries X ios ns st1") (auto simp: is_ok_iff)
qed simp

subsection \<open>Properties of the store\<close>

text \<open>An instance of the parameters: a codec whose bytes are records, on an empty store.\<close>

definition sample_ext :: "ComputerRecord ext" where
  "sample_ext =
     \<lparr>to_vec_pretty = (\<lambda>r. Ok [r]),
      header_version = (\<lambda>b. case b of r # _ \<Rightarrow> Ok (rec_version r) | [] \<Rightarrow> Err ''EOF''),
      from_slice = (\<lambda>b. case b of r # _ \<Rightarrow> Ok r | [] \<Rightarrow> Err ''EOF''),
      uuid_text = (\<lambda>_. ''0'')\<rparr>"

definition sample_io :: "ComputerRecord StoreIo" where
  "sample_io = \<lparr>ld_stat = None, ld_chmod = None, ld_read = None, wr = no_faults,
     wr_uuid = ''u'', rm_unlink = None, root_sync = None, now = 5, new_uuid = 7\<rparr>"

definition sample_store :: "ComputerRecord ComputerRecordStore" where
  "sample_store = \<lparr>root = ''records'', poisoned = False, files = Map.empty\<rparr>"

lemma sample_ext_ok: "json_roundtrip sample_ext" "json_total sample_ext"
  by (auto simp: json_roundtrip_def json_total_def sample_ext_def)

lemma sample_store_ok:
  "store_start sample_store" "store_ok sample_ext sample_store" "\<not> poisoned sample_store"
  "fault_free sample_io sample_store" "view sample_ext sample_store = Map.empty"
  by (auto simp: store_start_def store_ok_def file_ok_def sample_store_def sample_io_def
      fault_free_def view_def fun_eq_iff)

lemma sample_id: "valid_id ''box''"
  by (simp add: valid_id_def id_byte_def is_ascii_alphanumeric_def)

definition sample_op :: StoreOp where
  "sample_op = ProvisionOp ''box'' ''key'' (sample_spec ''box'')"

text \<open>C2: whatever system calls fail, every operation of the store does one of two things: it
  reports an error and the records are as before, or it reports success and the records are what
  the abstract operation prescribes, which checks the generation, the phase edge or the expected
  phase and changes the record of that id alone.  Afterwards every record file is well-formed
  again.\<close>

theorem store_refinement:
  assumes "json_roundtrip X" "store_ok X st" "op_spec_ok op" "exec_op X io op st = (ok, st')"
  shows "store_ok X st'
    \<and> (if ok then abs_op (now io) (new_uuid io) op (view X st) = Some (view X st')
       else view X st' = view X st)"
  using exec_op_refines [OF assms] by (simp add: refines_op_def)

theorem store_refinement_witness:
  "let (ok, st') = exec_op sample_ext (sample_io\<lparr>wr := no_faults\<lparr>io_rename := Some ''EIO''\<rparr>\<rparr>)
        sample_op sample_store
   in store_ok sample_ext st' \<and> (\<not> ok \<longrightarrow> view sample_ext st' = Map.empty)"
proof -
  obtain ok st' where e: "exec_op sample_ext (sample_io\<lparr>wr := no_faults\<lparr>io_rename := Some ''EIO''\<rparr>\<rparr>)
        sample_op sample_store = (ok, st')"
    by fastforce
  have "op_spec_ok sample_op" by (simp add: sample_op_def sample_spec_def)
  from store_refinement [OF sample_ext_ok(1) sample_store_ok(2) this e] e show ?thesis
    by (simp add: sample_store_ok)
qed

text \<open>with no fault, an operation succeeds exactly when the abstract one is defined, so the
  store accepts every request it should: a legal transition of the current generation, an intent
  for a free id or the same key, a deletion in the expected phase or of a missing record.\<close>

theorem store_exact:
  assumes "json_roundtrip X" "json_total X" "store_ok X st" "\<not> poisoned st" "op_spec_ok op"
    and "fault_free io st"
  shows "case abs_op (now io) (new_uuid io) op (view X st) of
           None \<Rightarrow> \<not> fst (exec_op X io op st) \<and> view X (snd (exec_op X io op st)) = view X st
         | Some v' \<Rightarrow> fst (exec_op X io op st) \<and> view X (snd (exec_op X io op st)) = v'"
proof -
  obtain ok st' where e: "exec_op X io op st = (ok, st')" by fastforce
  note r = exec_op_refines [OF assms(1,3,5) e]
  show ?thesis
  proof (cases "abs_op (now io) (new_uuid io) op (view X st)")
    case None
    with r e show ?thesis by (auto simp: refines_op_def split: if_splits)
  next
    case (Some v')
    with abs_op_accepted [OF assms(2-4,6,5) Some] r e show ?thesis by (simp add: refines_op_def)
  qed
qed

theorem store_exact_witness:
  "fst (exec_op sample_ext sample_io sample_op sample_store)
   \<and> view sample_ext (snd (exec_op sample_ext sample_io sample_op sample_store))
       = [''box'' \<mapsto> new_record 5 7 ''box'' ''key'' (sample_spec ''box'')]"
proof -
  have "op_spec_ok sample_op" by (simp add: sample_op_def sample_spec_def)
  from store_exact [OF sample_ext_ok sample_store_ok(2,3) this sample_store_ok(4)] show ?thesis
    by (simp add: sample_store_ok(5) sample_op_def sample_id) (simp add: sample_io_def)
qed

text \<open>C5: after any sequence of operations, each with any faults, every id still loads: the load
  never finds a malformed file, and the record it returns passes validation and has lost its
  runtime inputs once past \<open>Starting\<close>.\<close>

theorem store_always_loads:
  assumes "reach store_start (store_move X) st" "valid_id i"
    and "ld_stat io = None" "ld_chmod io = None" "ld_read io = None"
  shows "fst (load_unlocked X io i st) = Ok (view X st i)
    \<and> (\<forall>r. view X st i = Some r \<longrightarrow> record_wf i r)"
proof -
  have "store_ok X st" using record_store.holds_reach [OF assms(1)] by simp
  then show ?thesis using load_unlocked_clean [OF _ assms(2-5)] store_okD [OF _ assms(2)] by blast
qed

theorem store_always_loads_witness:
  "let st' = snd (exec_op sample_ext sample_io sample_op sample_store)
   in fst (load_unlocked sample_ext sample_io ''box'' st') = Ok (view sample_ext st' ''box'')"
proof -
  have "reach store_start (store_move sample_ext)
     (snd (exec_op sample_ext sample_io sample_op sample_store))"
  proof (rule reach_move)
    show "reach store_start (store_move sample_ext) sample_store"
      by (rule reach_start) (rule sample_store_ok(1))
    show "store_move sample_ext sample_store (sample_io, sample_op)
       (snd (exec_op sample_ext sample_io sample_op sample_store))"
      by (simp add: store_move_def sample_ext_ok sample_op_def sample_spec_def)
  qed
  from store_always_loads [OF this sample_id, of sample_io] show ?thesis
    by (simp add: sample_io_def)
qed

text \<open>C22: a create request is idempotent.  A free id gets a new \<open>Creating\<close> record; a repeated
  request with the same key resumes a pending intent, replays an accepted one and is told when
  the record blocks it; a different key is refused; and no repeated request writes anything.\<close>

theorem provision_idempotent:
  assumes "json_roundtrip X" "json_total X" "store_ok X st" "\<not> poisoned st" "fault_free io st"
    and "valid_id i" "key \<noteq> []" "spec_id spec = Some i"
  shows "fst (provision_intent X io i key spec st) = expected_intent io i key spec (view X st i)
    \<and> (view X st i \<noteq> None \<longrightarrow> view X (snd (provision_intent X io i key spec st)) = view X st)"
proof
  show "fst (provision_intent X io i key spec st) = expected_intent io i key spec (view X st i)"
    using provision_intent_clean [OF assms(2-8)] .
  obtain res st' where e: "provision_intent X io i key spec st = (res, st')" by fastforce
  from provision_intent_refines [OF assms(1,3,8) e]
  show "view X st i \<noteq> None \<longrightarrow> view X (snd (provision_intent X io i key spec st)) = view X st"
    using e by (auto simp: refines_op_def split: if_splits)
qed

theorem provision_idempotent_witness:
  "fst (provision_intent sample_ext sample_io ''box'' ''key'' (sample_spec ''box'') sample_store)
     = Ok (ProvisionIntent.Created (new_record 5 7 ''box'' ''key'' (sample_spec ''box'')))"
  using provision_idempotent [OF sample_ext_ok sample_store_ok(2-4) sample_id, of "''key''"
      "sample_spec ''box''"]
  by (simp add: sample_store_ok(5) expected_intent_def sample_spec_def) (simp add: sample_io_def)

text \<open>a caller of a past generation cannot touch the record that now has the id: its
  transition, lifecycle update, abort and removal are refused, with or without faults, and leave
  every record as it was.\<close>

theorem stale_generation_refused:
  assumes "json_roundtrip X" "store_ok X st" "view X st i = Some r" "rec_generation r \<noteq> gen"
    and "op \<in> {TransitionOp i gen t, LifecycleOp i gen ttl idle on_idle, AbortOp i gen, FinishOp i gen}"
  shows "\<not> fst (exec_op X io op st) \<and> view X (snd (exec_op X io op st)) = view X st"
proof -
  obtain ok st' where e: "exec_op X io op st = (ok, st')" by fastforce
  have "op_spec_ok op" using assms(5) by auto
  from exec_op_refines [OF assms(1,2) this e] assms(3-5) e show ?thesis
    by (auto simp: refines_op_def split: if_splits)
qed

theorem stale_generation_refused_witness:
  "let st = snd (exec_op sample_ext sample_io sample_op sample_store)
   in \<not> fst (exec_op sample_ext sample_io (FinishOp ''box'' 8) st)"
proof -
  define st where "st = snd (exec_op sample_ext sample_io sample_op sample_store)"
  have op: "op_spec_ok sample_op" by (simp add: sample_op_def sample_spec_def)
  have abs: "abs_op (now sample_io) (new_uuid sample_io) sample_op (view sample_ext sample_store)
     = Some [''box'' \<mapsto> new_record 5 7 ''box'' ''key'' (sample_spec ''box'')]"
    by (simp add: sample_op_def sample_id sample_store_ok(5)) (simp add: sample_io_def)
  have ok: "fst (exec_op sample_ext sample_io sample_op sample_store)"
    by (rule abs_op_accepted [OF sample_ext_ok(2) sample_store_ok(2-4) op abs])
  have "exec_op sample_ext sample_io sample_op sample_store = (True, st)"
    using ok by (simp add: st_def prod_eq_iff)
  from exec_op_refines [OF sample_ext_ok(1) sample_store_ok(2) op this] abs
  have ok': "store_ok sample_ext st" and
    v: "view sample_ext st = [''box'' \<mapsto> new_record 5 7 ''box'' ''key'' (sample_spec ''box'')]"
    by (simp_all add: refines_op_def)
  have st: "view sample_ext st ''box'' = Some (new_record 5 7 ''box'' ''key'' (sample_spec ''box''))"
    by (simp add: v)
  have "rec_generation (new_record 5 7 ''box'' ''key'' (sample_spec ''box'')) \<noteq> 8"
    by (simp add: new_record_def Let_def)
  from stale_generation_refused [OF sample_ext_ok(1) ok' st this, of "FinishOp ''box'' 8"]
  show ?thesis by (simp add: st_def)
qed

text \<open>C19: startup loads exactly the stored records.  A successful \<open>load_all\<close> returns, in the
  order of the file names, the record of every id that has one and nothing else; and it
  succeeds whenever the directory holds no foreign \<open>.json\<close> file and no call fails.\<close>

theorem load_all_exact:
  assumes "store_ok X st" "\<not> poisoned st" "listed st names"
  shows "(\<forall>rs st'. load_all X ios names st = (Ok rs, st') \<longrightarrow>
            map (\<lambda>n. view X st (fst (split_name n))) (json_names names) = map Some rs
            \<and> set (map (fst \<circ> split_name) (json_names names)) = dom (view X st)
            \<and> sorted (json_names names) \<and> distinct (json_names names))
    \<and> ((\<forall>n \<in> set (json_names names). valid_id (fst (split_name n)) \<and> fault_free (ios n) st)
         \<longrightarrow> is_ok (fst (load_all X ios names st)))"
proof (intro conjI allI impI)
  fix rs st' assume "load_all X ios names st = (Ok rs, st')"
  then have l: "load_entries X ios (json_names names) st = (Ok rs, st')"
    using assms(2) by (simp add: load_all_def lock_def)
  show m: "map (\<lambda>n. view X st (fst (split_name n))) (json_names names) = map Some rs"
    by (rule load_entries_sound [OF assms(1) l])
  show "sorted (json_names names)"
    by (simp add: json_names_def sorted_filter [where f = id, simplified])
  show "distinct (json_names names)"
    using assms(3) by (simp add: json_names_def listed_def)
  have "view X st (fst (split_name n)) \<noteq> None" if "n \<in> set (json_names names)" for n
  proof -
    have "view X st (fst (split_name n))
        \<in> set (map (\<lambda>n. view X st (fst (split_name n))) (json_names names))"
      using that by auto
    then show ?thesis unfolding m by auto
  qed
  moreover have "i \<in> set (map (fst \<circ> split_name) (json_names names))" if "view X st i = Some r" for i r
    using imageI [OF view_listed [OF assms(3) that], of "fst \<circ> split_name"]
      valid_split_name [OF view_valid [OF that]] by simp
  ultimately show "set (map (fst \<circ> split_name) (json_names names)) = dom (view X st)" by auto
next
  assume ok: "\<forall>n \<in> set (json_names names). valid_id (fst (split_name n)) \<and> fault_free (ios n) st"
  have "\<exists>i r. n = i @ ''.json'' \<and> valid_id i \<and> view X st i = Some r"
    if n: "n \<in> set (json_names names)" for n
  proof -
    define i where "i = fst (split_name n)"
    have name: "n = i @ ''.json''"
      using n by (intro split_name_json) (auto simp: json_names_set i_def prod_eq_iff)
    have i: "valid_id i" using ok n by (simp add: i_def)
    obtain f where "files st (record_path st i) = Some f"
      using n assms(3) name by (auto simp: json_names_set listed_def record_path_def)
    then have "view X st i \<noteq> None"
      using assms(1) i by (force simp: view_def store_ok_def file_ok_def split: sum.splits)
    with name i show ?thesis by auto
  qed
  with load_entries_clean [OF assms(1), of "json_names names" ios] ok assms(2)
  show "is_ok (fst (load_all X ios names st))" by (auto simp: load_all_def lock_def)
qed

theorem load_all_exact_witness:
  "is_ok (fst (load_all sample_ext (\<lambda>_. sample_io) [] sample_store))"
  using load_all_exact [OF sample_store_ok(2,3), of "[]" "\<lambda>_. sample_io"]
  by (simp add: listed_def sample_store_def json_names_def)

end
