(* ===== verification/Computer_Runtime.thy ===== *)
theory Computer_Runtime
  imports Computer_Phase
begin

section \<open>A computer's runtime half, checkpoint settlement and deadlines\<close>

text \<open>
  \<open>lifecycle/runtime.rs\<close>, \<open>sandbox/policy/settle.rs\<close> and \<open>sandbox/policy/deadlines.rs\<close>: the
  resources and facts a computer holds in memory, where a capture leaves the guest, and when a
  timer is due.  Handles, leases, network identities and overlays belong to the driver, the
  network and the block layer; the runtime stores and passes them on without looking inside, so
  they are values of a type parameter.
\<close>

subsection \<open>Exit statuses\<close>

datatype ExitStatus = Code "32 word" | Signaled "32 word"

definition conventional_code :: "ExitStatus \<Rightarrow> 32 word" where
  "conventional_code s = (case s of Code c \<Rightarrow> c | Signaled sig \<Rightarrow> 128 + sig)"

subsection \<open>The runtime record\<close>

record 'h ComputerRuntime =
  rt_id :: string
  rt_record_generation :: "uuid option"
  rt_labels :: "string \<rightharpoonup> string"
  rt_spec :: ComputerSpec
  rt_state :: ComputerState
  rt_prepared :: "'h option"
  rt_handle :: "'h option"
  rt_network :: "'h option"
  rt_net_identity :: "'h option"
  rt_vm_dir :: string
  rt_created_at :: instant
  rt_ready_at :: "instant option"
  rt_last_exited_at :: "instant option"
  rt_last_exit_status :: "ExitStatus option"
  rt_error :: "string option"
  rt_cow_handle :: "'h option"
  rt_pool_slot_id :: "string option"
  rt_net_invariant :: bool
  rt_paused_at :: "instant option"
  rt_pause_snapshot_id :: "string option"
  rt_ttl_deadline :: "instant option"

definition runtime_new_inner ::
  "instant \<Rightarrow> string \<Rightarrow> ComputerSpec \<Rightarrow> 'h option \<Rightarrow> string \<Rightarrow> uuid option \<Rightarrow> 'h ComputerRuntime" where
  "runtime_new_inner now i spec net dir gen =
     \<lparr>rt_id = i, rt_record_generation = gen, rt_labels = spec_labels spec, rt_spec = spec,
      rt_state = ComputerState.Starting, rt_prepared = None, rt_handle = None, rt_network = net,
      rt_net_identity = None, rt_vm_dir = dir, rt_created_at = now, rt_ready_at = None,
      rt_last_exited_at = None, rt_last_exit_status = None, rt_error = None,
      rt_cow_handle = None, rt_pool_slot_id = None, rt_net_invariant = False,
      rt_paused_at = None, rt_pause_snapshot_id = None, rt_ttl_deadline = None\<rparr>"

definition runtime_new ::
  "instant \<Rightarrow> string \<Rightarrow> ComputerSpec \<Rightarrow> 'h option \<Rightarrow> string \<Rightarrow> 'h ComputerRuntime" where
  "runtime_new now i spec net dir = runtime_new_inner now i spec net dir None"

definition new_with_generation ::
  "instant \<Rightarrow> string \<Rightarrow> ComputerSpec \<Rightarrow> 'h option \<Rightarrow> string \<Rightarrow> uuid \<Rightarrow> 'h ComputerRuntime" where
  "new_with_generation now i spec net dir gen = runtime_new_inner now i spec net dir (Some gen)"

subsection \<open>Settlement of a capture\<close>

record VmExitStatus =
  exit_code :: "32 word option"
  exit_signal :: "32 word option"

datatype VmState = Running | Quiesced | Exited VmExitStatus

datatype GuestHold = Resume | Hold

datatype Capture = Succeeded | Failed

datatype Settlement = AsRequested | Frozen

definition settlement :: "VmState \<Rightarrow> GuestHold \<Rightarrow> Capture \<Rightarrow> Settlement" where
  "settlement st hold cap =
     (let frozen = st = VmState.Quiesced \<and> (hold = GuestHold.Resume \<or> cap = Capture.Failed)
      in if frozen then Settlement.Frozen else Settlement.AsRequested)"

datatype CheckpointFailure = Frozen ComputerError | Recoverable ComputerError

text \<open>
  The verdict of \<open>checkpoint_impl\<close> on what the capture returned (a snapshot id or an error) and
  the state the driver left the guest in.
\<close>

definition checkpoint_verdict ::
  "string \<Rightarrow> VmState \<Rightarrow> bool \<Rightarrow> (string, ComputerError) result
     \<Rightarrow> (string, CheckpointFailure) result" where
  "checkpoint_verdict i st resume_after outcome =
     (let settled = settlement st (if resume_after then GuestHold.Resume else GuestHold.Hold)
                      (if is_ok outcome then Capture.Succeeded else Capture.Failed)
      in case (outcome, settled) of
           (Ok snap, Settlement.AsRequested) \<Rightarrow> Ok snap
         | (Ok snap, Settlement.Frozen) \<Rightarrow>
             Err (CheckpointFailure.Frozen (Process
               (''sandbox '' @ i @ '' stayed frozen after checkpoint '' @ snap
                 @ '': the driver could not resume the guest'')))
         | (Err e, Settlement.Frozen) \<Rightarrow> Err (CheckpointFailure.Frozen e)
         | (Err e, Settlement.AsRequested) \<Rightarrow> Err (CheckpointFailure.Recoverable e))"

subsection \<open>Deadlines\<close>

definition ttl_due :: "ComputerState \<Rightarrow> instant option \<Rightarrow> instant option" where
  "ttl_due st deadline =
     (case st of
        ComputerState.Stopped \<Rightarrow> None
      | ComputerState.Failed \<Rightarrow> None
      | _ \<Rightarrow> deadline)"

definition idle_due :: "ComputerState \<Rightarrow> u32 \<Rightarrow> duration option" where
  "idle_due st timeout =
     (if st = ComputerState.Ready \<and> timeout \<noteq> 0 then Some (nanos_of_secs (unat timeout)) else None)"

definition remaining :: "instant \<Rightarrow> instant \<Rightarrow> duration" where
  "remaining deadline now = (if now \<le> deadline then nat (deadline - now) else 0)"

subsection \<open>What settlement and deadlines guarantee\<close>

text \<open>a checkpoint never reports a frozen guest as usable.  The capture is reported as done,
  or as a failure the computer survives, only if the guest is not quiesced, or is quiesced
  because the request asked to hold it and the capture succeeded; every other outcome is the
  failure that fails the computer.\<close>

theorem checkpoint_never_usable_frozen:
  "(\<exists>e. checkpoint_verdict i st resume_after outcome = Err (CheckpointFailure.Frozen e))
     \<longleftrightarrow> st = VmState.Quiesced \<and> (if resume_after then True else is_ok outcome = False)"
  by (cases outcome; cases st)
    (auto simp: checkpoint_verdict_def settlement_def Let_def)

lemma remaining_sum:
  "now + int (remaining deadline now) = max now deadline"
  by (auto simp: remaining_def)

text \<open>a timer armed for what remains never fires early.  The wait ends at the deadline, or
  at once when the deadline is past; a stopped or failed computer has no deadline at all, and an
  idle window opens only for a ready computer with a window configured, for at most that many
  seconds.\<close>

theorem deadlines_never_early:
  "now + int (remaining deadline now) = max now deadline
   \<and> (ttl_due st (Some deadline) = None \<longleftrightarrow> st \<in> {ComputerState.Stopped, ComputerState.Failed})
   \<and> (idle_due st timeout = None \<longleftrightarrow> (if st = ComputerState.Ready then timeout = 0 else True))
   \<and> (case idle_due st timeout of
        None \<Rightarrow> True
      | Some d \<Rightarrow> d = 1000000000 * unat timeout \<and> d < 2 ^ 62)"
proof -
  have "unat timeout < 2 ^ 32" using unsigned_less [of timeout, where ?'a = nat] by simp
  then have "1000000000 * unat timeout < 2 ^ 62" by simp
  then show ?thesis
    by (cases st) (auto simp: remaining_sum ttl_due_def idle_due_def nanos_of_secs_def)
qed

end
