(* ===== verification/Computer_Recovery.thy ===== *)
theory Computer_Recovery
  imports Computer_Store Computer_Machine Computer_Runtime
begin

section \<open>Crash recovery\<close>

text \<open>
  \<open>sandbox/policy/recovery.rs\<close> and the normalization of \<open>sandbox/reconcile.rs\<close>: what a restart
  makes of the records and journals the previous process left.  \<open>plan\<close> is the pure verdict;
  \<open>normalize_durable_records\<close> loads every record, carries the verdict out on the store and
  builds the computers the actors start from.
\<close>

subsection \<open>Verdicts\<close>

datatype JournalEvidence = Swept | Unjournaled | Unchecked | Adopted

datatype RecoveryAction =
    LeaveResumable
  | Fail
  | Reinstate ComputerState
  | FinishRemove
  | RefuseUnjournaled
  | RefuseAdopted

datatype SweepAction = DropStaleJournal | Reclaim

fun plan :: "ComputerPhase \<Rightarrow> JournalEvidence \<Rightarrow> RecoveryAction" where
  "plan p JournalEvidence.Adopted =
     (if p = ComputerPhase.Ready then Reinstate ComputerState.Ready else RefuseAdopted)"
| "plan ComputerPhase.Creating _ = LeaveResumable"
| "plan ComputerPhase.Starting ev = (if ev = Unjournaled then RefuseUnjournaled else Fail)"
| "plan ComputerPhase.Ready ev = (if ev = Unjournaled then RefuseUnjournaled else Fail)"
| "plan ComputerPhase.Stopping ev = (if ev = Unjournaled then RefuseUnjournaled else Fail)"
| "plan ComputerPhase.Pausing _ = Fail"
| "plan ComputerPhase.Resuming _ = Fail"
| "plan ComputerPhase.Paused _ = Reinstate ComputerState.Paused"
| "plan ComputerPhase.Stopped _ = Reinstate ComputerState.Stopped"
| "plan ComputerPhase.Failed _ = Reinstate ComputerState.Failed"
| "plan ComputerPhase.Removing _ = FinishRemove"

definition retained_ids :: "(string \<times> ComputerPhase) list \<Rightarrow> string set" where
  "retained_ids records = set (map fst (filter (\<lambda>(_, p). p = ComputerPhase.Paused) records))"

definition sweep_action :: "string \<Rightarrow> string set \<Rightarrow> SweepAction" where
  "sweep_action i retained = (if i \<in> retained then DropStaleJournal else Reclaim)"

subsection \<open>Recovered computers\<close>

datatype Seeded = Fresh | Recovered ComputerPhase | Adopted

record 'h AdoptedComputer =
  ad_handle :: 'h
  ad_lease :: "'h option"
  ad_identity :: "'h option"
  ad_cow_handle :: "'h option"
  ad_pool_slot_id :: "string option"
  ad_net_invariant :: bool

record 'h RecoveredComputer =
  rc_runtime :: "'h ComputerRuntime"
  rc_seeded :: Seeded

definition AGENT_RESTART_ERROR :: string where
  "AGENT_RESTART_ERROR = ''sandbox runtime was cleaned after agent restart''"

fun phase_of :: "ComputerState \<Rightarrow> ComputerPhase" where
  "phase_of ComputerState.Paused = ComputerPhase.Paused"
| "phase_of ComputerState.Pausing = ComputerPhase.Paused"
| "phase_of ComputerState.Stopped = ComputerPhase.Stopped"
| "phase_of ComputerState.Stopping = ComputerPhase.Stopped"
| "phase_of _ = ComputerPhase.Failed"

definition inactive_instance ::
  "instant \<Rightarrow> ComputerRecord \<Rightarrow> ComputerState \<Rightarrow> string \<Rightarrow> 'h ComputerRuntime" where
  "inactive_instance n r st data_dir =
     (let dir = data_dir @ ''/sandboxes/'' @ rec_id r;
          rt = new_with_generation n (rec_id r) (rec_effective_spec r) None dir (rec_generation r);
          rt = rt\<lparr>rt_state := st, rt_created_at := rec_created_at r, rt_error := rec_error r,
                  rt_ttl_deadline := rec_ttl_deadline r\<rparr>
      in if st = ComputerState.Paused
         then rt\<lparr>rt_pause_snapshot_id := rec_pause_snapshot_id r, rt_paused_at := rec_paused_at r\<rparr>
         else rt)"

definition adopted_instance ::
  "instant \<Rightarrow> ComputerRecord \<Rightarrow> ComputerState \<Rightarrow> string \<Rightarrow> 'h AdoptedComputer
     \<Rightarrow> 'h ComputerRuntime" where
  "adopted_instance n r st data_dir ad =
     (inactive_instance n r st data_dir)
       \<lparr>rt_handle := Some (ad_handle ad), rt_network := ad_lease ad,
        rt_net_identity := ad_identity ad, rt_cow_handle := ad_cow_handle ad,
        rt_pool_slot_id := ad_pool_slot_id ad, rt_net_invariant := ad_net_invariant ad\<rparr>"

definition reinstated :: "'h ComputerRuntime \<Rightarrow> 'h RecoveredComputer" where
  "reinstated rt = \<lparr>rc_runtime = rt, rc_seeded = Seeded.Recovered (phase_of (rt_state rt))\<rparr>"

subsection \<open>Normalization\<close>

record 'h SweptRuntime =
  sw_swept :: "string set"
  sw_adopted :: "string \<rightharpoonup> 'h AdoptedComputer"
  sw_skipped :: "string set"

definition evidence_of ::
  "string set option \<Rightarrow> (string \<rightharpoonup> 'h AdoptedComputer) \<Rightarrow> string set \<Rightarrow> string \<Rightarrow> JournalEvidence" where
  "evidence_of swept adopted skipped i =
     (case swept of
        None \<Rightarrow> Unchecked
      | Some ids \<Rightarrow>
          if adopted i \<noteq> None then JournalEvidence.Adopted
          else if i \<in> ids then Swept
          else if i \<in> skipped then Unchecked
          else Unjournaled)"

text \<open>The loop's state: what is left to claim of the sweep, what was built, and the store.\<close>

record ('h, 'byte) Recovery =
  rv_adopted :: "string \<rightharpoonup> 'h AdoptedComputer"
  rv_built :: "'h RecoveredComputer list"
  rv_store :: "'byte ComputerRecordStore"

definition recover_one ::
  "'byte ext \<Rightarrow> 'byte StoreIo \<Rightarrow> string \<Rightarrow> string set option \<Rightarrow> string set \<Rightarrow> ComputerRecord
     \<Rightarrow> ('h, 'byte) Recovery \<Rightarrow> (ComputerError + unit) \<times> ('h, 'byte) Recovery" where
  "recover_one X io data_dir swept skipped r v =
     (let i = rec_id r in
      case plan (rec_phase r) (evidence_of swept (rv_adopted v) skipped i) of
        LeaveResumable \<Rightarrow> (Ok (), v)
      | RefuseUnjournaled \<Rightarrow>
          (Err (ComputerError.Unavailable (''sandbox '' @ i @ '' is '' @ as_str (rec_phase r)
             @ '' but has no cleanup journal'')), v)
      | RefuseAdopted \<Rightarrow>
          (Err (ComputerError.Unavailable (''sandbox '' @ i @ '' is '' @ as_str (rec_phase r)
             @ '', a phase the startup sweep must not adopt'')), v)
      | Fail \<Rightarrow>
          (let (res, st) = transition X io i (rec_generation r)
                             (ComputerTransition.Failed AGENT_RESTART_ERROR) (rv_store v);
               v = v\<lparr>rv_store := st\<rparr>
           in case res of
                Err e \<Rightarrow> (Err e, v)
              | Ok c \<Rightarrow>
                  (case confirmed ''sandbox restart normalization'' c of
                     Err e \<Rightarrow> (Err e, v)
                   | Ok r' \<Rightarrow>
                       (Ok (), v\<lparr>rv_built := rv_built v
                          @ [reinstated (inactive_instance (now io) r' ComputerState.Failed data_dir)]\<rparr>)))
      | Reinstate s \<Rightarrow>
          (case rv_adopted v i of
             Some ad \<Rightarrow>
               (Ok (), v\<lparr>rv_adopted := (rv_adopted v)(i := None),
                  rv_built := rv_built v
                    @ [\<lparr>rc_runtime = adopted_instance (now io) r s data_dir ad,
                        rc_seeded = Seeded.Adopted\<rparr>]\<rparr>)
           | None \<Rightarrow>
               (Ok (), v\<lparr>rv_built := rv_built v
                    @ [reinstated (inactive_instance (now io) r s data_dir)]\<rparr>))
      | FinishRemove \<Rightarrow>
          (let (res, st) = finish_remove X io i (rec_generation r) (rv_store v);
               v = v\<lparr>rv_store := st\<rparr>
           in case res of
                Err e \<Rightarrow> (Err e, v)
              | Ok c \<Rightarrow>
                  (case confirmed ''sandbox removal recovery'' c of
                     Err e \<Rightarrow> (Err e, v)
                   | Ok _ \<Rightarrow> (Ok (), v))))"

fun recover_each ::
  "'byte ext \<Rightarrow> (string \<Rightarrow> 'byte StoreIo) \<Rightarrow> string \<Rightarrow> string set option \<Rightarrow> string set
     \<Rightarrow> ComputerRecord list \<Rightarrow> ('h, 'byte) Recovery
     \<Rightarrow> (ComputerError + unit) \<times> ('h, 'byte) Recovery" where
  "recover_each X ios data_dir swept skipped [] v = (Ok (), v)"
| "recover_each X ios data_dir swept skipped (r # rs) v =
     st_then (recover_one X (ios (rec_id r)) data_dir swept skipped r v)
       (\<lambda>_ v. recover_each X ios data_dir swept skipped rs v)"

definition normalize_durable_records ::
  "'byte ext \<Rightarrow> (string \<Rightarrow> 'byte StoreIo) \<Rightarrow> (string \<Rightarrow> 'byte StoreIo) \<Rightarrow> string list \<Rightarrow> string
     \<Rightarrow> 'h SweptRuntime option \<Rightarrow> 'byte ComputerRecordStore
     \<Rightarrow> (ComputerError + unit) \<times> ('h, 'byte) Recovery" where
  "normalize_durable_records X lios ios names data_dir sweep st =
     (let swept = map_option sw_swept sweep;
          adopted = (case sweep of Some sw \<Rightarrow> sw_adopted sw | None \<Rightarrow> Map.empty);
          skipped = (case sweep of Some sw \<Rightarrow> sw_skipped sw | None \<Rightarrow> {});
          (res, st) = load_all X lios names st;
          v = \<lparr>rv_adopted = adopted, rv_built = [], rv_store = st\<rparr>
      in case res of
           Err e \<Rightarrow> (Err e, v)
         | Ok rs \<Rightarrow> recover_each X ios data_dir swept skipped rs v)"

text \<open>The event an actor's machine is seeded with.\<close>

definition seed_event :: "Seeded \<Rightarrow> Event option" where
  "seed_event s =
     (case s of
        Seeded.Fresh \<Rightarrow> None
      | Seeded.Recovered p \<Rightarrow> Some (Event.Recovered p)
      | Seeded.Adopted \<Rightarrow> Some Event.Adopted)"

subsection \<open>The records a restart starts from\<close>

lemma load_entries_kept:
  assumes "store_ok X st" "load_entries X ios ns st = (res, st')"
  shows "kept X st st'"
  using assms
proof (induction ns arbitrary: st res st')
  case Nil
  then show ?case by (simp add: kept_refl)
next
  case (Cons n ns)
  obtain x st1 where e: "load_entry X (ios n) n st = (x, st1)" by (cases "load_entry X (ios n) n st")
  obtain y st2 where es: "load_entries X ios ns st1 = (y, st2)"
    by (cases "load_entries X ios ns st1")
  have k: "kept X st st1" using load_entry_result(1) [OF Cons.prems(1) e] .
  then have "kept X st1 st2" using Cons.IH [of st1 y st2] es by (simp add: kept_def)
  with Cons.prems(2) e es k show ?case
    by (cases x; cases y) (auto intro: kept_trans)
qed

lemma load_all_records:
  assumes "store_ok X st" "listed st names" "load_all X ios names st = (Ok rs, st')"
  shows "kept X st st'" and "distinct (map rec_id rs)"
    and "\<forall>r \<in> set rs. view X st (rec_id r) = Some r"
    and "\<forall>i r. view X st i = Some r \<longrightarrow> r \<in> set rs"
proof -
  let ?stem = "\<lambda>n. fst (split_name n)"
  have l: "load_entries X ios (json_names names) st = (Ok rs, st')"
    using assms(3) by (simp add: load_all_def lock_def split: if_splits)
  show "kept X st st'" using load_entries_kept [OF assms(1) l] .
  have m: "map (\<lambda>n. view X st (?stem n)) (json_names names) = map Some rs"
    using load_entries_sound [OF assms(1) l] .
  then have len: "length rs = length (json_names names)" by (metis length_map)
  have at: "view X st (?stem (json_names names ! k)) = Some (rs ! k)" if "k < length rs" for k
    using m that len by (metis nth_map)
  have id_at: "rec_id (rs ! k) = ?stem (json_names names ! k)" if "k < length rs" for k
    using store_okD [OF assms(1) view_valid [OF at [OF that]] at [OF that]]
    by (rule record_wf_fields(3))
  have name: "n = ?stem n @ ''.json''" if "n \<in> set (json_names names)" for n
    using that by (intro split_name_json) (auto simp: json_names_set prod_eq_iff)
  have ids: "map rec_id rs = map ?stem (json_names names)"
    using id_at len by (simp add: list_eq_iff_nth_eq)
  have "inj_on ?stem (set (json_names names))"
    by (rule inj_onI) (metis name)
  moreover have "distinct (json_names names)"
    using assms(2) by (simp add: json_names_def listed_def)
  ultimately show "distinct (map rec_id rs)" by (simp add: ids distinct_map)
  show views: "\<forall>r \<in> set rs. view X st (rec_id r) = Some r"
    using at id_at by (auto simp: in_set_conv_nth)
  show "\<forall>i r. view X st i = Some r \<longrightarrow> r \<in> set rs"
  proof (intro allI impI)
    fix i r assume v: "view X st i = Some r"
    have "i @ ''.json'' \<in> set (json_names names)" by (rule view_listed [OF assms(2) v])
    then obtain k where k: "k < length rs" "json_names names ! k = i @ ''.json''"
      using len by (auto simp: in_set_conv_nth)
    with at [OF k(1)] valid_split_name [OF view_valid [OF v]] v have "rs ! k = r" by simp
    with k(1) show "r \<in> set rs" by auto
  qed
qed

subsection \<open>What normalization leaves\<close>

text \<open>The state the machine of a recovered computer starts in.\<close>

definition seeded_state :: "Seeded \<Rightarrow> State" where
  "seeded_state s =
     (case seed_event s of
        None \<Rightarrow> initial_state
      | Some e \<Rightarrow> next_state computer_step initial_state e)"

text \<open>A record recovery leaves in place, and a computer that agrees with its record.\<close>

definition settled :: "(string \<rightharpoonup> 'h AdoptedComputer) \<Rightarrow> string \<Rightarrow> ComputerRecord \<Rightarrow> bool" where
  "settled adopted i r \<longleftrightarrow>
     rec_phase r \<in> {ComputerPhase.Creating, ComputerPhase.Paused, ComputerPhase.Stopped,
                     ComputerPhase.Failed}
     \<or> rec_phase r = ComputerPhase.Ready \<and> adopted i \<noteq> None"

definition agrees :: "(string \<rightharpoonup> ComputerRecord) \<Rightarrow> 'h RecoveredComputer \<Rightarrow> bool" where
  "agrees v c \<longleftrightarrow>
     (\<exists>r. v (rt_id (rc_runtime c)) = Some r
        \<and> rt_record_generation (rc_runtime c) = Some (rec_generation r)
        \<and> durable (seeded_state (rc_seeded c)) = Some (rec_phase r)
        \<and> to_public (seeded_state (rc_seeded c)) = rt_state (rc_runtime c)
        \<and> (rt_handle (rc_runtime c) \<noteq> None \<longleftrightarrow> rec_phase r = ComputerPhase.Ready))"

definition successor :: "ComputerRecord option \<Rightarrow> ComputerRecord option \<Rightarrow> bool" where
  "successor old new \<longleftrightarrow>
     (case (old, new) of
        (None, None) \<Rightarrow> True
      | (Some r, None) \<Rightarrow> rec_phase r = ComputerPhase.Removing
      | (Some r, Some r') \<Rightarrow>
          r' = r
          \<or> rec_phase r \<notin> {ComputerPhase.Stopped, ComputerPhase.Paused, ComputerPhase.Creating}
            \<and> rec_phase r' = ComputerPhase.Failed \<and> same_identity r r'
            \<and> rec_error r' = Some AGENT_RESTART_ERROR
      | (None, Some _) \<Rightarrow> False)"

lemma seeded_state_simps [simp]:
  "seeded_state (Seeded.Recovered ComputerPhase.Failed) = State.Failed"
  "seeded_state (Seeded.Recovered ComputerPhase.Stopped) = State.Stopped"
  "seeded_state (Seeded.Recovered ComputerPhase.Paused) = State.Paused"
  "seeded_state Seeded.Adopted = State.Ready"
  by (simp_all add: seeded_state_def seed_event_def initial_state_def step_defs)

lemma instance_fields [simp]:
  "rt_id (inactive_instance n r s dir) = rec_id r"
  "rt_record_generation (inactive_instance n r s dir) = Some (rec_generation r)"
  "rt_state (inactive_instance n r s dir) = s"
  "rt_handle (inactive_instance n r s dir) = None"
  "rt_id (adopted_instance n r s dir ad) = rec_id r"
  "rt_record_generation (adopted_instance n r s dir ad) = Some (rec_generation r)"
  "rt_state (adopted_instance n r s dir ad) = s"
  "rt_handle (adopted_instance n r s dir ad) = Some (ad_handle ad)"
  by (simp_all add: inactive_instance_def adopted_instance_def new_with_generation_def
      runtime_new_inner_def Let_def)

lemma agrees_other:
  "agrees v c \<Longrightarrow> rt_id (rc_runtime c) \<noteq> i \<Longrightarrow> agrees (v(i := x)) c"
  by (simp add: agrees_def)

lemma transition_value:
  assumes rt: "json_roundtrip X" and st: "store_ok X st" and r: "view X st i = Some r"
    and t: "transition X io i gen t st = (Ok c, st')"
  shows "apply_transition (now io) t r = Ok (commit_value c)"
    and "store_ok X st'" "view X st' = (view X st)(i \<mapsto> commit_value c)"
proof -
  obtain x st1 where l: "load_generation X io i gen st = (x, st1)"
    by (cases "load_generation X io i gen st")
  from t l obtain r0 where r0: "x = Ok r0" by (cases x) (auto simp: transition_def)
  have "r0 = r" using load_generation_result(2) [OF st l r0] r by simp
  with t l r0 show ap: "apply_transition (now io) t r = Ok (commit_value c)"
    by (auto simp: transition_def st_then_def split: sum.splits)
  from transition_refines [OF rt st t] show "store_ok X st'" by (simp add: refines_op_def)
  from transition_refines [OF rt st t] r ap
  show "view X st' = (view X st)(i \<mapsto> commit_value c)"
    by (auto simp: refines_op_def split: if_splits)
qed

lemma confirmed_Ok: "confirmed op c = Ok x \<Longrightarrow> commit_value c = x"
  by (auto simp: confirmed_def split: option.splits)

lemma plan_phase:
  "plan p ev = LeaveResumable \<Longrightarrow> p = ComputerPhase.Creating"
  "plan p ev = Fail \<Longrightarrow>
     p \<notin> {ComputerPhase.Stopped, ComputerPhase.Paused, ComputerPhase.Creating, ComputerPhase.Removing}"
  "plan p ev = FinishRemove \<Longrightarrow> p = ComputerPhase.Removing"
  "plan p ev = Reinstate s \<Longrightarrow>
     (if ev = JournalEvidence.Adopted then p = ComputerPhase.Ready \<and> s = ComputerState.Ready
      else p = phase_of s \<and> s \<in> {ComputerState.Paused, ComputerState.Stopped, ComputerState.Failed})"
  by (cases p; cases ev; simp split: if_splits)+

lemma evidence_adopted:
  assumes "swept = None \<longrightarrow> adopted i = None"
  shows "evidence_of swept adopted skipped i = JournalEvidence.Adopted \<longleftrightarrow> adopted i \<noteq> None"
  using assms by (auto simp: evidence_of_def split: option.splits)

text \<open>One record: the store changes at its id alone, to a settled successor.\<close>

definition recovered_step ::
  "'byte ext \<Rightarrow> ComputerRecord \<Rightarrow> ('h, 'byte) Recovery \<Rightarrow> ('h, 'byte) Recovery
     \<Rightarrow> ComputerRecord option \<Rightarrow> 'h RecoveredComputer list \<Rightarrow> bool" where
  "recovered_step X r v v' x cs \<longleftrightarrow>
     store_ok X (rv_store v')
     \<and> view X (rv_store v') = (view X (rv_store v))(rec_id r := x)
     \<and> successor (Some r) x \<and> (\<forall>r'. x = Some r' \<longrightarrow> settled (rv_adopted v) (rec_id r) r')
     \<and> rv_built v' = rv_built v @ cs
     \<and> (\<forall>c \<in> set cs. rt_id (rc_runtime c) = rec_id r \<and> agrees (view X (rv_store v')) c)
     \<and> (\<forall>j. j \<noteq> rec_id r \<longrightarrow> rv_adopted v' j = rv_adopted v j)"

lemma recover_fail:
  fixes v :: "('h, 'byte) Recovery"
  assumes rt: "json_roundtrip X" and st: "store_ok X (rv_store v)"
    and r: "view X (rv_store v) (rec_id r) = Some r"
    and p: "plan (rec_phase r) (evidence_of swept (rv_adopted v) skipped (rec_id r)) = Fail"
    and ok: "recover_one X io data_dir swept skipped r v = (Ok u, v')"
  shows "\<exists>x cs. recovered_step X r v v' x cs"
proof -
  let ?t = "ComputerTransition.Failed AGENT_RESTART_ERROR"
  obtain res st' where t: "transition X io (rec_id r) (rec_generation r) ?t (rv_store v) = (res, st')"
    by (cases "transition X io (rec_id r) (rec_generation r) ?t (rv_store v)")
  from ok p t obtain c r' where res: "res = Ok c"
    and c: "confirmed ''sandbox restart normalization'' c = Ok r'"
    and v': "v' = v\<lparr>rv_store := st', rv_built := rv_built v
       @ [reinstated (inactive_instance (now io) r' ComputerState.Failed data_dir)]\<rparr>"
    by (auto simp: recover_one_def Let_def split: sum.splits)
  note val = transition_value [OF rt st r t [unfolded res], unfolded confirmed_Ok [OF c]]
  have r': "same_identity r r'" "rec_phase r' = ComputerPhase.Failed"
    "rec_error r' = Some AGENT_RESTART_ERROR"
    using val(1) apply_transition_identity [OF val(1)] by (auto simp: apply_transition_Ok)
  then have "recovered_step X r v v' (Some r')
      [reinstated (inactive_instance (now io) r' ComputerState.Failed data_dir)]"
    using val(2,3) v' plan_phase(2) [OF p]
    by (auto simp: recovered_step_def successor_def settled_def reinstated_def agrees_def
        same_identity_def)
  then show ?thesis by blast
qed

lemma recover_finish:
  fixes v :: "('h, 'byte) Recovery"
  assumes st: "store_ok X (rv_store v)" and r: "view X (rv_store v) (rec_id r) = Some r"
    and p: "plan (rec_phase r) (evidence_of swept (rv_adopted v) skipped (rec_id r)) = FinishRemove"
    and ok: "recover_one X io data_dir swept skipped r v = (Ok u, v')"
  shows "\<exists>x cs. recovered_step X r v v' x cs"
proof -
  obtain res st' where f: "finish_remove X io (rec_id r) (rec_generation r) (rv_store v) = (res, st')"
    by (cases "finish_remove X io (rec_id r) (rec_generation r) (rv_store v)")
  from ok p f have res: "is_ok res" and v': "v' = v\<lparr>rv_store := st'\<rparr>"
    by (auto simp: recover_one_def Let_def split: sum.splits)
  from delete_record_refines [OF st f [unfolded finish_remove_def],
      of "FinishOp (rec_id r) (rec_generation r)"] res r plan_phase(3) [OF p] view_valid [OF r]
  have "store_ok X st'" "view X st' = (view X (rv_store v))(rec_id r := None)"
    by (auto simp: refines_op_def)
  with v' plan_phase(3) [OF p] have "recovered_step X r v v' None []"
    by (simp add: recovered_step_def successor_def)
  then show ?thesis by blast
qed

lemma recover_one_step:
  fixes v :: "('h, 'byte) Recovery"
  assumes rt: "json_roundtrip X" and st: "store_ok X (rv_store v)"
    and r: "view X (rv_store v) (rec_id r) = Some r"
    and adopted: "swept = None \<longrightarrow> rv_adopted v (rec_id r) = None"
    and ok: "recover_one X io data_dir swept skipped r v = (Ok u, v')"
  shows "\<exists>x cs. recovered_step X r v v' x cs"
proof -
  let ?ev = "evidence_of swept (rv_adopted v) skipped (rec_id r)"
  note ev = evidence_adopted [of swept "rv_adopted v" "rec_id r" skipped, OF adopted]
  have keep: "view X (rv_store v) = (view X (rv_store v))(rec_id r := Some r)"
    using r by (simp add: fun_upd_idem)
  show ?thesis
  proof (cases "plan (rec_phase r) ?ev")
    case LeaveResumable
    with ok have "v' = v" by (simp add: recover_one_def Let_def)
    with st keep plan_phase(1) [OF LeaveResumable] have "recovered_step X r v v' (Some r) []"
      by (auto simp: recovered_step_def successor_def settled_def)
    then show ?thesis by blast
  next
    case (Reinstate s)
    note ph = plan_phase(4) [OF Reinstate]
    show ?thesis
    proof (cases "rv_adopted v (rec_id r)")
      case None
      with ok Reinstate have v': "v' = v\<lparr>rv_built := rv_built v
          @ [reinstated (inactive_instance (now io) r s data_dir)]\<rparr>"
        by (simp add: recover_one_def Let_def)
      with st keep ph ev None r
      have "recovered_step X r v v' (Some r) [reinstated (inactive_instance (now io) r s data_dir)]"
        by (auto simp: recovered_step_def successor_def settled_def reinstated_def agrees_def)
      then show ?thesis by blast
    next
      case (Some ad)
      with ok Reinstate have v': "v' = v\<lparr>rv_adopted := (rv_adopted v)(rec_id r := None),
          rv_built := rv_built v @ [\<lparr>rc_runtime = adopted_instance (now io) r s data_dir ad,
            rc_seeded = Seeded.Adopted\<rparr>]\<rparr>"
        by (simp add: recover_one_def Let_def)
      with st keep ph ev Some r
      have "recovered_step X r v v' (Some r) [\<lparr>rc_runtime = adopted_instance (now io) r s data_dir ad,
          rc_seeded = Seeded.Adopted\<rparr>]"
        by (auto simp: recovered_step_def successor_def settled_def agrees_def)
      then show ?thesis by blast
    qed
  qed (use recover_fail [OF rt st r _ ok] recover_finish [OF st r _ ok] ok in
      \<open>auto simp: recover_one_def Let_def\<close>)
qed

definition recovered_all ::
  "'byte ext \<Rightarrow> ComputerRecord list \<Rightarrow> ('h, 'byte) Recovery \<Rightarrow> ('h, 'byte) Recovery \<Rightarrow> bool" where
  "recovered_all X rs v v' \<longleftrightarrow>
     store_ok X (rv_store v')
     \<and> (\<forall>i. i \<notin> rec_id ` set rs \<longrightarrow> view X (rv_store v') i = view X (rv_store v) i)
     \<and> (\<forall>r \<in> set rs. successor (Some r) (view X (rv_store v') (rec_id r))
          \<and> (\<forall>r'. view X (rv_store v') (rec_id r) = Some r' \<longrightarrow> settled (rv_adopted v) (rec_id r) r'))
     \<and> (\<exists>cs. rv_built v' = rv_built v @ cs
          \<and> (\<forall>c \<in> set cs. rt_id (rc_runtime c) \<in> rec_id ` set rs \<and> agrees (view X (rv_store v')) c))"

lemma agrees_cong:
  "v (rt_id (rc_runtime c)) = v' (rt_id (rc_runtime c)) \<Longrightarrow> agrees v c \<longleftrightarrow> agrees v' c"
  by (simp add: agrees_def)

lemma recovered_all_Cons:
  assumes step: "recovered_step X r v v1 x cs" and all: "recovered_all X rs v1 v'"
    and fresh: "rec_id r \<notin> rec_id ` set rs"
  shows "recovered_all X (r # rs) v v'"
proof -
  let ?w = "view X (rv_store v')" and ?w1 = "view X (rv_store v1)"
  have here: "?w (rec_id r) = x"
    using all fresh step by (simp add: recovered_all_def recovered_step_def)
  have out: "?w i = view X (rv_store v) i" if "i \<notin> rec_id ` set (r # rs)" for i
    using all step that by (auto simp: recovered_all_def recovered_step_def)
  have ne: "rec_id q \<noteq> rec_id r" if "q \<in> set rs" for q using fresh that by (metis imageI)
  have ad: "rv_adopted v1 (rec_id q) = rv_adopted v (rec_id q)" if "q \<in> set rs" for q
    using step ne [OF that] by (simp add: recovered_step_def)
  have each: "successor (Some q) (?w (rec_id q))
      \<and> (\<forall>r'. ?w (rec_id q) = Some r' \<longrightarrow> settled (rv_adopted v) (rec_id q) r')"
    if "q \<in> set (r # rs)" for q
  proof (cases "q = r")
    case True
    with step here show ?thesis by (auto simp: recovered_step_def)
  next
    case False
    with that have "q \<in> set rs" by simp
    with all ad show ?thesis by (simp add: recovered_all_def settled_def)
  qed
  obtain cs' where cs': "rv_built v' = rv_built v1 @ cs'"
    "\<And>c. c \<in> set cs' \<Longrightarrow> rt_id (rc_runtime c) \<in> rec_id ` set rs \<and> agrees ?w c"
    using all by (auto simp: recovered_all_def)
  have "rt_id (rc_runtime c) = rec_id r \<and> agrees ?w c" if "c \<in> set cs" for c
  proof -
    have c: "rt_id (rc_runtime c) = rec_id r" "agrees ?w1 c"
      using step that by (auto simp: recovered_step_def)
    have "?w (rec_id r) = ?w1 (rec_id r)"
      using all fresh by (simp add: recovered_all_def)
    with c agrees_cong [of ?w c ?w1] show ?thesis by simp
  qed
  with cs' step have "\<exists>ds. rv_built v' = rv_built v @ ds
     \<and> (\<forall>c \<in> set ds. rt_id (rc_runtime c) \<in> rec_id ` set (r # rs) \<and> agrees ?w c)"
    by (intro exI [of _ "cs @ cs'"]) (auto simp: recovered_step_def)
  with all out each show ?thesis by (simp add: recovered_all_def)
qed

lemma recover_each_result:
  fixes v :: "('h, 'byte) Recovery"
  assumes rt: "json_roundtrip X" and "store_ok X (rv_store v)"
    and "\<And>r. r \<in> set rs \<Longrightarrow> view X (rv_store v) (rec_id r) = Some r"
    and "\<And>r. r \<in> set rs \<Longrightarrow> swept = None \<Longrightarrow> rv_adopted v (rec_id r) = None"
    and "distinct (map rec_id rs)"
    and "recover_each X ios data_dir swept skipped rs v = (Ok u, v')"
  shows "recovered_all X rs v v'"
  using assms(2-)
proof (induction rs arbitrary: v)
  case Nil
  then show ?case by (simp add: recovered_all_def)
next
  case (Cons r rs)
  obtain y v1 where one: "recover_one X (ios (rec_id r)) data_dir swept skipped r v = (y, v1)"
    by (cases "recover_one X (ios (rec_id r)) data_dir swept skipped r v")
  from Cons.prems(5) one have y: "y = Ok ()"
    and rest: "recover_each X ios data_dir swept skipped rs v1 = (Ok u, v')"
    by (cases y; simp)+
  have r: "view X (rv_store v) (rec_id r) = Some r" using Cons.prems(2) by simp
  have "swept = None \<longrightarrow> rv_adopted v (rec_id r) = None" using Cons.prems(3) by simp
  from recover_one_step [OF rt Cons.prems(1) r this one [unfolded y]]
  obtain x cs where step: "recovered_step X r v v1 x cs" by blast
  have fresh: "rec_id r \<notin> rec_id ` set rs" using Cons.prems(4) by simp
  have ne: "rec_id q \<noteq> rec_id r" if "q \<in> set rs" for q using fresh that by (metis imageI)
  have "recovered_all X rs v1 v'"
  proof (rule Cons.IH [OF _ _ _ _ rest])
    show "store_ok X (rv_store v1)" using step by (simp add: recovered_step_def)
    show "view X (rv_store v1) (rec_id q) = Some q" if "q \<in> set rs" for q
      using Cons.prems(2) [of q] step that ne [OF that] by (simp add: recovered_step_def)
    show "rv_adopted v1 (rec_id q) = None" if "q \<in> set rs" "swept = None" for q
      using Cons.prems(3) [of q] step that ne [OF that(1)] by (simp add: recovered_step_def)
    show "distinct (map rec_id rs)" using Cons.prems(4) by simp
  qed
  from recovered_all_Cons [OF step this fresh] show ?case .
qed

subsection \<open>Properties of recovery\<close>

text \<open>C20: the verdict on a record is sound.  A record is failed only along a legal edge, and never
  a live phase the sweep found no journal for; it is reinstated in the state its phase stands for,
  as usable only when the sweep took its VM back; only a tombstone is finished, only an
  unacknowledged intent is left as it is; and a sandbox is adopted from \<open>Ready\<close> alone.\<close>

theorem plan_sound:
  "case plan p ev of
     LeaveResumable \<Rightarrow> p = ComputerPhase.Creating
   | Fail \<Rightarrow> can_transition_to p ComputerPhase.Failed \<and> p \<noteq> ComputerPhase.Failed
       \<and> (if ev = Unjournaled then p \<in> {ComputerPhase.Pausing, ComputerPhase.Resuming} else True)
   | Reinstate s \<Rightarrow>
       (if s = ComputerState.Ready then p = ComputerPhase.Ready \<and> ev = JournalEvidence.Adopted
        else p = phase_of s
          \<and> to_public (next_state computer_step initial_state (Event.Recovered p)) = s
          \<and> durable (next_state computer_step initial_state (Event.Recovered p)) = Some p)
   | FinishRemove \<Rightarrow> p = ComputerPhase.Removing
   | RefuseUnjournaled \<Rightarrow> ev = Unjournaled
       \<and> p \<in> {ComputerPhase.Starting, ComputerPhase.Ready, ComputerPhase.Stopping}
   | RefuseAdopted \<Rightarrow> ev = JournalEvidence.Adopted \<and> p \<noteq> ComputerPhase.Ready"
  by (cases p; cases ev; simp add: can_transition_to_def step_defs initial_state_def)





end
