(* ===== verification/Slot_Pool.thy ===== *)
theory Slot_Pool
  imports ArcPrelude "HOL-Library.Multiset" "HOL-Library.AList"
begin

section \<open>The warm-slot pool\<close>

text \<open>
  \<open>sandbox/policy/pool.rs\<close>: prepared slots kept per snapshot id, at most
  \<open>MAX_POOLED_SNAPSHOTS\<close> ids at a time by recency, with the fills in flight accounted.  The
  \<open>HashMap\<close>s are association lists with distinct keys, so that draining the whole pool is a
  traversal; the order of that traversal is not specified by the source and no theorem depends on
  it.  Every public method runs under the pool's lock, so a method is one step.
\<close>

subsection \<open>State and operations\<close>

definition MAX_POOLED_SNAPSHOTS :: nat where
  "MAX_POOLED_SNAPSHOTS = 2"

record 's FillPlan =
  plan_spawn :: nat
  plan_evicted :: "'s list"

record 's PoolInner =
  ready :: "(string \<times> 's list) list"
  filling :: "(string \<times> nat) list"
  lru :: "string list"

definition pool_default :: "'s PoolInner" where
  "pool_default = \<lparr>ready = [], filling = [], lru = []\<rparr>"

definition lru_without :: "string \<Rightarrow> 's PoolInner \<Rightarrow> 's PoolInner" where
  "lru_without i p = p\<lparr>lru := filter (\<lambda>x. x \<noteq> i) (lru p)\<rparr>"

definition touch :: "string \<Rightarrow> 's PoolInner \<Rightarrow> 's PoolInner" where
  "touch i p = p\<lparr>lru := filter (\<lambda>x. x \<noteq> i) (lru p) @ [i]\<rparr>"

definition ready_of :: "string \<Rightarrow> 's PoolInner \<Rightarrow> 's list" where
  "ready_of i p = unwrap_or [] (map_of (ready p) i)"

definition filling_of :: "string \<Rightarrow> 's PoolInner \<Rightarrow> nat" where
  "filling_of i p = unwrap_or 0 (map_of (filling p) i)"

definition prune :: "string \<Rightarrow> 's PoolInner \<Rightarrow> 's PoolInner" where
  "prune i p =
     (if ready_of i p = [] \<and> filling_of i p = 0
      then lru_without i (p\<lparr>ready := AList.delete i (ready p)\<rparr>) else p)"

definition finish_fill :: "string \<Rightarrow> 's PoolInner \<Rightarrow> 's PoolInner" where
  "finish_fill i p =
     (case map_of (filling p) i of
        None \<Rightarrow> p
      | Some n \<Rightarrow>
          if n - 1 = 0 then p\<lparr>filling := AList.delete i (filling p)\<rparr>
          else p\<lparr>filling := AList.update i (n - 1) (filling p)\<rparr>)"

text \<open>\<open>pop\<close> takes the last slot of the vector.\<close>

definition claim :: "string \<Rightarrow> 's PoolInner \<Rightarrow> 's option \<times> 's PoolInner" where
  "claim i p =
     (case map_of (ready p) i of
        None \<Rightarrow> (None, p)
      | Some slots \<Rightarrow>
          if slots = [] then (None, p)
          else (Some (last slots),
                prune i (touch i (p\<lparr>ready := AList.update i (butlast slots) (ready p)\<rparr>))))"

text \<open>The eviction loop: oldest id first, while more ids are listed than the cap.\<close>

function evict :: "'s PoolInner \<Rightarrow> 's list \<Rightarrow> 's PoolInner \<times> 's list" where
  "evict p evicted =
     (if length (lru p) > MAX_POOLED_SNAPSHOTS then
        (let stale = hd (lru p);
             slots = ready_of stale p
         in evict (p\<lparr>lru := tl (lru p), ready := AList.delete stale (ready p)\<rparr>) (evicted @ slots))
      else (p, evicted))"
  by pat_completeness auto

termination evict
  by (relation "measure (\<lambda>(p, _). length (lru p))") (auto simp: MAX_POOLED_SNAPSHOTS_def)

declare evict.simps [simp del]

definition begin_fill :: "string \<Rightarrow> nat \<Rightarrow> 's PoolInner \<Rightarrow> 's FillPlan \<times> 's PoolInner" where
  "begin_fill i target p =
     (if target = 0 then (\<lparr>plan_spawn = 0, plan_evicted = []\<rparr>, p)
      else
        (let p = touch i p;
             spawn = target - (length (ready_of i p) + filling_of i p);
             p = (if spawn > 0
                  then p\<lparr>filling := AList.update i (filling_of i p + spawn) (filling p)\<rparr> else p);
             (p, evicted) = evict p []
         in (\<lparr>plan_spawn = spawn, plan_evicted = evicted\<rparr>, p)))"

definition offer :: "string \<Rightarrow> 's \<Rightarrow> 's PoolInner \<Rightarrow> 's option \<times> 's PoolInner" where
  "offer i slot p =
     (let p = finish_fill i p in
      if i \<in> set (lru p)
      then (None, p\<lparr>ready := AList.update i (ready_of i p @ [slot]) (ready p)\<rparr>)
      else (Some slot, p))"

definition abandon_fill :: "string \<Rightarrow> 's PoolInner \<Rightarrow> 's PoolInner" where
  "abandon_fill i p = prune i (finish_fill i p)"

definition drain :: "string option \<Rightarrow> 's PoolInner \<Rightarrow> 's list \<times> 's PoolInner" where
  "drain o' p =
     (case o' of
        Some i \<Rightarrow>
          (ready_of i p, (lru_without i p)\<lparr>ready := AList.delete i (ready p)\<rparr>)
      | None \<Rightarrow> (concat (map snd (ready p)), p\<lparr>lru := [], ready := []\<rparr>))"

subsection \<open>The pool as a machine\<close>

text \<open>The methods a caller can run, and the slots each takes in and hands out.\<close>

datatype 's PoolOp =
    Claim string
  | BeginFill string nat
  | Offer string 's
  | AbandonFill string
  | Drain "string option"

fun pool_step :: "'s PoolOp \<Rightarrow> 's PoolInner \<Rightarrow> 's list \<times> 's PoolInner" where
  "pool_step (Claim i) p = (let (o', p') = claim i p in (case o' of None \<Rightarrow> [] | Some s \<Rightarrow> [s], p'))"
| "pool_step (BeginFill i t) p = (let (pl, p') = begin_fill i t p in (plan_evicted pl, p'))"
| "pool_step (Offer i s) p = (let (o', p') = offer i s p in (case o' of None \<Rightarrow> [] | Some s \<Rightarrow> [s], p'))"
| "pool_step (AbandonFill i) p = ([], abandon_fill i p)"
| "pool_step (Drain o') p = drain o' p"

fun slots_in :: "'s PoolOp \<Rightarrow> 's multiset" where
  "slots_in (Offer i s) = {#s#}"
| "slots_in _ = {#}"

definition pooled :: "'s PoolInner \<Rightarrow> 's multiset" where
  "pooled p = mset (concat (map snd (ready p)))"

text \<open>Only listed ids hold slots, each once, and never more ids than the cap.\<close>

definition counts_pos :: "(string \<times> nat) list \<Rightarrow> bool" where
  "counts_pos xs \<longleftrightarrow> (\<forall>i n. map_of xs i = Some n \<longrightarrow> 0 < n)"

definition pool_ok :: "'s PoolInner \<Rightarrow> bool" where
  "pool_ok p \<longleftrightarrow>
     distinct (map fst (ready p)) \<and> distinct (map fst (filling p)) \<and> distinct (lru p)
     \<and> fst ` set (ready p) \<subseteq> set (lru p) \<and> length (lru p) \<le> MAX_POOLED_SNAPSHOTS
     \<and> counts_pos (filling p)"

lemma pooled_delete:
  assumes "distinct (map fst xs)"
  shows "mset (concat (map snd (AList.delete i xs))) + mset (unwrap_or [] (map_of xs i))
    = mset (concat (map snd xs))"
  using assms
proof (induction xs)
  case (Cons x xs)
  obtain k v where x: "x = (k, v)" by (cases x)
  have "AList.delete k xs = xs" "map_of xs k = None" if "k \<notin> fst ` set xs"
    using that by (auto simp: AList.delete_id map_of_eq_None_iff)
  with Cons x show ?case by (cases "k = i") (auto simp: AList.delete_eq)
qed (simp add: AList.delete_eq)

lemma pooled_update:
  assumes "distinct (map fst xs)"
  shows "mset (concat (map snd (AList.update i v xs))) + mset (unwrap_or [] (map_of xs i))
    = mset (concat (map snd xs)) + mset v"
  using assms
proof (induction xs)
  case (Cons x xs)
  obtain k w where x: "x = (k, w)" by (cases x)
  have "map_of xs k = None" if "k \<notin> fst ` set xs" using that by (simp add: map_of_eq_None_iff)
  with Cons x show ?case by (cases "k = i") auto
qed simp

subsection \<open>Each operation keeps the pool and its slots\<close>

lemma finish_fill_simps [simp]:
  "ready (finish_fill i p) = ready p" "lru (finish_fill i p) = lru p"
  by (auto simp: finish_fill_def split: option.splits)

lemma ready_of_finish [simp]: "ready_of j (finish_fill i p) = ready_of j p"
  by (simp add: ready_of_def)

lemma counts_pos_delete: "counts_pos xs \<Longrightarrow> counts_pos (AList.delete i xs)"
  by (auto simp: counts_pos_def AList.delete_conv' split: if_splits)

lemma counts_pos_update: "counts_pos xs \<Longrightarrow> 0 < n \<Longrightarrow> counts_pos (AList.update i n xs)"
  by (auto simp: counts_pos_def AList.update_conv' split: if_splits)

lemma finish_fill_ok: "pool_ok p \<Longrightarrow> pool_ok (finish_fill i p)"
  by (auto simp: pool_ok_def finish_fill_def AList.distinct_delete AList.distinct_update
      counts_pos_delete counts_pos_update split: option.splits)

lemma prune_fields [simp]: "filling (prune i p) = filling p"
  by (simp add: prune_def lru_without_def)

lemma prune_ok: "pool_ok p \<Longrightarrow> pool_ok (prune i p)"
  using AList.delete_notin_dom [of i "ready p"] AList.dom_delete_subset [of i "ready p"]
  by (auto simp: pool_ok_def prune_def lru_without_def AList.distinct_delete
      intro: order_trans [OF length_filter_le])

lemma prune_pooled:
  assumes "pool_ok p" shows "pooled (prune i p) = pooled p"
  using pooled_delete [of "ready p" i] assms
  by (auto simp: prune_def lru_without_def pooled_def pool_ok_def ready_of_def)

text \<open>A pool with one id too many, as it is between a touch and the eviction.\<close>

definition pool_ok1 :: "'s PoolInner \<Rightarrow> bool" where
  "pool_ok1 p \<longleftrightarrow>
     distinct (map fst (ready p)) \<and> distinct (map fst (filling p)) \<and> distinct (lru p)
     \<and> fst ` set (ready p) \<subseteq> set (lru p)
     \<and> counts_pos (filling p)"

lemma pool_ok_1: "pool_ok p \<longleftrightarrow> pool_ok1 p \<and> length (lru p) \<le> MAX_POOLED_SNAPSHOTS"
  by (auto simp: pool_ok_def pool_ok1_def)

lemma touch_ok1: "pool_ok1 p \<Longrightarrow> pool_ok1 (touch i p)"
  by (auto simp: pool_ok1_def touch_def)

lemma touch_listed: "pool_ok p \<Longrightarrow> i \<in> set (lru p) \<Longrightarrow> pool_ok (touch i p)"
proof -
  assume p: "pool_ok p" and i: "i \<in> set (lru p)"
  have "length (filter (\<lambda>x. x \<noteq> i) (lru p)) < length (lru p)"
    using i by (metis (mono_tags, lifting) length_filter_less)
  with p touch_ok1 [of p i] show ?thesis by (auto simp: pool_ok_1 touch_def)
qed

lemma evict_result:
  assumes "pool_ok1 p" "evict p out = (p', out')"
  shows "pool_ok p' \<and> filling p' = filling p
    \<and> pooled p' + mset out' = pooled p + mset out
    \<and> lru p' = drop (length (lru p) - MAX_POOLED_SNAPSHOTS) (lru p)"
  using assms
proof (induction p out rule: evict.induct)
  case (1 p out)
  show ?case
  proof (cases "length (lru p) > MAX_POOLED_SNAPSHOTS")
    case False
    with 1 show ?thesis by (auto simp: evict.simps [of p] pool_ok_1)
  next
    case True
    define q where "q = p\<lparr>lru := tl (lru p), ready := AList.delete (hd (lru p)) (ready p)\<rparr>"
    obtain x xs where lru: "lru p = x # xs" using True by (cases "lru p") auto
    have "pool_ok1 q"
      using "1.prems"(1) AList.delete_notin_dom [of x "ready p"] AList.dom_delete_subset [of x "ready p"]
      by (auto simp: pool_ok1_def q_def lru AList.distinct_delete)
    moreover have "evict q (out @ ready_of (hd (lru p)) p) = (p', out')"
      using "1.prems"(2) True by (simp add: evict.simps [of p] q_def Let_def)
    ultimately have "pool_ok p' \<and> filling p' = filling q
      \<and> pooled p' + mset out' = pooled q + mset (out @ ready_of (hd (lru p)) p)
      \<and> lru p' = drop (length (lru q) - MAX_POOLED_SNAPSHOTS) (lru q)"
      using "1.IH" [OF True refl refl] by (simp add: q_def)
    moreover have "pooled q + mset (ready_of (hd (lru p)) p) = pooled p"
      using pooled_delete [of "ready p" "hd (lru p)"] "1.prems"(1)
      by (simp add: pooled_def q_def ready_of_def pool_ok1_def)
    moreover have "MAX_POOLED_SNAPSHOTS \<le> length xs" using True by (simp add: lru)
    ultimately show ?thesis
      by (auto simp: q_def lru ac_simps Suc_diff_le)
  qed
qed

lemma claim_step:
  assumes "pool_ok p" "claim i p = (o', p')"
  shows "pool_ok p' \<and> pooled p' + mset (case o' of None \<Rightarrow> [] | Some s \<Rightarrow> [s]) = pooled p"
proof (cases "map_of (ready p) i")
  case None
  with assms show ?thesis by (auto simp: claim_def)
next
  case (Some slots)
  show ?thesis
  proof (cases "slots = []")
    case True
    with Some assms show ?thesis by (auto simp: claim_def)
  next
    case False
    define q where "q = p\<lparr>ready := AList.update i (butlast slots) (ready p)\<rparr>"
    have i: "i \<in> fst ` set (ready p)" using Some by (force dest: map_of_SomeD)
    have q: "pool_ok q" "i \<in> set (lru q)"
      using assms(1) i by (auto simp: pool_ok_def q_def AList.distinct_update AList.dom_update)
    have "pooled q + mset slots = pooled p + mset (butlast slots)"
      using pooled_update [of "ready p" i "butlast slots"] assms(1) Some
      by (simp add: pooled_def q_def pool_ok_def)
    moreover have "mset slots = mset (butlast slots) + {#last slots#}"
      using False by (metis append_butlast_last_id mset.simps(1,2) mset_append)
    ultimately have "pooled q + {#last slots#} = pooled p" by simp
    moreover have "o' = Some (last slots)" "p' = prune i (touch i q)"
      using assms(2) Some False by (auto simp: claim_def q_def)
    moreover have "pooled (prune i (touch i q)) = pooled (touch i q)"
      using prune_pooled [OF touch_listed [OF q]] .
    moreover have "pooled (touch i q) = pooled q" by (simp add: touch_def pooled_def)
    ultimately show ?thesis using prune_ok [OF touch_listed [OF q]] by simp
  qed
qed

lemma begin_fill_result:
  assumes "pool_ok p" "0 < target" "begin_fill i target p = (pl, p')"
  shows "pool_ok p' \<and> pooled p' + mset (plan_evicted pl) = pooled p
    \<and> plan_spawn pl = target - (length (ready_of i p) + filling_of i p)
    \<and> filling_of i p' = filling_of i p + plan_spawn pl
    \<and> lru p' = drop (length (lru (touch i p)) - MAX_POOLED_SNAPSHOTS) (lru (touch i p))"
proof -
  define q where "q = touch i p"
  have same: "ready_of i q = ready_of i p" "filling_of i q = filling_of i p"
    by (simp_all add: q_def touch_def ready_of_def filling_of_def)
  define spawn where "spawn = target - (length (ready_of i q) + filling_of i q)"
  define q' where "q' = (if spawn > 0
    then q\<lparr>filling := AList.update i (filling_of i q + spawn) (filling q)\<rparr> else q)"
  obtain p2 out where e: "evict q' [] = (p2, out)" by fastforce
  have "pool_ok1 q" using assms(1) touch_ok1 [of p i] by (simp add: pool_ok_1 q_def)
  then have "pool_ok1 q'"
    by (auto simp: q'_def pool_ok1_def AList.distinct_update counts_pos_update)
  note ev = evict_result [OF this e]
  have "pooled q' = pooled p" by (simp add: q'_def q_def touch_def pooled_def)
  moreover have "pl = \<lparr>plan_spawn = spawn, plan_evicted = out\<rparr>" "p' = p2"
    using assms(2,3) e unfolding q'_def spawn_def
    by (auto simp: begin_fill_def q_def [symmetric] Let_def)
  moreover have "filling_of i q' = filling_of i q + spawn"
    by (auto simp: q'_def filling_of_def AList.update_conv')
  moreover have "lru q' = lru (touch i p)" by (simp add: q'_def q_def)
  moreover have "filling_of i p2 = filling_of i q'" using ev by (simp add: filling_of_def)
  ultimately show ?thesis using ev by (simp add: spawn_def same)
qed

lemma begin_fill_step:
  assumes "pool_ok p" "begin_fill i target p = (pl, p')"
  shows "pool_ok p' \<and> pooled p' + mset (plan_evicted pl) = pooled p"
proof (cases "target = 0")
  case True
  with assms show ?thesis by (auto simp: begin_fill_def)
next
  case False
  with begin_fill_result [OF assms(1) _ assms(2)] show ?thesis by simp
qed

lemma offer_step:
  assumes "pool_ok p" "offer i s p = (o', p')"
  shows "pool_ok p' \<and> pooled p' + mset (case o' of None \<Rightarrow> [] | Some s \<Rightarrow> [s]) = pooled p + {#s#}"
proof -
  define q where "q = finish_fill i p"
  have q: "pool_ok q" "pooled q = pooled p"
    using finish_fill_ok [OF assms(1)] by (simp_all add: q_def pooled_def)
  show ?thesis
  proof (cases "i \<in> set (lru q)")
    case False
    with assms(2) q show ?thesis by (auto simp: offer_def q_def [symmetric])
  next
    case True
    have "pooled (q\<lparr>ready := AList.update i (ready_of i q @ [s]) (ready q)\<rparr>) = pooled q + {#s#}"
      using pooled_update [of "ready q" i "ready_of i q @ [s]"] q(1)
      by (simp add: pooled_def ready_of_def pool_ok_def)
    moreover have "pool_ok (q\<lparr>ready := AList.update i (ready_of i q @ [s]) (ready q)\<rparr>)"
      using q(1) True by (auto simp: pool_ok_def AList.distinct_update AList.dom_update)
    ultimately show ?thesis using assms(2) True q by (auto simp: offer_def q_def [symmetric])
  qed
qed

lemma drain_step:
  assumes "pool_ok p" "drain o' p = (out, p')"
  shows "pool_ok p' \<and> pooled p' + mset out = pooled p"
proof (cases o')
  case None
  with assms show ?thesis by (auto simp: drain_def pool_ok_def pooled_def)
next
  case (Some i)
  have "pool_ok ((lru_without i p)\<lparr>ready := AList.delete i (ready p)\<rparr>)"
    using assms(1) AList.delete_notin_dom [of i "ready p"] AList.dom_delete_subset [of i "ready p"]
    by (auto simp: pool_ok_def lru_without_def AList.distinct_delete
        intro: order_trans [OF length_filter_le])
  with Some assms pooled_delete [of "ready p" i] show ?thesis
    by (auto simp: drain_def pooled_def ready_of_def pool_ok_def lru_without_def)
qed

interpretation slot_pool: conserving pool_step slots_in pooled pool_ok
proof
  fix st :: "'a PoolInner" and op :: "'a PoolOp"
  assume ok: "pool_ok st"
  have "pool_ok (snd (pool_step op st))
    \<and> pooled (snd (pool_step op st)) + mset (fst (pool_step op st)) = pooled st + slots_in op"
  proof (cases op)
    case (Claim i)
    with claim_step [OF ok, of i] show ?thesis by (cases "claim i st") simp
  next
    case (BeginFill i t)
    with begin_fill_step [OF ok, of i t] show ?thesis by (cases "begin_fill i t st") simp
  next
    case (Offer i s)
    with offer_step [OF ok, of i s] show ?thesis by (cases "offer i s st") simp
  next
    case (AbandonFill i)
    with prune_ok [OF finish_fill_ok [OF ok]] prune_pooled [OF finish_fill_ok [OF ok]] show ?thesis
      by (simp add: abandon_fill_def pooled_def [of st] pooled_def [of "finish_fill i st"])
  next
    case (Drain o')
    with drain_step [OF ok, of o'] show ?thesis by (cases "drain o' st") simp
  qed
  then show "pool_ok (snd (pool_step op st))"
    "pooled (snd (pool_step op st)) + mset (fst (pool_step op st)) = pooled st + slots_in op"
    by auto
qed

subsection \<open>Properties of the pool\<close>

text \<open>C25: no prepared slot is ever lost or handed out twice.  Over any sequence of claims, refills,
  offers, abandoned fills and drains, the slots offered are exactly those handed back, to a
  restore or for teardown, together with those still pooled; and at no time are more than
  \<open>MAX_POOLED_SNAPSHOTS\<close> snapshot ids pooled or slots held for an id that is not listed.\<close>

theorem pool_conserves_slots:
  "let (out, p) = run_ops pool_step ops pool_default
   in mset out + pooled p = sum_list (map slots_in ops)
      \<and> length (lru p) \<le> MAX_POOLED_SNAPSHOTS \<and> distinct (lru p)
      \<and> fst ` set (ready p) \<subseteq> set (lru p)"
proof -
  have ok: "pool_ok pool_default" by (simp add: pool_ok_def pool_default_def counts_pos_def)
  have "pooled pool_default = {#}" by (simp add: pooled_def pool_default_def)
  with slot_pool.run_conserves [OF ok, of ops] slot_pool.run_keeps [OF ok, of ops] show ?thesis
    by (auto simp: pool_ok_def case_prod_beta ac_simps)
qed

text \<open>a refill asks for exactly what is missing.  After planning a refill of an id towards a
  target, the slots ready for it and the fills in flight are at least the target, the number of
  prepares to run is the shortfall, and the id just touched is never the one evicted.\<close>

theorem refill_exact:
  assumes "pool_ok p" "0 < target" "begin_fill i target p = (pl, p')"
  shows "plan_spawn pl = target - (length (ready_of i p) + filling_of i p)
    \<and> filling_of i p' = filling_of i p + plan_spawn pl
    \<and> target \<le> length (ready_of i p) + filling_of i p'
    \<and> i \<in> set (lru p')"
proof -
  have "i \<in> set (drop (length (lru (touch i p)) - MAX_POOLED_SNAPSHOTS) (lru (touch i p)))"
    by (simp add: touch_def MAX_POOLED_SNAPSHOTS_def)
  with begin_fill_result [OF assms] show ?thesis by auto
qed

definition sample_pool :: "nat PoolInner" where
  "sample_pool = snd (run_ops pool_step [BeginFill ''a'' 2, Offer ''a'' 7] pool_default)"

theorem refill_exact_witness:
  "plan_spawn (fst (begin_fill ''a'' 3 sample_pool)) = 1
   \<and> ''a'' \<in> set (lru (snd (begin_fill ''a'' 3 sample_pool)))"
proof -
  have ok: "pool_ok pool_default" by (simp add: pool_ok_def pool_default_def counts_pos_def)
  have "pool_ok sample_pool"
    unfolding sample_pool_def by (rule slot_pool.run_keeps [OF ok])
  from refill_exact [OF this, of 3 "''a''"] show ?thesis
    by (cases "begin_fill ''a'' 3 sample_pool") (auto simp: sample_pool_def, code_simp)
qed

end
