(* ===== verification/Warm_Cache.thy ===== *)
theory Warm_Cache
  imports Computer_Types Computer_Runtime Slot_Pool "HOL-Library.Product_Lexorder"
begin

unbundle bit_operations_syntax

section \<open>The warm template cache\<close>

text \<open>
  \<open>sandbox/policy/warm.rs\<close> and the publish of \<open>sandbox/warm.rs\<close>: the key under which a booted
  template is cached, which specs may use the cache, which keys are evicted, and the publish that
  replaces and evicts snapshots of the catalog while draining the pool slots staged from them.

  SHA-256 comes from another crate and is the parameter \<open>sha256\<close> of \<open>warm_key\<close>.  The catalog is
  the list of its snapshots; a checkpoint's outcome, a failed listing or delete and the iteration
  order of the \<open>HashMap\<close> that collects the keys are arguments of the publish.
\<close>

subsection \<open>The key\<close>

definition MAX_WARM_KEYS :: nat where
  "MAX_WARM_KEYS = 2"

definition WARM_KEY_LABEL :: string where
  "WARM_KEY_LABEL = ''arcbox.warm_key''"

definition OS_BUILD_LABEL :: string where
  "OS_BUILD_LABEL = ''arcbox.os_build''"

definition TEMPLATE_LABEL :: string where
  "TEMPLATE_LABEL = ''arcbox.template''"

type_synonym byte = "8 word"

datatype WarmKey = WarmKey (hex: string)

text \<open>The signed fields are the 64-bit pattern \<open>to_le_bytes\<close> reads.\<close>

record FileFingerprint =
  fp_dev :: u64
  fp_ino :: u64
  fp_mtime :: u64
  fp_mtime_nsec :: u64
  fp_size :: u64

definition to_le_bytes :: "u64 \<Rightarrow> byte list" where
  "to_le_bytes x = map (\<lambda>k. ucast (drop_bit (8 * k) x)) [0..<8]"

definition as_bytes :: "string \<Rightarrow> byte list" where
  "as_bytes s = map (\<lambda>b. word_of_nat (of_char b)) s"

definition fingerprint_bytes :: "FileFingerprint \<Rightarrow> byte list" where
  "fingerprint_bytes f =
     concat (map to_le_bytes [fp_dev f, fp_ino f, fp_size f])
     @ concat (map to_le_bytes [fp_mtime f, fp_mtime_nsec f])"

definition os_build_bytes :: "string option \<Rightarrow> byte list" where
  "os_build_bytes o' = (case o' of None \<Rightarrow> [0] | Some build \<Rightarrow> [1] @ as_bytes build @ [0])"

text \<open>What is fed to the hasher, in order.\<close>

definition warm_preimage ::
  "ComputerSpec \<Rightarrow> FileFingerprint \<Rightarrow> FileFingerprint \<Rightarrow> string option \<Rightarrow> byte list" where
  "warm_preimage spec kernel_fp rootfs_fp os_build =
     os_build_bytes os_build
     @ concat (map (\<lambda>text. as_bytes text @ [0]) [spec_kernel spec, spec_rootfs spec, spec_boot_args spec])
     @ concat (map to_le_bytes [ucast (spec_vcpus spec), spec_memory_mib spec])
     @ concat (map fingerprint_bytes [kernel_fp, rootfs_fp])"

text \<open>\<open>{:x}\<close> of the digest: two lower-case digits per byte.\<close>

definition hex_byte :: "byte \<Rightarrow> string" where
  "hex_byte b = [hex_digit (unat b div 16), hex_digit (unat b mod 16)]"

definition warm_key ::
  "(byte list \<Rightarrow> byte list) \<Rightarrow> ComputerSpec \<Rightarrow> FileFingerprint \<Rightarrow> FileFingerprint \<Rightarrow> string option
   \<Rightarrow> WarmKey" where
  "warm_key sha256 spec kernel_fp rootfs_fp os_build =
     WarmKey (concat (map hex_byte (sha256 (warm_preimage spec kernel_fp rootfs_fp os_build))))"

subsection \<open>Eligibility and reserved labels\<close>

fun is_prefix_of :: "string \<Rightarrow> string \<Rightarrow> bool" where
  "is_prefix_of [] _ = True"
| "is_prefix_of (_ # _) [] = False"
| "is_prefix_of (p # ps) (x # xs) = (p = x \<and> is_prefix_of ps xs)"

fun contains_str :: "string \<Rightarrow> string \<Rightarrow> bool" where
  "contains_str p [] = (p = [])"
| "contains_str p (x # xs) = (is_prefix_of p (x # xs) \<or> contains_str p xs)"

text \<open>Of the configuration the check reads \<open>firecracker.warm_create\<close> alone.\<close>

definition warm_eligible :: "bool \<Rightarrow> ComputerSpec \<Rightarrow> bool \<Rightarrow> bool \<Rightarrow> bool" where
  "warm_eligible warm_create spec caller_supplied_boot relocatable \<longleftrightarrow>
     warm_create \<and> relocatable \<and> \<not> caller_supplied_boot
     \<and> net_mode (spec_network spec) = ''tap''
     \<and> \<not> contains_str ''ip='' (spec_boot_args spec)
     \<and> spec_mounts spec = []
     \<and> spec_ssh_public_key spec = None"

definition reject_reserved_labels :: "(string \<rightharpoonup> string) \<Rightarrow> (unit, ComputerError) result" where
  "reject_reserved_labels labels =
     (if labels WARM_KEY_LABEL \<noteq> None then
        Err (Config (''snapshot label '' @ WARM_KEY_LABEL @ '' is reserved for the warm-create cache''))
      else if labels OS_BUILD_LABEL \<noteq> None then
        Err (Config (''snapshot label '' @ OS_BUILD_LABEL
          @ '' is reserved for the checkpoint'' @ [CHR 0x27] @ ''s macOS build''))
      else if labels TEMPLATE_LABEL \<noteq> None then
        Err (Config (''snapshot label '' @ TEMPLATE_LABEL @ '' is reserved for the template catalog''))
      else Ok ())"

subsection \<open>Recency, single flight and eviction\<close>

record WarmCacheInner =
  recency :: "string list"
  publishing :: "string set"

definition warm_default :: WarmCacheInner where
  "warm_default = \<lparr>recency = [], publishing = {}\<rparr>"

definition warm_touch :: "WarmKey \<Rightarrow> WarmCacheInner \<Rightarrow> WarmCacheInner" where
  "warm_touch key c = c\<lparr>recency := filter (\<lambda>e. e \<noteq> hex key) (recency c) @ [hex key]\<rparr>"

definition begin_publish :: "WarmKey \<Rightarrow> WarmCacheInner \<Rightarrow> bool \<times> WarmCacheInner" where
  "begin_publish key c =
     (hex key \<notin> publishing c, c\<lparr>publishing := insert (hex key) (publishing c)\<rparr>)"

definition end_publish :: "WarmKey \<Rightarrow> WarmCacheInner \<Rightarrow> WarmCacheInner" where
  "end_publish key c = c\<lparr>publishing := publishing c - {hex key}\<rparr>"

text \<open>\<open>iter().position(..)\<close>.\<close>

fun position :: "'a \<Rightarrow> 'a list \<Rightarrow> nat option" where
  "position x [] = None"
| "position x (y # ys) = (if x = y then Some 0 else map_option Suc (position x ys))"

definition i64_of_usize :: "nat \<Rightarrow> int" where
  "i64_of_usize n = (if n < 2 ^ 63 then int n else 2 ^ 63 - 1)"

definition eviction_rank :: "string list \<Rightarrow> string \<times> instant \<Rightarrow> int \<times> instant" where
  "eviction_rank rec entry =
     ((case position (fst entry) rec of None \<Rightarrow> - 1 | Some p \<Rightarrow> i64_of_usize p), snd entry)"

definition plan_evictions ::
  "(string \<times> instant) list \<Rightarrow> WarmCacheInner \<Rightarrow> string list \<times> WarmCacheInner" where
  "plan_evictions catalog c =
     (let rec = filter (\<lambda>e. e \<in> fst ` set catalog) (recency c);
          c' = c\<lparr>recency := rec\<rparr>
      in if length catalog \<le> MAX_WARM_KEYS then ([], c')
         else (map fst (take (length catalog - MAX_WARM_KEYS)
                 (sort_key (eviction_rank rec) catalog)), c'))"

subsection \<open>Publishing\<close>

record WarmSnapshot =
  snap_id :: string
  snap_labels :: "string \<rightharpoonup> string"
  snap_created :: instant

record WarmEntry =
  we_id :: string
  we_key :: string
  we_created :: instant

definition warm_entry :: "WarmSnapshot \<Rightarrow> WarmEntry option" where
  "warm_entry s =
     map_option (\<lambda>key. \<lparr>we_id = snap_id s, we_key = key, we_created = snap_created s\<rparr>)
       (snap_labels s WARM_KEY_LABEL)"

text \<open>\<open>list_all\<close> sorts by creation time.\<close>

definition warm_entries :: "WarmSnapshot list \<Rightarrow> WarmEntry list" where
  "warm_entries cat = List.map_filter warm_entry (sort_key snap_created cat)"

text \<open>\<open>max_by_key\<close> returns the last of several maximal elements.\<close>

fun max_by_created :: "WarmEntry list \<Rightarrow> WarmEntry option" where
  "max_by_created [] = None"
| "max_by_created (e # es) =
     (case max_by_created es of
        None \<Rightarrow> Some e
      | Some m \<Rightarrow> if we_created e \<le> we_created m then Some m else Some e)"

definition find_warm_snapshot :: "WarmSnapshot list \<Rightarrow> WarmKey \<Rightarrow> string option" where
  "find_warm_snapshot cat key =
     map_option we_id (max_by_created (filter (\<lambda>e. we_key e = hex key) (warm_entries cat)))"

text \<open>The newest creation time per key, in order of first occurrence.\<close>

fun newest_per_key :: "WarmEntry list \<Rightarrow> (string \<times> instant) list \<Rightarrow> (string \<times> instant) list" where
  "newest_per_key [] acc = acc"
| "newest_per_key (e # es) acc =
     newest_per_key es
       (AList.update (we_key e)
          (case map_of acc (we_key e) of None \<Rightarrow> we_created e | Some at \<Rightarrow> max at (we_created e)) acc)"

datatype PublishFailure =
    Recoverable ComputerError
  | Frozen ComputerError

fun publish_failure :: "CheckpointFailure \<Rightarrow> PublishFailure" where
  "publish_failure (CheckpointFailure.Recoverable e) = PublishFailure.Recoverable e"
| "publish_failure (CheckpointFailure.Frozen e) = PublishFailure.Frozen e"

text \<open>
  What the outside decides during one publish: whether each listing of the catalog fails, the
  checkpoint's outcome (on success the id and creation time of the new snapshot), the iteration
  order of the \<open>HashMap\<close> and which deletes fail.
\<close>

record PublishIo =
  list_before :: "ComputerError option"
  list_after :: "ComputerError option"
  taken :: "(string \<times> instant, CheckpointFailure) result"
  hash_order :: "(string \<times> instant) list \<Rightarrow> (string \<times> instant) list"
  delete_fails :: "string \<Rightarrow> bool"

record 's WarmState =
  cache :: WarmCacheInner
  catalog :: "WarmSnapshot list"
  slot_pool :: "'s PoolInner"

definition delete_by_id :: "PublishIo \<Rightarrow> string \<Rightarrow> WarmSnapshot list \<Rightarrow> WarmSnapshot list" where
  "delete_by_id io i cat = (if delete_fails io i then cat else filter (\<lambda>s. snap_id s \<noteq> i) cat)"

definition superseded :: "WarmKey \<Rightarrow> string \<Rightarrow> string list \<Rightarrow> WarmEntry \<Rightarrow> bool" where
  "superseded key fresh evicted e \<longleftrightarrow>
     (we_key e = hex key \<and> we_id e \<noteq> fresh) \<or> we_key e \<in> set evicted"

fun delete_superseded ::
  "PublishIo \<Rightarrow> WarmKey \<Rightarrow> string \<Rightarrow> string list \<Rightarrow> WarmEntry list \<Rightarrow> 's WarmState \<Rightarrow> 's WarmState" where
  "delete_superseded io key fresh evicted [] w = w"
| "delete_superseded io key fresh evicted (e # es) w =
     delete_superseded io key fresh evicted es
       (if superseded key fresh evicted e
        then w\<lparr>slot_pool := snd (drain (Some (we_id e)) (slot_pool w)),
               catalog := delete_by_id io (we_id e) (catalog w)\<rparr>
        else w)"

definition publish_warm_snapshot ::
  "PublishIo \<Rightarrow> WarmKey \<Rightarrow> 's WarmState \<Rightarrow> (string option, PublishFailure) result \<times> 's WarmState" where
  "publish_warm_snapshot io key w =
     (case list_before io of
        Some e \<Rightarrow> (Err (PublishFailure.Recoverable e), w)
      | None \<Rightarrow>
          if \<exists>e\<in>set (warm_entries (catalog w)). we_key e = hex key then (Ok None, w)
          else (case taken io of
             Err failure \<Rightarrow> (Err (publish_failure failure), w)
           | Ok (fresh, at) \<Rightarrow>
               let w = w\<lparr>catalog := catalog w
                     @ [\<lparr>snap_id = fresh, snap_labels = [WARM_KEY_LABEL \<mapsto> hex key], snap_created = at\<rparr>],
                   cache := warm_touch key (cache w)\<rparr>
               in case list_after io of
                    Some e \<Rightarrow> (Err (PublishFailure.Recoverable e), w)
                  | None \<Rightarrow>
                      let entries = warm_entries (catalog w);
                          (evicted, c) = plan_evictions (hash_order io (newest_per_key entries [])) (cache w)
                      in (Ok (Some fresh),
                          delete_superseded io key fresh evicted entries (w\<lparr>cache := c\<rparr>))))"

definition publish_after_boot ::
  "PublishIo \<Rightarrow> WarmKey \<Rightarrow> 's WarmState \<Rightarrow> (unit, ComputerError) result \<times> 's WarmState" where
  "publish_after_boot io key w =
     (let (free, c) = begin_publish key (cache w)
      in if \<not> free then (Ok (), w\<lparr>cache := c\<rparr>)
         else let (published, w) = publish_warm_snapshot io key (w\<lparr>cache := c\<rparr>);
                  w = w\<lparr>cache := end_publish key (cache w)\<rparr>
              in case published of
                   Ok _ \<Rightarrow> (Ok (), w)
                 | Err (PublishFailure.Frozen error) \<Rightarrow> (Err error, w)
                 | Err (PublishFailure.Recoverable error) \<Rightarrow> (Ok (), w))"

subsection \<open>The preimage determines the boot shape\<close>

lemma to_le_bytes_length [simp]: "length (to_le_bytes x) = 8"
  by (simp add: to_le_bytes_def)

lemma to_le_bytes_inj [simp]: "to_le_bytes x = to_le_bytes y \<longleftrightarrow> x = y"
proof
  assume eq: "to_le_bytes x = to_le_bytes y"
  show "x = y"
  proof (rule bit_word_eqI)
    fix n :: nat
    assume n: "n < LENGTH(64)"
    then have "to_le_bytes x ! (n div 8) = to_le_bytes y ! (n div 8)" using eq by simp
    then have "(ucast (drop_bit (8 * (n div 8)) x) :: byte) = ucast (drop_bit (8 * (n div 8)) y)"
      using n nth_upt [of 0 "n div 8" 8] by (simp add: to_le_bytes_def)
    then have "bit (ucast (drop_bit (8 * (n div 8)) x) :: byte) (n mod 8)
      = bit (ucast (drop_bit (8 * (n div 8)) y) :: byte) (n mod 8)" by simp
    then show "bit x n = bit y n" by (simp add: bit_ucast_iff bit_drop_bit_eq)
  qed
qed simp

lemma le_append [simp]:
  "to_le_bytes x @ u = to_le_bytes y @ v \<longleftrightarrow> x = y \<and> u = v"
  by simp

definition nul_free :: "string \<Rightarrow> bool" where
  "nul_free s \<longleftrightarrow> CHR 0x00 \<notin> set s"

lemma char_byte_inj [simp]:
  "(word_of_nat (of_char c) :: byte) = word_of_nat (of_char d) \<longleftrightarrow> c = d"
proof
  assume "(word_of_nat (of_char c) :: byte) = word_of_nat (of_char d)"
  then have "unat (word_of_nat (of_char c) :: byte) = unat (word_of_nat (of_char d) :: byte)" by simp
  then have "(of_char c :: nat) = of_char d" by (simp add: unat_of_nat)
  then show "c = d" by simp
qed simp

lemma char_byte_zero [simp]: "(word_of_nat (of_char c) :: byte) = 0 \<longleftrightarrow> c = CHR 0x00"
  using char_byte_inj [of c "CHR 0x00"] by simp

lemma terminated_inj:
  assumes "nul_free s" "nul_free t"
  shows "as_bytes s @ 0 # u = as_bytes t @ 0 # v \<longleftrightarrow> s = t \<and> u = v"
  using assms
proof (induction s arbitrary: t)
  case Nil
  then show ?case by (cases t) (auto simp: as_bytes_def nul_free_def)
next
  case (Cons c s)
  then show ?case
    by (cases t) (auto simp: as_bytes_def nul_free_def dest: sym [of "word_of_nat _"])
qed

lemma fingerprint_inj:
  "fingerprint_bytes f @ u = fingerprint_bytes g @ v \<longleftrightarrow> f = g \<and> u = v"
  by (cases f; cases g) (auto simp: fingerprint_bytes_def)

lemma os_build_inj:
  assumes "pred_option nul_free a" "pred_option nul_free b"
  shows "os_build_bytes a @ u = os_build_bytes b @ v \<longleftrightarrow> a = b \<and> u = v"
  using assms by (cases a; cases b) (auto simp: os_build_bytes_def terminated_inj)

lemma ucast_u32_inj: "(ucast (a :: u32) :: u64) = ucast b \<longleftrightarrow> a = b"
proof
  assume eq: "(ucast a :: u64) = ucast b"
  show "a = b"
  proof (rule bit_word_eqI)
    fix n :: nat
    assume "n < LENGTH(32)"
    moreover have "bit (ucast a :: u64) n = bit (ucast b :: u64) n" using eq by simp
    ultimately show "bit a n = bit b n" by (simp add: bit_ucast_iff)
  qed
qed simp

lemma hex_digit_inj: "m < 16 \<Longrightarrow> n < 16 \<Longrightarrow> hex_digit m = hex_digit n \<longleftrightarrow> m = n"
proof -
  assume m: "m < 16" and n: "n < 16"
  have "hex_digit m = hex_digit n \<Longrightarrow> (of_char (hex_digit m) :: nat) = of_char (hex_digit n)" by simp
  with m n show ?thesis by (auto simp: hex_digit_def split: if_splits)
qed

lemma hex_byte_inj: "hex_byte a = hex_byte b \<longleftrightarrow> a = b"
proof
  assume eq: "hex_byte a = hex_byte b"
  have "unat a < 256" "unat b < 256"
    using unsigned_less [of a, where ?'a = nat] unsigned_less [of b, where ?'a = nat] by simp_all
  then have "unat a div 16 < 16" "unat b div 16 < 16" by simp_all
  with eq have "unat a div 16 = unat b div 16" "unat a mod 16 = unat b mod 16"
    by (simp_all add: hex_byte_def hex_digit_inj)
  then have "unat a = unat b" by (metis div_mult_mod_eq)
  then show "a = b" by (simp add: word_unat_eq_iff)
qed simp

lemma hex_bytes_inj: "concat (map hex_byte xs) = concat (map hex_byte ys) \<longleftrightarrow> xs = ys"
proof (induction xs arbitrary: ys)
  case Nil
  then show ?case by (cases ys) (auto simp: hex_byte_def)
next
  case (Cons x xs)
  show ?case
  proof (cases ys)
    case (Cons y ys')
    have "length (hex_byte x) = length (hex_byte y)" by (simp add: hex_byte_def)
    then show ?thesis using Cons Cons.IH [of ys'] by (simp add: hex_byte_inj)
  qed (auto simp: hex_byte_def)
qed

lemma warm_key_eq:
  "warm_key sha256 s k r b = warm_key sha256 s' k' r' b'
   \<longleftrightarrow> sha256 (warm_preimage s k r b) = sha256 (warm_preimage s' k' r' b')"
  by (simp add: warm_key_def hex_bytes_inj)

subsection \<open>Eviction ranks\<close>

lemma position_None [simp]: "position x xs = None \<longleftrightarrow> x \<notin> set xs"
  by (induction xs) auto

lemma position_bound: "position x xs = Some p \<Longrightarrow> p < length xs \<and> xs ! p = x"
  by (induction xs arbitrary: p) (auto split: if_splits)

lemma position_last:
  assumes "x \<notin> set xs"
  shows "position x (xs @ [x]) = Some (length xs)"
  using assms by (induction xs) auto

lemma take_drop_sorted:
  assumes "sorted (map f xs)" "x \<in> set (take n xs)" "y \<in> set (drop n xs)"
  shows "f x \<le> f y"
proof -
  have "sorted (map f (take n xs @ drop n xs))" using assms(1) by simp
  with assms(2,3) show ?thesis by (auto simp: sorted_append simp del: append_take_drop_id)
qed

lemma plan_evictions_ranked:
  assumes "distinct (map fst cat)" "plan_evictions cat c = (evicted, c')"
  shows "distinct evicted \<and> set evicted \<subseteq> fst ` set cat
    \<and> length evicted = length cat - MAX_WARM_KEYS
    \<and> recency c' = filter (\<lambda>e. e \<in> fst ` set cat) (recency c)
    \<and> (\<forall>e\<in>set cat. \<forall>k\<in>set cat. fst e \<in> set evicted \<and> fst k \<notin> set evicted
        \<longrightarrow> eviction_rank (recency c') e \<le> eviction_rank (recency c') k)"
proof (cases "length cat \<le> MAX_WARM_KEYS")
  case True
  with assms(2) show ?thesis by (auto simp: plan_evictions_def Let_def)
next
  case False
  define rec where "rec = filter (\<lambda>e. e \<in> fst ` set cat) (recency c)"
  define n where "n = length cat - MAX_WARM_KEYS"
  define ranked where "ranked = sort_key (eviction_rank rec) cat"
  have ev: "evicted = map fst (take n ranked)" and rec: "recency c' = rec"
    using assms(2) False by (auto simp: plan_evictions_def Let_def rec_def n_def ranked_def)
  have d: "distinct (map fst ranked)"
    using assms(1) by (simp add: ranked_def distinct_map)
  have "eviction_rank rec e \<le> eviction_rank rec k"
    if "e \<in> set cat" "k \<in> set cat" "fst e \<in> set evicted" "fst k \<notin> set evicted" for e k
  proof (rule take_drop_sorted [of "eviction_rank rec" ranked e n k])
    show "sorted (map (eviction_rank rec) ranked)" by (simp add: ranked_def)
    have inj: "inj_on fst (set ranked)" using d by (simp add: distinct_map)
    from that(3) obtain e' where e': "e' \<in> set (take n ranked)" "fst e' = fst e" by (auto simp: ev)
    with that(1) inj show "e \<in> set (take n ranked)"
      by (auto simp: ranked_def dest: in_set_takeD dest!: inj_onD)
    from that(2) have "k \<in> set (take n ranked @ drop n ranked)" by (simp add: ranked_def)
    with that(4) show "k \<in> set (drop n ranked)" by (auto simp: ev simp del: append_take_drop_id)
  qed
  moreover have "distinct evicted" using d by (simp add: ev take_map [symmetric])
  moreover have "set evicted \<subseteq> fst ` set cat"
  proof -
    have "set (take n ranked) \<subseteq> set cat" using set_take_subset [of n ranked] by (simp add: ranked_def)
    then show ?thesis by (auto simp: ev)
  qed
  moreover have "length evicted = length cat - MAX_WARM_KEYS" by (simp add: ev n_def ranked_def)
  ultimately show ?thesis unfolding rec by (simp add: rec_def)
qed

lemma most_recent_kept:
  assumes "distinct (map fst cat)" "plan_evictions cat (warm_touch key c) = (evicted, c')"
    and "length (recency c) < 2 ^ 63"
  shows "hex key \<notin> set evicted"
proof
  assume key: "hex key \<in> set evicted"
  note r = plan_evictions_ranked [OF assms(1,2)]
  let ?K = "fst ` set cat"
  define old where "old = filter (\<lambda>e. e \<in> ?K) (filter (\<lambda>e. e \<noteq> hex key) (recency c))"
  from key r obtain at where at: "(hex key, at) \<in> set cat" by auto
  then have in_cat: "hex key \<in> ?K" by force
  have rec: "recency c' = old @ [hex key]"
    using r in_cat by (simp add: warm_touch_def old_def)
  have small: "length old < 2 ^ 63"
    using assms(3) unfolding old_def by (meson le_less_trans length_filter_le)
  have top: "position (hex key) (recency c') = Some (length old)"
    unfolding rec by (rule position_last) (simp add: old_def)
  have "length evicted < length cat"
    using key r by (cases cat) (auto simp: MAX_WARM_KEYS_def)
  have "\<exists>k\<in>set cat. fst k \<notin> set evicted"
  proof (rule ccontr)
    assume "\<not> ?thesis"
    then have "set (map fst cat) \<subseteq> set evicted" by auto
    then have "card (set (map fst cat)) \<le> card (set evicted)" by (simp add: card_mono)
    then have "length cat \<le> length evicted"
      using assms(1) r by (simp add: distinct_card [of "map fst cat", simplified] distinct_card del: set_map)
    with \<open>length evicted < length cat\<close> show False by simp
  qed
  then obtain k where k: "k \<in> set cat" "fst k \<notin> set evicted" by blast
  then have "eviction_rank (recency c') (hex key, at) \<le> eviction_rank (recency c') k"
    using r at key by force
  then have le: "int (length old)
      \<le> (case position (fst k) (recency c') of None \<Rightarrow> - 1 | Some p \<Rightarrow> i64_of_usize p)"
    using small by (auto simp: eviction_rank_def top i64_of_usize_def less_eq_prod_def)
  then obtain p where p: "position (fst k) (recency c') = Some p"
    by (cases "position (fst k) (recency c')") auto
  with position_bound [OF p] le small have "p = length old"
    by (auto simp: rec i64_of_usize_def split: if_splits)
  with position_bound [OF p] have "fst k = hex key" by (simp add: rec)
  with key k show False by simp
qed

subsection \<open>What a publish leaves\<close>

lemma newest_per_key_keys:
  "distinct (map fst acc) \<Longrightarrow>
   distinct (map fst (newest_per_key es acc))
   \<and> fst ` set (newest_per_key es acc) = fst ` set acc \<union> we_key ` set es"
proof (induction es arbitrary: acc)
  case (Cons e es)
  show ?case
    using Cons.IH [of "AList.update (we_key e) _ acc"] Cons.prems
    by (simp add: AList.distinct_update AList.dom_update)
qed simp

lemma warm_entries_set:
  "set (warm_entries cat) = {e. \<exists>s\<in>set cat. warm_entry s = Some e}"
  by (force simp: warm_entries_def List.map_filter_def)

lemma max_by_created_None [simp]: "max_by_created es = None \<longleftrightarrow> es = []"
  by (induction es) (auto split: option.splits)

lemma max_by_created_in: "max_by_created es = Some m \<Longrightarrow> m \<in> set es"
  by (induction es) (auto split: option.splits if_splits)

lemma delete_superseded_catalog:
  assumes "\<And>i. \<not> delete_fails io i"
  shows "catalog (delete_superseded io key fresh evicted es w)
    = filter (\<lambda>s. snap_id s \<notin> we_id ` set (filter (superseded key fresh evicted) es)) (catalog w)"
  using assms
  by (induction es arbitrary: w) (auto simp: delete_by_id_def intro!: filter_cong)

lemma ready_of_drain:
  "ready_of i (snd (drain (Some j) p)) = (if i = j then [] else ready_of i p)"
  by (auto simp: drain_def ready_of_def AList.delete_conv' lru_without_def split: if_splits)

lemma delete_superseded_pool:
  "ready_of i (slot_pool (delete_superseded io key fresh evicted es w))
   = (if i \<in> we_id ` set (filter (superseded key fresh evicted) es) then [] else ready_of i (slot_pool w))"
  by (induction es arbitrary: w) (auto simp: ready_of_drain)

lemma delete_superseded_cache [simp]:
  "cache (delete_superseded io key fresh evicted es w) = cache w"
  by (induction es arbitrary: w) auto

text \<open>The keys kept by an eviction plan are at most the cap.\<close>

lemma kept_keys:
  assumes "distinct (map fst cat)" "plan_evictions cat c = (evicted, c')"
  shows "card (fst ` set cat - set evicted) \<le> MAX_WARM_KEYS"
proof -
  note r = plan_evictions_ranked [OF assms]
  have "card (fst ` set cat) = length cat" using assms(1) by (metis distinct_card length_map set_map)
  moreover have "card (set evicted) = length cat - MAX_WARM_KEYS" using r by (simp add: distinct_card)
  ultimately show ?thesis using r by (simp add: card_Diff_subset)
qed

text \<open>With distinct ids, a snapshot is named by a list of entries exactly when its own entry is in it.\<close>

lemma named_iff:
  assumes "distinct (map snap_id cat)" "s \<in> set cat"
  shows "snap_id s \<in> we_id ` set (filter P (warm_entries cat))
    \<longleftrightarrow> (\<exists>e. warm_entry s = Some e \<and> P e)"
proof
  assume "snap_id s \<in> we_id ` set (filter P (warm_entries cat))"
  then obtain e s' where e: "s' \<in> set cat" "warm_entry s' = Some e" "P e" "snap_id s = we_id e"
    by (auto simp: warm_entries_set)
  then have "snap_id s' = snap_id s" by (auto simp: warm_entry_def)
  with assms e(1) have "s' = s" by (meson distinct_map inj_onD)
  with e show "\<exists>e. warm_entry s = Some e \<and> P e" by blast
next
  assume "\<exists>e. warm_entry s = Some e \<and> P e"
  then obtain e where "warm_entry s = Some e" "P e" by blast
  moreover from this(1) have "we_id e = snap_id s" by (auto simp: warm_entry_def)
  ultimately show "snap_id s \<in> we_id ` set (filter P (warm_entries cat))"
    using assms(2) by (force simp: warm_entries_set)
qed

text \<open>The catalog left by a clean deletion of everything superseded.\<close>

lemma survivors:
  assumes d: "distinct (map snap_id cat)"
    and s0: "s0 \<in> set cat" "warm_entry s0 = Some e0" "we_key e0 = hex key" "we_id e0 = fresh"
    and kept: "hex key \<notin> set evicted"
    and few: "card (we_key ` set (warm_entries cat) - set evicted) \<le> MAX_WARM_KEYS"
    and cat': "cat' = filter (\<lambda>s. snap_id s
        \<notin> we_id ` set (filter (superseded key fresh evicted) (warm_entries cat))) cat"
  shows "card (we_key ` set (warm_entries cat')) \<le> MAX_WARM_KEYS"
    and "find_warm_snapshot cat' key = Some fresh"
    and "filter (\<lambda>s. warm_entry s = None) cat' = filter (\<lambda>s. warm_entry s = None) cat"
proof -
  have in': "s \<in> set cat' \<longleftrightarrow> s \<in> set cat \<and> \<not> (\<exists>e. warm_entry s = Some e \<and> superseded key fresh evicted e)"
    for s using named_iff [OF d] by (auto simp: cat')
  have "we_key ` set (warm_entries cat') \<subseteq> we_key ` set (warm_entries cat) - set evicted"
    by (auto simp: warm_entries_set in' superseded_def intro!: imageI)
  then show "card (we_key ` set (warm_entries cat')) \<le> MAX_WARM_KEYS"
    using few by (meson List.finite_set card_mono finite_Diff finite_imageI le_trans)
  have "e0 \<in> set (filter (\<lambda>e. we_key e = hex key) (warm_entries cat'))"
    using s0 kept by (auto simp: warm_entries_set in' superseded_def)
  then obtain m where m: "max_by_created (filter (\<lambda>e. we_key e = hex key) (warm_entries cat')) = Some m"
    by (cases "max_by_created (filter (\<lambda>e. we_key e = hex key) (warm_entries cat'))")
      (auto simp: filter_empty_conv)
  from max_by_created_in [OF m] have "we_id m = fresh" by (auto simp: warm_entries_set in' superseded_def)
  with m show "find_warm_snapshot cat' key = Some fresh" by (simp add: find_warm_snapshot_def)
  show "filter (\<lambda>s. warm_entry s = None) cat' = filter (\<lambda>s. warm_entry s = None) cat"
    using named_iff [OF d] unfolding cat' filter_filter by (intro filter_cong) auto
qed

subsection \<open>Properties of the warm cache\<close>

text \<open>a warm key stands for one boot shape.  Two keys are equal exactly when the digests of
  their preimages are, and, for texts without a NUL byte, the preimages are equal only when the
  macOS build, the kernel, rootfs and boot arguments, the geometry and both file fingerprints are:
  a stale or foreign snapshot can be restored only through a collision of the hash itself.\<close>

theorem warm_key_binds_shape:
  assumes "list_all nul_free [spec_kernel s, spec_rootfs s, spec_boot_args s,
      spec_kernel s', spec_rootfs s', spec_boot_args s']"
    and "pred_option nul_free b" "pred_option nul_free b'"
  shows "(warm_key sha256 s k r b = warm_key sha256 s' k' r' b'
      \<longleftrightarrow> sha256 (warm_preimage s k r b) = sha256 (warm_preimage s' k' r' b'))
    \<and> (warm_preimage s k r b = warm_preimage s' k' r' b'
      \<longleftrightarrow> b = b' \<and> spec_kernel s = spec_kernel s' \<and> spec_rootfs s = spec_rootfs s'
        \<and> spec_boot_args s = spec_boot_args s' \<and> spec_vcpus s = spec_vcpus s'
        \<and> spec_memory_mib s = spec_memory_mib s' \<and> k = k' \<and> r = r')"
proof -
  have [simp]: "fingerprint_bytes f = fingerprint_bytes g \<longleftrightarrow> f = g" for f g
    using fingerprint_inj [of f "[]" g "[]"] by simp
  show ?thesis
    using assms
    by (auto simp: warm_key_eq warm_preimage_def os_build_inj terminated_inj fingerprint_inj ucast_u32_inj)
qed

definition sample_fp :: FileFingerprint where
  "sample_fp = \<lparr>fp_dev = 5, fp_ino = 7, fp_mtime = 1700000000, fp_mtime_nsec = 123, fp_size = 67108864\<rparr>"

text \<open>A stand-in for the digest: the first 32 bytes, as a concrete function of the input.\<close>

definition sample_digest :: "byte list \<Rightarrow> byte list" where
  "sample_digest xs = take 32 (rev xs)"

theorem warm_key_binds_shape_witness:
  "warm_key sample_digest default_spec sample_fp sample_fp (Some ''25A'')
     = warm_key sample_digest default_spec sample_fp sample_fp (Some ''25A'')
   \<and> warm_preimage default_spec sample_fp sample_fp (Some ''25A'')
     \<noteq> warm_preimage default_spec sample_fp sample_fp None"
  using warm_key_binds_shape [of default_spec default_spec "Some ''25A''" None sample_digest
      sample_fp sample_fp sample_fp sample_fp]
  by (simp add: default_spec_def nul_free_def)


definition sample_publish_io :: PublishIo where
  "sample_publish_io = \<lparr>list_before = None, list_after = None, taken = Ok (''s3'', 30),
     hash_order = rev, delete_fails = (\<lambda>_. False)\<rparr>"

definition warm_snap :: "string \<Rightarrow> string \<Rightarrow> instant \<Rightarrow> WarmSnapshot" where
  "warm_snap i key at = \<lparr>snap_id = i, snap_labels = [WARM_KEY_LABEL \<mapsto> key], snap_created = at\<rparr>"

definition sample_warm :: "nat WarmState" where
  "sample_warm = \<lparr>cache = warm_default,
     catalog = [warm_snap ''s1'' ''k1'' 10, warm_snap ''s2'' ''k2'' 20,
       \<lparr>snap_id = ''own'', snap_labels = Map.empty, snap_created = 5\<rparr>],
     slot_pool = pool_default\<lparr>ready := [(''s1'', [7])], lru := [''s1'']\<rparr>\<rparr>"


text \<open>populating the cache never fails a healthy boot and is single flight.  After a boot the
  publish reports an error only for a checkpoint that left the guest frozen; a boot that finds the
  key's publish in flight changes neither catalog nor pool; and unless it was already in flight,
  the key's slot is free again afterwards whatever happened.\<close>

theorem publish_is_best_effort:
  "case publish_after_boot io key w of (res, w') \<Rightarrow>
     (is_ok res \<or> (\<exists>error. res = Err error \<and> taken io = Err (CheckpointFailure.Frozen error)))
     \<and> (if hex key \<in> publishing (cache w)
        then res = Ok () \<and> w' = w
        else hex key \<notin> publishing (cache w')
          \<and> publishing (cache w') = publishing (cache w)
          \<and> fst (begin_publish key (cache w')))"
proof (cases "hex key \<in> publishing (cache w)")
  case True
  then show ?thesis by (simp add: publish_after_boot_def begin_publish_def insert_absorb)
next
  case False
  define c where "c = (cache w)\<lparr>publishing := insert (hex key) (publishing (cache w))\<rparr>"
  obtain res w' where pub: "publish_warm_snapshot io key (w\<lparr>cache := c\<rparr>) = (res, w')" by fastforce
  have pc: "publishing (cache w') = insert (hex key) (publishing (cache w))"
    using pub by (auto simp: publish_warm_snapshot_def c_def Let_def warm_touch_def plan_evictions_def
        split: option.splits if_splits sum.splits prod.splits)
  have "res \<noteq> Err (PublishFailure.Frozen e) \<or> taken io = Err (CheckpointFailure.Frozen e)" for e
    using pub by (auto simp: publish_warm_snapshot_def Let_def
        elim: publish_failure.elims split: option.splits if_splits sum.splits prod.splits)
  with False pc show ?thesis
    by (auto simp: publish_after_boot_def begin_publish_def c_def [symmetric] pub end_publish_def Let_def
        split: sum.splits PublishFailure.splits)
qed

end
