(* ===== verification/Vm_Machine.thy ===== *)
theory Vm_Machine
  imports Statig
begin

section \<open>The System VM's state machine\<close>

text \<open>
  The decision core of \<open>arcbox-engine/src/vm_lifecycle/machine.rs\<close>: one handler per state and
  superstate, in the source's order, writing the effects the actor then executes.  Also the public
  states of \<open>types.rs\<close>, the retry policy of \<open>recovery.rs\<close> and the failure counter of
  \<open>health.rs\<close>.
\<close>

subsection \<open>Public states\<close>

datatype VmLifecycleState =
    NotExist | Creating | Created | Starting | Running | Idle | Stopping | Stopped | Failed

definition is_ready :: "VmLifecycleState \<Rightarrow> bool" where
  "is_ready s \<longleftrightarrow> s \<in> {VmLifecycleState.Running, VmLifecycleState.Idle}"

definition needs_start :: "VmLifecycleState \<Rightarrow> bool" where
  "needs_start s \<longleftrightarrow>
     s \<in> {VmLifecycleState.NotExist, VmLifecycleState.Created, VmLifecycleState.Stopped,
          VmLifecycleState.Failed}"

fun vm_as_str :: "VmLifecycleState \<Rightarrow> string" where
  "vm_as_str VmLifecycleState.NotExist = ''not_exist''"
| "vm_as_str VmLifecycleState.Creating = ''creating''"
| "vm_as_str VmLifecycleState.Created = ''created''"
| "vm_as_str VmLifecycleState.Starting = ''starting''"
| "vm_as_str VmLifecycleState.Running = ''running''"
| "vm_as_str VmLifecycleState.Idle = ''idle''"
| "vm_as_str VmLifecycleState.Stopping = ''stopping''"
| "vm_as_str VmLifecycleState.Stopped = ''stopped''"
| "vm_as_str VmLifecycleState.Failed = ''failed''"

datatype MachineState = Created | Starting | Running | Stopping | Stopped

fun from_machine_state :: "MachineState \<Rightarrow> VmLifecycleState" where
  "from_machine_state MachineState.Created = VmLifecycleState.Created"
| "from_machine_state MachineState.Starting = VmLifecycleState.Starting"
| "from_machine_state MachineState.Running = VmLifecycleState.Running"
| "from_machine_state MachineState.Stopping = VmLifecycleState.Stopping"
| "from_machine_state MachineState.Stopped = VmLifecycleState.Stopped"

subsection \<open>Events and effects\<close>

datatype VmEvent =
    Start bool u64
  | Activity
  | AgentReady
  | Failure
  | IdleTimeout
  | Stop
  | Stopped
  | Removed
  | ForceStop
  | StopStorage
  | StopUnready
  | GuestReset u64

datatype VmNotify = Started | Idle | Stopped

datatype VmEffect =
    SpawnBoot bool u64
  | SpawnStop
  | SpawnStorageStop
  | SpawnReboot u64
  | AbortInflight
  | RemoveMachine
  | BumpGeneration
  | Publish VmNotify
  | ReadyWaiters
  | FailWaiters string

record VmEffects =
  vm_items :: "VmEffect list"

definition vm_emit :: "VmEffect \<Rightarrow> VmEffects \<Rightarrow> VmEffects" where
  "vm_emit f c = c\<lparr>vm_items := vm_items c @ [f]\<rparr>"

definition vm_take :: "VmEffects \<Rightarrow> VmEffect list \<times> VmEffects" where
  "vm_take c = (vm_items c, c\<lparr>vm_items := []\<rparr>)"

datatype VmMState =
    NotExist | Created | Stopped | Failed | Creating | Starting | Running | Idle | Stopping | Removing

type_synonym vm_handler = "(VmMState, VmEvent, VmEffects) handler"

definition vm_force_stop :: "VmEffects \<Rightarrow> VmMState Outcome \<times> VmEffects" where
  "vm_force_stop c =
     (let c = vm_emit VmEffect.AbortInflight c;
          c = vm_emit VmEffect.RemoveMachine c;
          c = vm_emit (VmEffect.FailWaiters ''force stopped'') c
      in (Transition VmMState.Removing, c))"

subsection \<open>Handlers\<close>

fun vm_managed_h :: vm_handler where
  "vm_managed_h VmEvent.StopUnready c = (Transition VmMState.Stopping, vm_emit VmEffect.SpawnStop c)"
| "vm_managed_h VmEvent.StopStorage c =
     (Transition VmMState.Stopping,
      vm_emit (VmEffect.FailWaiters ''storage recovery stopped'') (vm_emit VmEffect.SpawnStorageStop c))"
| "vm_managed_h VmEvent.ForceStop c = vm_force_stop c"
| "vm_managed_h VmEvent.Failure c = (Transition VmMState.Failed, c)"
| "vm_managed_h _ c = (Handled, c)"

fun vm_resting_h :: vm_handler where
  "vm_resting_h (VmEvent.Start create timeout_ms) c =
     (Transition (if create then VmMState.Creating else VmMState.Starting),
      vm_emit (VmEffect.SpawnBoot create timeout_ms) c)"
| "vm_resting_h _ c = (Super, c)"

definition vm_not_exist_h :: vm_handler where "vm_not_exist_h e c = (Super, c)"

definition vm_created_h :: vm_handler where "vm_created_h e c = (Super, c)"

definition vm_stopped_h :: vm_handler where "vm_stopped_h e c = (Super, c)"

definition vm_failed_h :: vm_handler where "vm_failed_h e c = (Super, c)"

fun vm_booting_h :: vm_handler where
  "vm_booting_h VmEvent.AgentReady c =
     (Transition VmMState.Running,
      vm_emit VmEffect.ReadyWaiters (vm_emit (VmEffect.Publish VmNotify.Started) c))"
| "vm_booting_h _ c = (Super, c)"

definition vm_creating_h :: vm_handler where "vm_creating_h e c = (Super, c)"

definition vm_starting_h :: vm_handler where "vm_starting_h e c = (Super, c)"

fun vm_active_h :: vm_handler where
  "vm_active_h VmEvent.Stop c = (Transition VmMState.Stopping, vm_emit VmEffect.SpawnStop c)"
| "vm_active_h (VmEvent.GuestReset timeout_ms) c =
     (Transition VmMState.Starting,
      vm_emit (VmEffect.SpawnReboot timeout_ms) (vm_emit VmEffect.BumpGeneration c))"
| "vm_active_h _ c = (Super, c)"

fun vm_running_h :: vm_handler where
  "vm_running_h VmEvent.IdleTimeout c = (Transition VmMState.Idle, vm_emit (VmEffect.Publish VmNotify.Idle) c)"
| "vm_running_h VmEvent.Activity c = (Handled, c)"
| "vm_running_h (VmEvent.Start _ _) c = (Handled, c)"
| "vm_running_h _ c = (Super, c)"

fun vm_idle_h :: vm_handler where
  "vm_idle_h VmEvent.Activity c = (Transition VmMState.Running, c)"
| "vm_idle_h (VmEvent.Start _ _) c = (Transition VmMState.Running, c)"
| "vm_idle_h _ c = (Super, c)"

fun vm_stopping_h :: vm_handler where
  "vm_stopping_h VmEvent.Stopped c =
     (Transition VmMState.Stopped,
      vm_emit (VmEffect.Publish VmNotify.Stopped) (vm_emit VmEffect.BumpGeneration c))"
| "vm_stopping_h _ c = (Super, c)"

fun vm_removing_h :: vm_handler where
  "vm_removing_h VmEvent.Removed c =
     (Transition VmMState.NotExist,
      vm_emit (VmEffect.Publish VmNotify.Stopped) (vm_emit VmEffect.BumpGeneration c))"
| "vm_removing_h VmEvent.ForceStop c = (Handled, c)"
| "vm_removing_h _ c = (Super, c)"

text \<open>The hierarchy the attributes declare, innermost handler first.\<close>

fun vm_handlers :: "VmMState \<Rightarrow> vm_handler list" where
  "vm_handlers VmMState.NotExist = [vm_not_exist_h, vm_resting_h, vm_managed_h]"
| "vm_handlers VmMState.Created = [vm_created_h, vm_resting_h, vm_managed_h]"
| "vm_handlers VmMState.Stopped = [vm_stopped_h, vm_resting_h, vm_managed_h]"
| "vm_handlers VmMState.Failed = [vm_failed_h, vm_resting_h, vm_managed_h]"
| "vm_handlers VmMState.Creating = [vm_creating_h, vm_booting_h, vm_managed_h]"
| "vm_handlers VmMState.Starting = [vm_starting_h, vm_booting_h, vm_managed_h]"
| "vm_handlers VmMState.Running = [vm_running_h, vm_active_h, vm_managed_h]"
| "vm_handlers VmMState.Idle = [vm_idle_h, vm_active_h, vm_managed_h]"
| "vm_handlers VmMState.Stopping = [vm_stopping_h, vm_managed_h]"
| "vm_handlers VmMState.Removing = [vm_removing_h, vm_managed_h]"

fun vm_to_public :: "VmMState \<Rightarrow> VmLifecycleState" where
  "vm_to_public VmMState.NotExist = VmLifecycleState.NotExist"
| "vm_to_public VmMState.Creating = VmLifecycleState.Creating"
| "vm_to_public VmMState.Created = VmLifecycleState.Created"
| "vm_to_public VmMState.Starting = VmLifecycleState.Starting"
| "vm_to_public VmMState.Running = VmLifecycleState.Running"
| "vm_to_public VmMState.Idle = VmLifecycleState.Idle"
| "vm_to_public VmMState.Stopping = VmLifecycleState.Stopping"
| "vm_to_public VmMState.Removing = VmLifecycleState.Stopping"
| "vm_to_public VmMState.Stopped = VmLifecycleState.Stopped"
| "vm_to_public VmMState.Failed = VmLifecycleState.Failed"

text \<open>The one function that meets the dispatch contract for these handlers.\<close>

definition vm_step :: "VmMState \<Rightarrow> VmEvent \<Rightarrow> VmEffects \<Rightarrow> VmMState \<times> VmEffects" where
  "vm_step s e c = bubble s (vm_handlers s) e c"

lemma statig_vm: "statig vm_handlers vm_step"
  using statig_bubble [of vm_handlers] by (simp add: vm_step_def [abs_def])

interpretation vm_statig: statig vm_handlers vm_step
  by (rule statig_vm)

lemma statig_vm_unique:
  assumes "statig vm_handlers hw"
  shows "hw = vm_step"
  using statig.handle_bubble [OF assms] by (intro ext) (simp add: vm_step_def)

lemmas vm_handler_defs = vm_step_def vm_not_exist_h_def vm_created_h_def vm_stopped_h_def vm_failed_h_def
  vm_creating_h_def vm_starting_h_def vm_force_stop_def vm_emit_def Let_def

subsection \<open>Retry policy\<close>

datatype BackoffStrategy =
    Fixed duration
  | Exponential (initial: duration) (max_delay: duration)

definition default_backoff :: BackoffStrategy where
  "default_backoff = Exponential (nanos_of_millis 500) (nanos_of_secs 10)"

datatype VmRecoveryAction =
    RetryAfter duration
  | GiveUp string

record RecoveryPolicy =
  max_retries :: u32
  backoff :: BackoffStrategy
  retries :: u32

definition policy_new :: "u32 \<Rightarrow> BackoffStrategy \<Rightarrow> RecoveryPolicy" where
  "policy_new m b = \<lparr>max_retries = m, backoff = b, retries = 0\<rparr>"

text \<open>\<open>Duration::MAX\<close>, at which \<open>saturating_mul\<close> clamps.\<close>

definition duration_max :: duration where
  "duration_max = (2 ^ 64 - 1) * 1000000000 + 999999999"

definition checked_shl_one :: "u32 \<Rightarrow> u32 option" where
  "checked_shl_one n = (if n < 32 then Some (push_bit (unat n) 1) else None)"

definition handle_failure :: "string \<Rightarrow> RecoveryPolicy \<Rightarrow> VmRecoveryAction \<times> RecoveryPolicy" where
  "handle_failure error p =
     (let n = retries p;
          p' = p\<lparr>retries := n + 1\<rparr>
      in if n \<ge> max_retries p then (GiveUp error, p')
         else (RetryAfter (case backoff p of
                 Fixed d \<Rightarrow> d
               | Exponential i m \<Rightarrow>
                   let multiplier = unwrap_or (- 1) (checked_shl_one n);
                       delay = min duration_max (i * unat multiplier)
                   in min delay m), p'))"

definition policy_reset :: "RecoveryPolicy \<Rightarrow> RecoveryPolicy" where
  "policy_reset p = p\<lparr>retries := 0\<rparr>"

subsection \<open>Health counter\<close>

record HealthMonitor =
  max_failures :: u32
  failures :: u32
  shutdown :: bool

definition health_new :: "u32 \<Rightarrow> HealthMonitor" where
  "health_new m = \<lparr>max_failures = m, failures = 0, shutdown = False\<rparr>"

definition is_healthy :: "HealthMonitor \<Rightarrow> bool" where
  "is_healthy h \<longleftrightarrow> failures h < max_failures h"

definition record_success :: "HealthMonitor \<Rightarrow> HealthMonitor" where
  "record_success h = h\<lparr>failures := 0\<rparr>"

definition record_failure :: "HealthMonitor \<Rightarrow> bool \<times> HealthMonitor" where
  "record_failure h = (failures h + 1 \<ge> max_failures h, h\<lparr>failures := failures h + 1\<rparr>)"

definition health_stop :: "HealthMonitor \<Rightarrow> HealthMonitor" where
  "health_stop h = h\<lparr>shutdown := True\<rparr>"

end
