(* ===== verification/Common_Error.thy ===== *)
theory Common_Error
  imports ArcPrelude
begin

section \<open>The shared error type\<close>

text \<open>The variants and texts of \<open>src/common/arcbox-error/src/common.rs\<close>, which the crates wrap.\<close>

datatype CommonError =
    Io string | Config string | NotFound string | AlreadyExists string | InvalidState string
  | Timeout string | PermissionDenied string | Internal string

fun common_error_text :: "CommonError \<Rightarrow> string" where
  "common_error_text (CommonError.Io m) = ''I/O error: '' @ m"
| "common_error_text (CommonError.Config m) = ''configuration error: '' @ m"
| "common_error_text (CommonError.NotFound m) = ''not found: '' @ m"
| "common_error_text (CommonError.AlreadyExists m) = ''already exists: '' @ m"
| "common_error_text (CommonError.InvalidState m) = ''invalid state: '' @ m"
| "common_error_text (CommonError.Timeout m) = ''timeout: '' @ m"
| "common_error_text (CommonError.PermissionDenied m) = ''permission denied: '' @ m"
| "common_error_text (CommonError.Internal m) = ''internal error: '' @ m"

end
