(* ===== verification/Vm_Actor.thy ===== *)
theory Vm_Actor
  imports Vm_Machine Common_Error
begin

section \<open>The System VM's lifecycle actor\<close>

text \<open>
  \<open>arcbox-engine/src/vm_lifecycle/actor.rs\<close> and \<open>actor/storage.rs\<close>: the one task that owns the
  state machine, executes its effects and answers the callers of the facade.  The actor never
  awaits inside a handler, so a handler is one step on the record \<open>LifecycleActor\<close>.

  What a handler reads from outside is the argument \<open>VmEnv\<close> of the step: the machine manager's
  answers (whether storage is available, the machine record's state, the CID, whether the VM
  stopped itself), the clock, the configuration and the facade's counters.  What it sends is
  appended to \<open>out\<close>: replies, spawned and aborted sub-tasks, bus events, balloon commands and
  cancelled tokens.  A reply channel is a number, a sub-task is the epoch it was spawned under and
  what it runs.  The epoch is a natural number: the 64-bit counter of the source does not wrap
  before \<open>2 ^ 64\<close> sub-tasks.  \<open>hw\<close> is the dispatch of the state machine crate.
\<close>

subsection \<open>Errors\<close>

text \<open>The payload of a variant that wraps another crate's error is that error's own text.\<close>

datatype EngineError =
    Common CommonError
  | Vmm string
  | Snapshot string
  | Vm string
  | Machine string
  | Agent int string
  | Transport string string
  | Net string
  | Image string
  | Persistence string
  | LockPoisoned

fun engine_error_text :: "EngineError \<Rightarrow> string" where
  "engine_error_text (EngineError.Common e) = common_error_text e"
| "engine_error_text (EngineError.Vmm m) = ''VMM error: '' @ m"
| "engine_error_text (EngineError.Snapshot m) = ''snapshot error: '' @ m"
| "engine_error_text (EngineError.Vm m) = ''VM error: '' @ m"
| "engine_error_text (EngineError.Machine m) = ''machine error: '' @ m"
| "engine_error_text (EngineError.Agent code m) = m"
| "engine_error_text (EngineError.Transport context source) = context @ '': '' @ source"
| "engine_error_text (EngineError.Net m) = ''network error: '' @ m"
| "engine_error_text (EngineError.Image m) = m"
| "engine_error_text (EngineError.Persistence m) = ''persistence error: '' @ m"
| "engine_error_text EngineError.LockPoisoned = ''internal lock poisoned''"

definition invalid_state :: "string \<Rightarrow> EngineError" where
  "invalid_state m = EngineError.Common (CommonError.InvalidState m)"

subsection \<open>Commands, completions and the actor\<close>

type_synonym reply = nat

text \<open>A cancellation token, by identity.\<close>

type_synonym token = nat

text \<open>A reservation, by the machine manager it was made at.\<close>

datatype StorageMaintenance = StorageMaintenance (reserved_at: nat)

datatype Command =
    CheckStorage StorageMaintenance reply
  | StopStorage StorageMaintenance reply
  | ResumeStorage StorageMaintenance token reply
  | EnsureReady duration reply
  | Shutdown reply
  | ForceStop reply
  | Activity

datatype InternalEvent =
    AgentReady
  | BootFailed string
  | Stopped
  | StopFailed string
  | Removed
  | RemoveFailed string

datatype Job =
    RunBoot bool duration
  | RunStorageBoot StorageMaintenance "token option" duration
  | RunStop
  | RunStorageStop StorageMaintenance (joins: "nat option")
  | RunReboot duration
  | RunRemove

datatype SubTask = SubTask (task_epoch: nat) (task_job: Job)

record Completion =
  completion_epoch :: nat
  completion_outcome :: InternalEvent

datatype BalloonCommand = EnterIdle | ExitIdle

datatype VmOut =
    ReadyReply reply "(u32, EngineError) result"
  | UnitReply reply "(unit, EngineError) result"
  | Spawned SubTask
  | AbortedTask SubTask
  | Published VmNotify
  | Balloon BalloonCommand
  | CancelledToken token
  | Panicked

record VmEnv =
  env_manager :: nat
  env_storage :: "(unit, EngineError) result"
  env_machine :: "MachineState option"
  env_cid :: "u32 option"
  env_self_stopped :: "bool option"
  env_cancelled :: "token \<Rightarrow> bool"
  env_now_ms :: u64
  env_startup_timeout :: duration
  env_auto_stop :: bool
  env_idle_timeout_secs :: u64
  env_kubernetes_hold :: bool
  env_active_ops :: nat

record LifecycleActor =
  storage_start :: "StorageMaintenance option"
  storage_cancel :: "token option"
  storage_stop :: "StorageMaintenance option"
  storage_stopping :: bool
  storage_boot_done :: "SubTask option"
  machine :: VmMState
  state_tx :: VmLifecycleState
  effects :: VmEffects
  waiters :: "reply list"
  stop_waiters :: "reply list"
  pending_timeout :: "duration option"
  pending_stop :: bool
  inflight :: "SubTask option"
  epoch :: nat
  restart_generation :: u64
  last_activity_ms :: u64
  health_stopped :: bool
  out :: "VmOut list"

definition actor_new :: LifecycleActor where
  "actor_new =
     \<lparr>storage_start = None, storage_cancel = None, storage_stop = None, storage_stopping = False,
      storage_boot_done = None, machine = VmMState.NotExist, state_tx = VmLifecycleState.NotExist,
      effects = \<lparr>vm_items = []\<rparr>, waiters = [], stop_waiters = [], pending_timeout = None,
      pending_stop = False, inflight = None, epoch = 0, restart_generation = 0,
      last_activity_ms = 0, health_stopped = False, out = []\<rparr>"

type_synonym vm_dispatch = "VmMState \<Rightarrow> VmEvent \<Rightarrow> VmEffects \<Rightarrow> VmMState \<times> VmEffects"

definition emit_out :: "VmOut list \<Rightarrow> LifecycleActor \<Rightarrow> LifecycleActor" where
  "emit_out xs a = a\<lparr>out := out a @ xs\<rparr>"

text \<open>\<open>as_millis() as u64\<close> truncates.\<close>

definition as_millis :: "duration \<Rightarrow> u64" where
  "as_millis d = word_of_nat (d div 1000000)"

definition from_millis :: "u64 \<Rightarrow> duration" where
  "from_millis ms = nanos_of_millis (unat ms)"

definition get_cid :: "VmEnv \<Rightarrow> (u32, EngineError) result" where
  "get_cid env =
     (case env_cid env of
        None \<Rightarrow> Err (EngineError.Machine ''default machine has no CID'')
      | Some c \<Rightarrow> Ok c)"

definition record_activity :: "VmEnv \<Rightarrow> LifecycleActor \<Rightarrow> LifecycleActor" where
  "record_activity env a = a\<lparr>last_activity_ms := env_now_ms env\<rparr>"

definition idle_seconds :: "VmEnv \<Rightarrow> LifecycleActor \<Rightarrow> u64" where
  "idle_seconds env a =
     (if env_now_ms env \<ge> last_activity_ms a then (env_now_ms env - last_activity_ms a) div 1000 else 0)"

definition belongs_to :: "StorageMaintenance \<Rightarrow> nat \<Rightarrow> bool" where
  "belongs_to r manager \<longleftrightarrow> reserved_at r = manager"

subsection \<open>Executing effects\<close>

definition abort_inflight :: "LifecycleActor \<Rightarrow> LifecycleActor" where
  "abort_inflight a =
     (let a = (case inflight a of None \<Rightarrow> a | Some t \<Rightarrow> emit_out [AbortedTask t] (a\<lparr>inflight := None\<rparr>))
      in a\<lparr>epoch := epoch a + 1\<rparr>)"

definition spawn :: "Job \<Rightarrow> LifecycleActor \<Rightarrow> LifecycleActor" where
  "spawn job a =
     emit_out [Spawned (SubTask (epoch a) job)] (a\<lparr>inflight := Some (SubTask (epoch a) job)\<rparr>)"

definition spawn_storage_stop :: "LifecycleActor \<Rightarrow> LifecycleActor" where
  "spawn_storage_stop a =
     (let a = (case storage_cancel a of
                 None \<Rightarrow> a
               | Some tok \<Rightarrow> emit_out [CancelledToken tok] (a\<lparr>storage_cancel := None\<rparr>));
          (previous, a) = (case inflight a of
                 Some t \<Rightarrow> (Some t, a\<lparr>inflight := None\<rparr>)
               | None \<Rightarrow> (storage_boot_done a, a\<lparr>storage_boot_done := None\<rparr>));
          a = a\<lparr>epoch := epoch a + 1\<rparr>
      in case storage_stop a of
           None \<Rightarrow> emit_out [Panicked] a
         | Some r \<Rightarrow> spawn (RunStorageStop r (map_option task_epoch previous)) (a\<lparr>storage_stop := None\<rparr>))"

definition fail_waiters :: "EngineError \<Rightarrow> LifecycleActor \<Rightarrow> LifecycleActor" where
  "fail_waiters error a = emit_out (map (\<lambda>w. ReadyReply w (Err error)) (waiters a)) (a\<lparr>waiters := []\<rparr>)"

definition answer_stops :: "(unit, EngineError) result \<Rightarrow> LifecycleActor \<Rightarrow> LifecycleActor" where
  "answer_stops res a = emit_out (map (\<lambda>w. UnitReply w res) (stop_waiters a)) (a\<lparr>stop_waiters := []\<rparr>)"

fun vm_apply :: "VmEnv \<Rightarrow> VmEffect \<Rightarrow> LifecycleActor \<Rightarrow> LifecycleActor" where
  "vm_apply env (VmEffect.SpawnBoot create timeout_ms) a =
     (let a = abort_inflight a;
          timeout = from_millis timeout_ms
      in case storage_start a of
           Some r \<Rightarrow> spawn (RunStorageBoot r (storage_cancel a) timeout) (a\<lparr>storage_start := None\<rparr>)
         | None \<Rightarrow> spawn (RunBoot create timeout) a)"
| "vm_apply env VmEffect.SpawnStorageStop a = spawn_storage_stop a"
| "vm_apply env VmEffect.SpawnStop a = spawn RunStop (abort_inflight a)"
| "vm_apply env (VmEffect.SpawnReboot timeout_ms) a =
     spawn (RunReboot (from_millis timeout_ms)) (abort_inflight a)"
| "vm_apply env VmEffect.AbortInflight a = abort_inflight a"
| "vm_apply env VmEffect.RemoveMachine a = spawn RunRemove a"
| "vm_apply env VmEffect.BumpGeneration a = a\<lparr>restart_generation := restart_generation a + 1\<rparr>"
| "vm_apply env (VmEffect.Publish notify) a = emit_out [Published notify] a"
| "vm_apply env VmEffect.ReadyWaiters a =
     emit_out (map (\<lambda>w. ReadyReply w (get_cid env)) (waiters a)) (a\<lparr>waiters := []\<rparr>)"
| "vm_apply env (VmEffect.FailWaiters reason) a = fail_waiters (EngineError.Vm reason) a"

text \<open>The public state and the balloon follow a transition before its effects are executed.\<close>

definition publish_state :: "VmMState \<Rightarrow> VmMState \<Rightarrow> LifecycleActor \<Rightarrow> LifecycleActor" where
  "publish_state old new a =
     (let before = vm_to_public old;
          after = vm_to_public new
      in if before \<noteq> after then
           let a = a\<lparr>state_tx := after\<rparr>
           in if after = VmLifecycleState.Idle then emit_out [Balloon EnterIdle] a
              else if before = VmLifecycleState.Idle then emit_out [Balloon ExitIdle] a
              else a
         else a)"

definition vm_dispatch :: "vm_dispatch \<Rightarrow> VmEnv \<Rightarrow> VmEvent \<Rightarrow> LifecycleActor \<Rightarrow> LifecycleActor" where
  "vm_dispatch hw env event a =
     (let (new, fx) = hw (machine a) event (effects a);
          a = publish_state (machine a) new (a\<lparr>machine := new, effects := fx\<rparr>);
          (todo, fx) = vm_take (effects a)
      in fold (vm_apply env) todo (a\<lparr>effects := fx\<rparr>))"

subsection \<open>Commands\<close>

definition on_storage_check ::
  "VmEnv \<Rightarrow> StorageMaintenance \<Rightarrow> reply \<Rightarrow> LifecycleActor \<Rightarrow> LifecycleActor" where
  "on_storage_check env r reply a =
     emit_out [UnitReply reply
       (if \<not> belongs_to r (env_manager env)
           \<or> state_tx a \<in> {VmLifecycleState.Creating, VmLifecycleState.Starting, VmLifecycleState.Stopping}
        then Err (invalid_state ''storage recovery requires a stable System VM lifecycle'')
        else Ok ())] a"

definition on_storage_stop ::
  "vm_dispatch \<Rightarrow> VmEnv \<Rightarrow> StorageMaintenance \<Rightarrow> reply \<Rightarrow> LifecycleActor \<Rightarrow> LifecycleActor" where
  "on_storage_stop hw env r reply a =
     (if \<not> belongs_to r (env_manager env) then
        emit_out [UnitReply reply (Err (invalid_state ''foreign storage maintenance reservation''))] a
      else
        let a = a\<lparr>stop_waiters := stop_waiters a @ [reply]\<rparr>
        in if storage_stopping a then a
           else vm_dispatch hw env VmEvent.StopStorage
                  (a\<lparr>storage_stopping := True, storage_stop := Some r, health_stopped := True,
                     pending_timeout := None, pending_stop := False\<rparr>))"

definition on_resume_storage ::
  "vm_dispatch \<Rightarrow> VmEnv \<Rightarrow> StorageMaintenance \<Rightarrow> token \<Rightarrow> reply \<Rightarrow> LifecycleActor \<Rightarrow> LifecycleActor" where
  "on_resume_storage hw env r tok reply a =
     (if \<not> belongs_to r (env_manager env) \<or> env_cancelled env tok
         \<or> \<not> needs_start (state_tx a) \<or> inflight a \<noteq> None
      then emit_out [ReadyReply reply
             (Err (invalid_state ''storage recovery requires its stopped System VM''))] a
      else vm_dispatch hw env (VmEvent.Start False (as_millis (env_startup_timeout env)))
             (a\<lparr>storage_start := Some r, storage_cancel := Some tok, waiters := waiters a @ [reply]\<rparr>))"

definition decide_create :: "VmEnv \<Rightarrow> bool" where
  "decide_create env \<longleftrightarrow> env_machine env = None"

definition on_ensure_ready ::
  "vm_dispatch \<Rightarrow> VmEnv \<Rightarrow> duration \<Rightarrow> reply \<Rightarrow> LifecycleActor \<Rightarrow> LifecycleActor" where
  "on_ensure_ready hw env timeout reply a =
     (case env_storage env of
        Err error \<Rightarrow> emit_out [ReadyReply reply (Err error)] a
      | Ok _ \<Rightarrow>
          let a = record_activity env a;
              state = state_tx a
          in if is_ready state then
               emit_out [ReadyReply reply (get_cid env)] (vm_dispatch hw env VmEvent.Activity a)
             else
               let a = a\<lparr>waiters := waiters a @ [reply]\<rparr>
               in if needs_start state \<and> inflight a = None then
                    vm_dispatch hw env (VmEvent.Start (decide_create env) (as_millis timeout)) a
                  else a\<lparr>pending_timeout := get_or_insert (pending_timeout a) timeout\<rparr>)"

definition on_shutdown :: "vm_dispatch \<Rightarrow> VmEnv \<Rightarrow> reply \<Rightarrow> LifecycleActor \<Rightarrow> LifecycleActor" where
  "on_shutdown hw env reply a =
     (let state = state_tx a
      in if state = VmLifecycleState.Stopping then a\<lparr>stop_waiters := stop_waiters a @ [reply]\<rparr>
         else if state \<in> {VmLifecycleState.Creating, VmLifecycleState.Starting} then
           a\<lparr>stop_waiters := stop_waiters a @ [reply], pending_stop := True\<rparr>
         else if is_ready state then
           vm_dispatch hw env VmEvent.Stop (a\<lparr>stop_waiters := stop_waiters a @ [reply]\<rparr>)
         else if inflight a = None
             \<and> env_machine env \<in> {Some MachineState.Running, Some MachineState.Stopping} then
           vm_dispatch hw env VmEvent.StopUnready (a\<lparr>stop_waiters := stop_waiters a @ [reply]\<rparr>)
         else emit_out [UnitReply reply (Ok ())] a)"

definition on_force_stop :: "vm_dispatch \<Rightarrow> VmEnv \<Rightarrow> reply \<Rightarrow> LifecycleActor \<Rightarrow> LifecycleActor" where
  "on_force_stop hw env reply a =
     (case env_storage env of
        Err error \<Rightarrow> emit_out [UnitReply reply (Err error)] a
      | Ok _ \<Rightarrow>
          let a = a\<lparr>stop_waiters := stop_waiters a @ [reply]\<rparr>
          in if machine a = VmMState.Removing then a
             else (vm_dispatch hw env VmEvent.ForceStop (a\<lparr>health_stopped := True\<rparr>))
                    \<lparr>pending_timeout := None, pending_stop := False\<rparr>)"

fun on_command :: "vm_dispatch \<Rightarrow> VmEnv \<Rightarrow> Command \<Rightarrow> LifecycleActor \<Rightarrow> LifecycleActor" where
  "on_command hw env (Command.CheckStorage r reply) a = on_storage_check env r reply a"
| "on_command hw env (Command.StopStorage r reply) a = on_storage_stop hw env r reply a"
| "on_command hw env (Command.ResumeStorage r tok reply) a = on_resume_storage hw env r tok reply a"
| "on_command hw env (Command.EnsureReady timeout reply) a = on_ensure_ready hw env timeout reply a"
| "on_command hw env (Command.Shutdown reply) a = on_shutdown hw env reply a"
| "on_command hw env (Command.ForceStop reply) a = on_force_stop hw env reply a"
| "on_command hw env Command.Activity a = vm_dispatch hw env VmEvent.Activity a"

subsection \<open>Completions and ticks\<close>

definition start_if_pending :: "vm_dispatch \<Rightarrow> VmEnv \<Rightarrow> LifecycleActor \<Rightarrow> LifecycleActor" where
  "start_if_pending hw env a =
     (case env_storage env of
        Err error \<Rightarrow>
          fail_waiters (invalid_state (engine_error_text error)) (a\<lparr>pending_timeout := None\<rparr>)
      | Ok _ \<Rightarrow>
          if waiters a = [] \<or> \<not> needs_start (state_tx a) \<or> inflight a \<noteq> None then a
          else let timeout = unwrap_or (env_startup_timeout env) (pending_timeout a)
               in vm_dispatch hw env (VmEvent.Start (decide_create env) (as_millis timeout))
                    (a\<lparr>pending_timeout := None\<rparr>))"

fun on_outcome :: "vm_dispatch \<Rightarrow> VmEnv \<Rightarrow> InternalEvent \<Rightarrow> LifecycleActor \<Rightarrow> LifecycleActor" where
  "on_outcome hw env InternalEvent.AgentReady a =
     (let a = vm_dispatch hw env VmEvent.AgentReady a
      in if pending_stop a then vm_dispatch hw env VmEvent.Stop (a\<lparr>pending_stop := False\<rparr>) else a)"
| "on_outcome hw env (InternalEvent.BootFailed reason) a =
     (let a = fail_waiters (EngineError.Vm reason) (vm_dispatch hw env VmEvent.Failure a)
      in if pending_stop a then answer_stops (Ok ()) (a\<lparr>pending_stop := False\<rparr>) else a)"
| "on_outcome hw env InternalEvent.Stopped a =
     answer_stops (Ok ()) (vm_dispatch hw env VmEvent.Stopped a)"
| "on_outcome hw env InternalEvent.Removed a =
     answer_stops (Ok ()) (vm_dispatch hw env VmEvent.Removed a)"
| "on_outcome hw env (InternalEvent.StopFailed reason) a =
     answer_stops (Err (EngineError.Vm reason)) (vm_dispatch hw env VmEvent.Failure a)"
| "on_outcome hw env (InternalEvent.RemoveFailed reason) a =
     (let a = answer_stops (Err (EngineError.Vm reason)) (vm_dispatch hw env VmEvent.Failure a)
      in (vm_apply env (VmEffect.FailWaiters reason) a)\<lparr>pending_timeout := None\<rparr>)"

definition on_internal :: "vm_dispatch \<Rightarrow> VmEnv \<Rightarrow> Completion \<Rightarrow> LifecycleActor \<Rightarrow> LifecycleActor" where
  "on_internal hw env c a =
     (if completion_epoch c \<noteq> epoch a then a
      else
        let finished = inflight a;
            a = a\<lparr>inflight := None\<rparr>;
            a = (if storage_cancel a \<noteq> None \<and> \<not> storage_stopping a
                 then a\<lparr>storage_boot_done := finished\<rparr> else a);
            a = a\<lparr>storage_cancel := None, storage_stopping := False\<rparr>
        in start_if_pending hw env (on_outcome hw env (completion_outcome c) a))"

definition on_idle_tick :: "vm_dispatch \<Rightarrow> VmEnv \<Rightarrow> LifecycleActor \<Rightarrow> LifecycleActor" where
  "on_idle_tick hw env a =
     (if \<not> env_auto_stop env \<or> env_kubernetes_hold env \<or> env_active_ops env > 0
         \<or> state_tx a \<noteq> VmLifecycleState.Running then a
      else if idle_seconds env a \<ge> env_idle_timeout_secs env then vm_dispatch hw env VmEvent.IdleTimeout a
      else a)"

definition on_liveness_tick :: "vm_dispatch \<Rightarrow> VmEnv \<Rightarrow> LifecycleActor \<Rightarrow> LifecycleActor" where
  "on_liveness_tick hw env a =
     (if state_tx a \<notin> {VmLifecycleState.Running, VmLifecycleState.Idle} then a
      else if is_ok (env_storage env) \<and> env_self_stopped env = Some True then
        vm_dispatch hw env (VmEvent.GuestReset (if env_startup_timeout env div 1000000 < 2 ^ 64
          then word_of_nat (env_startup_timeout env div 1000000) else - 1)) a
      else a)"

end
