(* ===== verification/Vm_Lifecycle.thy ===== *)
theory Vm_Lifecycle
  imports Vm_Actor
begin

section \<open>What the System VM's actor guarantees\<close>

text \<open>
  The actor of \<open>Vm_Actor\<close> in its world: commands, ticks and the completions of the sub-tasks it
  spawned, in any order.  A sub-task reports once, at any time after it was spawned, even after it
  was aborted; what it may report is what its body in \<open>boot.rs\<close>, or the removal and the reserved
  stop of the actor itself, sends.
\<close>

subsection \<open>The world\<close>

fun reports :: "Job \<Rightarrow> InternalEvent \<Rightarrow> bool" where
  "reports (RunBoot _ _) o' = (case o' of InternalEvent.AgentReady \<Rightarrow> True | InternalEvent.BootFailed _ \<Rightarrow> True | _ \<Rightarrow> False)"
| "reports (RunStorageBoot _ _ _) o' = (case o' of InternalEvent.AgentReady \<Rightarrow> True | InternalEvent.BootFailed _ \<Rightarrow> True | _ \<Rightarrow> False)"
| "reports (RunReboot _) o' = (case o' of InternalEvent.AgentReady \<Rightarrow> True | InternalEvent.BootFailed _ \<Rightarrow> True | _ \<Rightarrow> False)"
| "reports RunStop o' = (case o' of InternalEvent.Stopped \<Rightarrow> True | InternalEvent.StopFailed _ \<Rightarrow> True | _ \<Rightarrow> False)"
| "reports (RunStorageStop _ _) o' = (case o' of InternalEvent.Stopped \<Rightarrow> True | InternalEvent.StopFailed _ \<Rightarrow> True | _ \<Rightarrow> False)"
| "reports RunRemove o' = (case o' of InternalEvent.Removed \<Rightarrow> True | InternalEvent.RemoveFailed _ \<Rightarrow> True | _ \<Rightarrow> False)"

datatype VmInput =
    Commanded Command
  | Completed SubTask InternalEvent
  | IdleTicked
  | LivenessTicked
  | ActivityRecorded

record VmWorld =
  actor :: LifecycleActor
  delivered :: "SubTask set"

fun vm_enabled :: "VmInput \<Rightarrow> VmWorld \<Rightarrow> bool" where
  "vm_enabled (Completed t o') w \<longleftrightarrow>
     Spawned t \<in> set (out (actor w)) \<and> t \<notin> delivered w \<and> reports (task_job t) o'"
| "vm_enabled _ w \<longleftrightarrow> True"

fun vm_react :: "vm_dispatch \<Rightarrow> VmEnv \<Rightarrow> VmInput \<Rightarrow> LifecycleActor \<Rightarrow> LifecycleActor" where
  "vm_react hw env (Commanded c) a = on_command hw env c a"
| "vm_react hw env (Completed t o') a =
     on_internal hw env \<lparr>completion_epoch = task_epoch t, completion_outcome = o'\<rparr> a"
| "vm_react hw env IdleTicked a = on_idle_tick hw env a"
| "vm_react hw env LivenessTicked a = on_liveness_tick hw env a"
| "vm_react hw env ActivityRecorded a = record_activity env a"

fun vm_delivers :: "VmInput \<Rightarrow> SubTask set" where
  "vm_delivers (Completed t o') = {t}"
| "vm_delivers _ = {}"

definition vm_world_step :: "vm_dispatch \<Rightarrow> VmEnv \<times> VmInput \<Rightarrow> VmWorld \<Rightarrow> VmWorld" where
  "vm_world_step hw l w =
     \<lparr>actor = vm_react hw (fst l) (snd l) (actor w), delivered = delivered w \<union> vm_delivers (snd l)\<rparr>"

definition vm_move :: "vm_dispatch \<Rightarrow> VmWorld \<Rightarrow> VmEnv \<times> VmInput \<Rightarrow> VmWorld \<Rightarrow> bool" where
  "vm_move hw w l w' \<longleftrightarrow> vm_enabled (snd l) w \<and> w' = vm_world_step hw l w"

definition vm_start :: "VmWorld \<Rightarrow> bool" where
  "vm_start w \<longleftrightarrow> w = \<lparr>actor = actor_new, delivered = {}\<rparr>"

subsection \<open>The invariant\<close>

definition booting :: "VmMState \<Rightarrow> bool" where
  "booting s \<longleftrightarrow> s \<in> {VmMState.Creating, VmMState.Starting}"

definition winding_down :: "VmMState \<Rightarrow> bool" where
  "winding_down s \<longleftrightarrow> s \<in> {VmMState.Stopping, VmMState.Removing}"

fun job_fits :: "VmMState \<Rightarrow> Job \<Rightarrow> bool" where
  "job_fits VmMState.Creating j = reports j InternalEvent.AgentReady"
| "job_fits VmMState.Starting j = reports j InternalEvent.AgentReady"
| "job_fits VmMState.Stopping j = reports j InternalEvent.Stopped"
| "job_fits VmMState.Removing j = reports j InternalEvent.Removed"
| "job_fits _ j = False"

fun task_fits :: "VmMState \<Rightarrow> SubTask option \<Rightarrow> bool" where
  "task_fits s None \<longleftrightarrow> \<not> booting s \<and> \<not> winding_down s"
| "task_fits s (Some t) \<longleftrightarrow> job_fits s (task_job t)"

definition control_ok :: "LifecycleActor \<Rightarrow> bool" where
  "control_ok a \<longleftrightarrow>
     state_tx a = vm_to_public (machine a) \<and> effects a = \<lparr>vm_items = []\<rparr>
     \<and> storage_start a = None \<and> storage_stop a = None \<and> Panicked \<notin> set (out a)
     \<and> task_fits (machine a) (inflight a)
     \<and> (pending_stop a \<longrightarrow> booting (machine a))
     \<and> (storage_stopping a \<longrightarrow> winding_down (machine a))
     \<and> (waiters a \<noteq> [] \<longrightarrow> inflight a \<noteq> None)
     \<and> (stop_waiters a \<noteq> [] \<longrightarrow> winding_down (machine a) \<or> pending_stop a)"

definition tasks_ok :: "SubTask set \<Rightarrow> LifecycleActor \<Rightarrow> bool" where
  "tasks_ok D a \<longleftrightarrow>
     (\<forall>t. Spawned t \<in> set (out a) \<longrightarrow> task_epoch t \<le> epoch a)
     \<and> (\<forall>t. Spawned t \<in> set (out a) \<and> task_epoch t = epoch a \<and> t \<notin> D \<longrightarrow> inflight a = Some t)
     \<and> (\<forall>t. inflight a = Some t \<longrightarrow> Spawned t \<in> set (out a) \<and> t \<notin> D \<and> task_epoch t = epoch a)
     \<and> (\<forall>t\<in>D. Spawned t \<in> set (out a))"

lemmas busy_defs = booting_def winding_down_def

definition idle_actor :: "LifecycleActor \<Rightarrow> bool" where
  "idle_actor a \<longleftrightarrow> effects a = \<lparr>vm_items = []\<rparr> \<and> state_tx a = vm_to_public (machine a)"

text \<open>What a transition publishes, and the balloon command it implies.\<close>

definition balloon_of :: "VmMState \<Rightarrow> VmMState \<Rightarrow> VmOut list" where
  "balloon_of old new =
     (if old = new then []
      else if new = VmMState.Idle then [Balloon EnterIdle]
      else if old = VmMState.Idle then [Balloon ExitIdle] else [])"

definition enter :: "VmMState \<Rightarrow> LifecycleActor \<Rightarrow> LifecycleActor" where
  "enter new a =
     a\<lparr>machine := new, state_tx := vm_to_public new, out := out a @ balloon_of (machine a) new\<rparr>"

lemma dispatch_by_step:
  assumes "idle_actor a" "vm_step (machine a) e \<lparr>vm_items = []\<rparr> = (new, \<lparr>vm_items = todo\<rparr>)"
  shows "vm_dispatch vm_step env e a = fold (vm_apply env) todo (enter new a)"
proof -
  have "publish_state (machine a) new (a\<lparr>machine := new, effects := \<lparr>vm_items = todo\<rparr>\<rparr>)
      = (enter new a)\<lparr>effects := \<lparr>vm_items = todo\<rparr>\<rparr>"
    using assms(1)
    by (cases "machine a"; cases new)
      (simp_all add: publish_state_def enter_def balloon_of_def emit_out_def idle_actor_def)
  moreover have "(enter new a)\<lparr>effects := \<lparr>vm_items = []\<rparr>\<rparr> = enter new a"
    using assms(1) by (simp add: idle_actor_def enter_def)
  ultimately show ?thesis
    using assms by (simp add: vm_dispatch_def vm_take_def idle_actor_def Let_def)
qed

definition resting :: "VmMState \<Rightarrow> bool" where
  "resting s \<longleftrightarrow> s \<in> {VmMState.NotExist, VmMState.Created, VmMState.Stopped, VmMState.Failed}"

definition active :: "VmMState \<Rightarrow> bool" where
  "active s \<longleftrightarrow> s \<in> {VmMState.Running, VmMState.Idle}"

definition boot_state :: "bool \<Rightarrow> VmMState" where
  "boot_state create = (if create then VmMState.Creating else VmMState.Starting)"

text \<open>The transition table, on the classes of states the source's superstates name.\<close>

lemma vm_table:
  "resting s \<Longrightarrow> vm_step s (VmEvent.Start create t) \<lparr>vm_items = []\<rparr>
     = (boot_state create, \<lparr>vm_items = [VmEffect.SpawnBoot create t]\<rparr>)"
  "booting s \<Longrightarrow> vm_step s VmEvent.AgentReady \<lparr>vm_items = []\<rparr>
     = (VmMState.Running, \<lparr>vm_items = [VmEffect.Publish VmNotify.Started, VmEffect.ReadyWaiters]\<rparr>)"
  "active s \<Longrightarrow> vm_step s VmEvent.Stop \<lparr>vm_items = []\<rparr>
     = (VmMState.Stopping, \<lparr>vm_items = [VmEffect.SpawnStop]\<rparr>)"
  "active s \<Longrightarrow> vm_step s (VmEvent.GuestReset t) \<lparr>vm_items = []\<rparr>
     = (VmMState.Starting, \<lparr>vm_items = [VmEffect.BumpGeneration, VmEffect.SpawnReboot t]\<rparr>)"
  "vm_step s VmEvent.StopUnready \<lparr>vm_items = []\<rparr>
     = (VmMState.Stopping, \<lparr>vm_items = [VmEffect.SpawnStop]\<rparr>)"
  "vm_step s VmEvent.StopStorage \<lparr>vm_items = []\<rparr>
     = (VmMState.Stopping, \<lparr>vm_items = [VmEffect.SpawnStorageStop,
          VmEffect.FailWaiters ''storage recovery stopped'']\<rparr>)"
  "s \<noteq> VmMState.Removing \<Longrightarrow> vm_step s VmEvent.ForceStop \<lparr>vm_items = []\<rparr>
     = (VmMState.Removing, \<lparr>vm_items = [VmEffect.AbortInflight, VmEffect.RemoveMachine,
          VmEffect.FailWaiters ''force stopped'']\<rparr>)"
  "vm_step s VmEvent.Failure \<lparr>vm_items = []\<rparr> = (VmMState.Failed, \<lparr>vm_items = []\<rparr>)"
  "vm_step VmMState.Stopping VmEvent.Stopped \<lparr>vm_items = []\<rparr>
     = (VmMState.Stopped, \<lparr>vm_items = [VmEffect.BumpGeneration, VmEffect.Publish VmNotify.Stopped]\<rparr>)"
  "vm_step VmMState.Removing VmEvent.Removed \<lparr>vm_items = []\<rparr>
     = (VmMState.NotExist, \<lparr>vm_items = [VmEffect.BumpGeneration, VmEffect.Publish VmNotify.Stopped]\<rparr>)"
  "vm_step VmMState.Running VmEvent.IdleTimeout \<lparr>vm_items = []\<rparr>
     = (VmMState.Idle, \<lparr>vm_items = [VmEffect.Publish VmNotify.Idle]\<rparr>)"
  "vm_step s VmEvent.Activity \<lparr>vm_items = []\<rparr>
     = (if active s then VmMState.Running else s, \<lparr>vm_items = []\<rparr>)"
  by (cases s; simp add: vm_handler_defs resting_def booting_def active_def boot_state_def)+

lemmas dispatch_table = dispatch_by_step vm_table

lemma enter_fields [simp]:
  "machine (enter new a) = new" "state_tx (enter new a) = vm_to_public new"
  "effects (enter new a) = effects a" "storage_start (enter new a) = storage_start a"
  "storage_cancel (enter new a) = storage_cancel a" "storage_stop (enter new a) = storage_stop a"
  "storage_stopping (enter new a) = storage_stopping a"
  "storage_boot_done (enter new a) = storage_boot_done a"
  "waiters (enter new a) = waiters a" "stop_waiters (enter new a) = stop_waiters a"
  "pending_timeout (enter new a) = pending_timeout a" "pending_stop (enter new a) = pending_stop a"
  "inflight (enter new a) = inflight a" "epoch (enter new a) = epoch a"
  "out (enter new a) = out a @ balloon_of (machine a) new"
  by (simp_all add: enter_def)

lemma balloon_of_set [simp]: "Panicked \<notin> set (balloon_of s t)" "Spawned k \<notin> set (balloon_of s t)"
  by (auto simp: balloon_of_def)

lemma public_classes:
  "is_ready (vm_to_public s) \<longleftrightarrow> active s" "needs_start (vm_to_public s) \<longleftrightarrow> resting s"
  "vm_to_public s = VmLifecycleState.Stopping \<longleftrightarrow> winding_down s"
  "vm_to_public s = VmLifecycleState.Creating \<or> vm_to_public s = VmLifecycleState.Starting \<longleftrightarrow> booting s"
  "vm_to_public s = VmLifecycleState.Running \<or> vm_to_public s = VmLifecycleState.Idle \<longleftrightarrow> active s"
  "vm_to_public s = VmLifecycleState.Running \<longleftrightarrow> s = VmMState.Running"
  by (cases s; simp add: is_ready_def needs_start_def resting_def active_def busy_defs)+

lemmas effect_defs = emit_out_def abort_inflight_def spawn_def spawn_storage_stop_def
  fail_waiters_def answer_stops_def Let_def

lemmas command_defs = on_storage_check_def on_storage_stop_def on_resume_storage_def
  on_ensure_ready_def on_shutdown_def on_force_stop_def record_activity_def

lemma class_simps [simp]:
  "booting (boot_state c)" "job_fits (boot_state c) j = reports j InternalEvent.AgentReady"
  "\<not> winding_down (boot_state c)" "winding_down VmMState.Stopping" "winding_down VmMState.Removing"
  by (simp_all add: busy_defs boot_state_def)

lemma control_idle: "control_ok a \<Longrightarrow> idle_actor a"
  by (simp add: control_ok_def idle_actor_def)

lemma control_inflight:
  "control_ok a \<Longrightarrow> resting (machine a) \<or> active (machine a) \<Longrightarrow>
     inflight a = None \<and> \<not> pending_stop a \<and> \<not> storage_stopping a \<and> waiters a = [] \<and> stop_waiters a = []"
  by (cases "inflight a") (auto simp: control_ok_def resting_def active_def busy_defs)

lemma classes: "resting s \<or> active s \<or> booting s \<or> winding_down s"
  by (cases s) (simp_all add: resting_def active_def busy_defs)

lemma class_excl:
  "resting s \<Longrightarrow> \<not> active s \<and> \<not> booting s \<and> \<not> winding_down s"
  "active s \<Longrightarrow> \<not> booting s \<and> \<not> winding_down s"
  "booting s \<Longrightarrow> \<not> winding_down s"
  by (auto simp: resting_def active_def busy_defs)

definition vm_ok :: "SubTask set \<Rightarrow> LifecycleActor \<Rightarrow> bool" where
  "vm_ok D a \<longleftrightarrow> control_ok a \<and> tasks_ok D a"

text \<open>Outputs that spawn nothing, and a spawn under a new epoch, keep the tasks accounted for.\<close>

lemma tasks_okD:
  assumes "tasks_ok D a"
  shows "Spawned t \<in> set (out a) \<Longrightarrow> task_epoch t \<le> epoch a"
    and "Spawned t \<in> set (out a) \<Longrightarrow> task_epoch t = epoch a \<Longrightarrow> t \<notin> D \<Longrightarrow> inflight a = Some t"
    and "inflight a = Some t \<Longrightarrow> Spawned t \<in> set (out a)"
    and "inflight a = Some t \<Longrightarrow> t \<notin> D"
    and "inflight a = Some t \<Longrightarrow> task_epoch t = epoch a"
    and "t \<in> D \<Longrightarrow> Spawned t \<in> set (out a)"
  using assms unfolding tasks_ok_def by blast+

lemma tasks_okI:
  assumes "\<And>t. Spawned t \<in> set (out a) \<Longrightarrow> task_epoch t \<le> epoch a"
    and "\<And>t. Spawned t \<in> set (out a) \<Longrightarrow> task_epoch t = epoch a \<Longrightarrow> t \<notin> D \<Longrightarrow> inflight a = Some t"
    and "\<And>t. inflight a = Some t \<Longrightarrow> Spawned t \<in> set (out a) \<and> t \<notin> D \<and> task_epoch t = epoch a"
    and "\<And>t. t \<in> D \<Longrightarrow> Spawned t \<in> set (out a)"
  shows "tasks_ok D a"
  using assms unfolding tasks_ok_def by blast

lemma tasks_spawn:
  assumes "tasks_ok D a" "epoch b = Suc (epoch a)" "inflight b = Some (SubTask (Suc (epoch a)) j)"
    and out: "\<And>t. Spawned t \<in> set (out b) \<longleftrightarrow> Spawned t \<in> set (out a) \<or> t = SubTask (Suc (epoch a)) j"
  shows "tasks_ok D b"
proof (rule tasks_okI)
  note old = tasks_okD(1) [OF assms(1)]
  show "task_epoch t \<le> epoch b" if "Spawned t \<in> set (out b)" for t
    using that old [of t] out [of t] assms(2) by auto
  show "inflight b = Some t" if "Spawned t \<in> set (out b)" "task_epoch t = epoch b" for t
    using that old [of t] assms(2,3) out [of t] by auto
  show "Spawned t \<in> set (out b)" if "t \<in> D" for t
    using tasks_okD(6) [OF assms(1) that] out by blast
  show "Spawned t \<in> set (out b) \<and> t \<notin> D \<and> task_epoch t = epoch b" if "inflight b = Some t" for t
    using that assms(2,3) out [of t] old [of t] tasks_okD(6) [OF assms(1), of t] by auto
qed

lemma tasks_same:
  assumes "tasks_ok D a" "epoch b = epoch a" "inflight b = inflight a"
    and "\<And>t. Spawned t \<in> set (out b) \<longleftrightarrow> Spawned t \<in> set (out a)"
  shows "tasks_ok D b"
  using assms(1) unfolding tasks_ok_def assms(2-4) .

lemma tasks_done:
  assumes "tasks_ok D a" "inflight a = Some t" "epoch b = epoch a" "inflight b = None"
    and "\<And>k. Spawned k \<in> set (out b) \<longleftrightarrow> Spawned k \<in> set (out a)"
  shows "tasks_ok (insert t D) b"
proof (rule tasks_okI)
  note d = tasks_okD [OF assms(1)]
  show "task_epoch k \<le> epoch b" if "Spawned k \<in> set (out b)" for k
    using that d(1) [of k] assms(3,5) by simp
  show "inflight b = Some k" if "Spawned k \<in> set (out b)" "task_epoch k = epoch b" "k \<notin> insert t D" for k
    using that d(2) [of k] assms(2,3,5) by simp
  show "Spawned k \<in> set (out b) \<and> k \<notin> insert t D \<and> task_epoch k = epoch b" if "inflight b = Some k" for k
    using that assms(4) by simp
  show "Spawned k \<in> set (out b)" if "k \<in> insert t D" for k
    using that d(3) [of t] d(6) [of k] assms(2,5) by auto
qed

lemma start_ok:
  assumes "control_ok (a\<lparr>waiters := [], storage_start := None\<rparr>)" "tasks_ok D a" "resting (machine a)"
    and "\<not> storage_stopping a"
  shows "vm_ok D (vm_dispatch vm_step env (VmEvent.Start create t) a)"
proof -
  have idle: "idle_actor a" using assms(1) by (simp add: control_ok_def idle_actor_def)
  have rest: "inflight a = None" "\<not> pending_stop a" "stop_waiters a = []"
    using control_inflight [OF assms(1)] assms(3) by simp_all
  have "control_ok (vm_apply env (VmEffect.SpawnBoot create t) (enter (boot_state create) a))"
    using assms rest by (cases "storage_start a") (simp_all add: control_ok_def effect_defs)
  moreover have "tasks_ok D (vm_apply env (VmEffect.SpawnBoot create t) (enter (boot_state create) a))"
    using rest
    by (cases "storage_start a")
      (auto intro!: tasks_spawn [OF assms(2)] simp: effect_defs)
  ultimately show ?thesis
    by (simp add: vm_ok_def dispatch_by_step [OF idle vm_table(1) [OF assms(3)]])
qed

lemma ensure_ready_ok:
  assumes ok: "vm_ok D a"
  shows "vm_ok D (on_ensure_ready vm_step env timeout reply a)"
proof -
  have c: "control_ok a" and t: "tasks_ok D a" using ok by (simp_all add: vm_ok_def)
  have tx: "state_tx a = vm_to_public (machine a)" using c by (simp add: control_ok_def)
  show ?thesis
  proof (cases "env_storage env")
    case (Inl e)
    have "tasks_ok D (emit_out [ReadyReply reply (Err e)] a)"
      by (rule tasks_same [OF t]) (simp_all add: emit_out_def)
    with c Inl show ?thesis
      by (simp add: vm_ok_def on_ensure_ready_def control_ok_def emit_out_def)
  next
    case (Inr u)
    let ?a = "a\<lparr>last_activity_ms := env_now_ms env\<rparr>"
    have ca: "control_ok ?a" using c by (simp add: control_ok_def)
    have ta: "tasks_ok D ?a" by (rule tasks_same [OF t]) simp_all
    consider (rest) "resting (machine a)" | (act) "active (machine a)"
      | (busy) "booting (machine a) \<or> winding_down (machine a)"
      using classes by blast
    then show ?thesis
    proof cases
      case rest
      have idle: "inflight a = None" "waiters a = []" "\<not> storage_stopping a"
        using control_inflight [OF c] rest by simp_all
      have "vm_ok D (vm_dispatch vm_step env (VmEvent.Start (decide_create env) (as_millis timeout))
          (?a\<lparr>waiters := [reply]\<rparr>))"
      proof (rule start_ok)
        show "control_ok (?a\<lparr>waiters := [reply]\<rparr>\<lparr>waiters := [], storage_start := None\<rparr>)"
          using c idle by (auto simp: control_ok_def)
        show "tasks_ok D (?a\<lparr>waiters := [reply]\<rparr>)" by (rule tasks_same [OF t]) simp_all
      qed (use rest idle in simp_all)
      then show ?thesis
        using Inr rest idle class_excl(1) [OF rest]
        by (simp add: on_ensure_ready_def record_activity_def tx public_classes Let_def)
    next
      case act
      have d: "vm_dispatch vm_step env VmEvent.Activity ?a = enter VmMState.Running ?a"
        using dispatch_by_step [OF control_idle [OF ca] vm_table(12), of env] act by simp
      have res: "on_ensure_ready vm_step env timeout reply a
          = emit_out [ReadyReply reply (get_cid env)] (enter VmMState.Running ?a)"
        using Inr act by (simp add: on_ensure_ready_def record_activity_def tx public_classes Let_def d)
      have "tasks_ok D (emit_out [ReadyReply reply (get_cid env)] (enter VmMState.Running ?a))"
        by (rule tasks_same [OF t]) (simp_all add: emit_out_def)
      with c control_inflight [OF c] act show ?thesis
        unfolding res by (simp add: vm_ok_def control_ok_def emit_out_def busy_defs)
    next
      case busy
      have "\<not> active (machine a)" "\<not> resting (machine a)"
        using busy by (auto simp: resting_def active_def busy_defs)
      moreover have "inflight a \<noteq> None" using c busy by (cases "inflight a") (simp_all add: control_ok_def)
      moreover have "tasks_ok D (?a\<lparr>waiters := waiters a @ [reply],
          pending_timeout := get_or_insert (pending_timeout a) timeout\<rparr>)"
        by (rule tasks_same [OF t]) simp_all
      ultimately show ?thesis
        using Inr c by (simp add: on_ensure_ready_def record_activity_def control_ok_def public_classes
            Let_def vm_ok_def)
    qed
  qed
qed

lemma vm_okD: "vm_ok D a \<Longrightarrow> control_ok a" "vm_ok D a \<Longrightarrow> tasks_ok D a"
  by (simp_all add: vm_ok_def)

lemma control_tx: "control_ok a \<Longrightarrow> state_tx a = vm_to_public (machine a)"
  by (simp add: control_ok_def)

text \<open>A step that only answers or parks callers.\<close>

lemma answer_ok:
  assumes "vm_ok D a" "\<And>t. Spawned t \<notin> set xs" "Panicked \<notin> set xs"
  shows "vm_ok D (emit_out xs a)"
  using assms(1) assms(3) tasks_same [OF vm_okD(2) [OF assms(1)], of "emit_out xs a"] assms(2)
  by (simp add: vm_ok_def control_ok_def emit_out_def)

lemma park_ok:
  assumes "vm_ok D a" "winding_down (machine a)"
  shows "vm_ok D (a\<lparr>stop_waiters := stop_waiters a @ [r]\<rparr>)"
  using assms tasks_same [OF vm_okD(2) [OF assms(1)], of "a\<lparr>stop_waiters := stop_waiters a @ [r]\<rparr>"]
  by (simp add: vm_ok_def control_ok_def)

lemma stop_ok:
  assumes "vm_ok D a" "active (machine a) \<or> resting (machine a)"
  shows "vm_ok D (spawn RunStop (abort_inflight (enter VmMState.Stopping (a\<lparr>stop_waiters := ws\<rparr>))))"
proof -
  have i: "inflight a = None" "\<not> pending_stop a"
    using control_inflight [OF vm_okD(1) [OF assms(1)]] assms(2) by auto
  have "tasks_ok D (spawn RunStop (abort_inflight (enter VmMState.Stopping (a\<lparr>stop_waiters := ws\<rparr>))))"
    using i by (intro tasks_spawn [OF vm_okD(2) [OF assms(1)]]) (auto simp: effect_defs)
  with vm_okD(1) [OF assms(1)] i show ?thesis by (simp add: vm_ok_def control_ok_def effect_defs)
qed

lemma shutdown_ok:
  assumes ok: "vm_ok D a"
  shows "vm_ok D (on_shutdown vm_step env reply a)"
proof -
  let ?a = "a\<lparr>stop_waiters := stop_waiters a @ [reply]\<rparr>"
  note c = vm_okD(1) [OF ok] and tx = control_tx [OF vm_okD(1) [OF ok]]
  have idle: "idle_actor ?a" using control_idle [OF c] by (simp add: idle_actor_def)
  consider (rest) "resting (machine a)" | (act) "active (machine a)" | (boot) "booting (machine a)"
    | (wind) "winding_down (machine a)" using classes by blast
  then show ?thesis
  proof cases
    case rest
    have d: "vm_dispatch vm_step env VmEvent.StopUnready ?a
        = spawn RunStop (abort_inflight (enter VmMState.Stopping ?a))"
      using dispatch_by_step [OF idle vm_table(5), of env] by simp
    have "vm_ok D (emit_out [UnitReply reply (Ok ())] a)" by (rule answer_ok [OF ok]) simp_all
    with stop_ok [OF ok] rest class_excl(1) [OF rest] show ?thesis
      by (auto simp: on_shutdown_def Let_def tx public_classes d)
  next
    case act
    have d: "vm_dispatch vm_step env VmEvent.Stop ?a
        = spawn RunStop (abort_inflight (enter VmMState.Stopping ?a))"
      using dispatch_by_step [OF idle, of VmEvent.Stop] vm_table(3) [of "machine ?a"] act by simp
    with stop_ok [OF ok] act class_excl(2) [OF act] show ?thesis
      by (auto simp: on_shutdown_def Let_def tx public_classes)
  next
    case boot
    have "tasks_ok D (?a\<lparr>pending_stop := True\<rparr>)" by (rule tasks_same [OF vm_okD(2) [OF ok]]) simp_all
    with boot c class_excl(3) [OF boot] show ?thesis
      by (simp add: on_shutdown_def Let_def tx public_classes vm_ok_def control_ok_def)
  next
    case wind
    with park_ok [OF ok] show ?thesis by (simp add: on_shutdown_def Let_def tx public_classes)
  qed
qed

lemma force_stop_ok:
  assumes ok: "vm_ok D a"
  shows "vm_ok D (on_force_stop vm_step env reply a)"
proof (cases "env_storage env")
  case (Inl e)
  have "vm_ok D (emit_out [UnitReply reply (Err e)] a)" by (rule answer_ok [OF ok]) simp_all
  with Inl show ?thesis by (simp add: on_force_stop_def)
next
  case (Inr u)
  note c = vm_okD(1) [OF ok]
  show ?thesis
  proof (cases "machine a = VmMState.Removing")
    case True
    with Inr park_ok [OF ok] show ?thesis by (simp add: on_force_stop_def)
  next
    case False
    let ?a = "a\<lparr>stop_waiters := stop_waiters a @ [reply], health_stopped := True\<rparr>"
    have idle: "idle_actor ?a" using control_idle [OF c] by (simp add: idle_actor_def)
    let ?b = "fail_waiters (EngineError.Vm ''force stopped'') (spawn RunRemove (abort_inflight (enter VmMState.Removing ?a)))"
    have d: "vm_dispatch vm_step env VmEvent.ForceStop ?a = ?b"
      using dispatch_by_step [OF idle, of VmEvent.ForceStop] vm_table(7) [of "machine ?a"] False by simp
    have "tasks_ok D (?b\<lparr>pending_timeout := None, pending_stop := False\<rparr>)"
      by (cases "inflight a"; rule tasks_spawn [OF vm_okD(2) [OF ok]]) (auto simp: effect_defs)
    moreover have "control_ok (?b\<lparr>pending_timeout := None, pending_stop := False\<rparr>)"
      using c by (cases "inflight a") (auto simp: control_ok_def effect_defs)
    ultimately show ?thesis using Inr False by (simp add: on_force_stop_def d vm_ok_def)
  qed
qed

lemma storage_stop_ok:
  assumes ok: "vm_ok D a"
  shows "vm_ok D (on_storage_stop vm_step env r reply a)"
proof (cases "belongs_to r (env_manager env)")
  case False
  have "vm_ok D (emit_out [UnitReply reply (Err (invalid_state ''foreign storage maintenance reservation''))] a)"
    by (rule answer_ok [OF ok]) simp_all
  with False show ?thesis by (simp add: on_storage_stop_def)
next
  case True
  note c = vm_okD(1) [OF ok]
  show ?thesis
  proof (cases "storage_stopping a")
    case stopping: True
    then have "winding_down (machine a)" using c by (simp add: control_ok_def)
    with park_ok [OF ok] True stopping show ?thesis by (simp add: on_storage_stop_def)
  next
    case False
    let ?a = "a\<lparr>stop_waiters := stop_waiters a @ [reply], storage_stopping := True, storage_stop := Some r,
      health_stopped := True, pending_timeout := None, pending_stop := False\<rparr>"
    have idle: "idle_actor ?a" using control_idle [OF c] by (simp add: idle_actor_def)
    let ?b = "fail_waiters (EngineError.Vm ''storage recovery stopped'')
      (spawn_storage_stop (enter VmMState.Stopping ?a))"
    have d: "vm_dispatch vm_step env VmEvent.StopStorage ?a = ?b"
      using dispatch_by_step [OF idle vm_table(6), of env] by simp
    have "tasks_ok D ?b"
      by (cases "inflight a"; cases "storage_cancel a"; rule tasks_spawn [OF vm_okD(2) [OF ok]])
        (auto simp: effect_defs)
    moreover have "control_ok ?b"
      using c by (cases "inflight a"; cases "storage_cancel a") (auto simp: control_ok_def effect_defs)
    ultimately show ?thesis using True False by (simp add: on_storage_stop_def d vm_ok_def)
  qed
qed

lemma resume_ok:
  assumes ok: "vm_ok D a"
  shows "vm_ok D (on_resume_storage vm_step env r tok reply a)"
proof (cases "belongs_to r (env_manager env) \<and> \<not> env_cancelled env tok \<and> needs_start (state_tx a)
    \<and> inflight a = None")
  case False
  have "vm_ok D (emit_out [ReadyReply reply
      (Err (invalid_state ''storage recovery requires its stopped System VM''))] a)"
    by (rule answer_ok [OF ok]) simp_all
  with False show ?thesis by (auto simp: on_resume_storage_def)
next
  case True
  note c = vm_okD(1) [OF ok]
  have rest: "resting (machine a)" using True control_tx [OF c] by (simp add: public_classes)
  let ?a = "a\<lparr>storage_start := Some r, storage_cancel := Some tok, waiters := waiters a @ [reply]\<rparr>"
  have "vm_ok D (vm_dispatch vm_step env (VmEvent.Start False (as_millis (env_startup_timeout env))) ?a)"
  proof (rule start_ok)
    show "control_ok (?a\<lparr>waiters := [], storage_start := None\<rparr>)"
      using c control_inflight [OF c] rest by (auto simp: control_ok_def)
    show "tasks_ok D ?a" by (rule tasks_same [OF vm_okD(2) [OF ok]]) simp_all
  qed (use rest control_inflight [OF c] in simp_all)
  with True show ?thesis by (simp add: on_resume_storage_def)
qed

lemma activity_ok:
  assumes ok: "vm_ok D a"
  shows "vm_ok D (vm_dispatch vm_step env VmEvent.Activity a)"
proof -
  note c = vm_okD(1) [OF ok]
  have d: "vm_dispatch vm_step env VmEvent.Activity a
      = enter (if active (machine a) then VmMState.Running else machine a) a"
    using dispatch_by_step [OF control_idle [OF c] vm_table(12), of env] by simp
  have "tasks_ok D (enter (if active (machine a) then VmMState.Running else machine a) a)"
    by (rule tasks_same [OF vm_okD(2) [OF ok]]) simp_all
  with c control_inflight [OF c] show ?thesis
    unfolding d by (simp add: vm_ok_def control_ok_def busy_defs)
qed

lemma command_ok:
  assumes ok: "vm_ok D a"
  shows "vm_ok D (on_command vm_step env cmd a)"
proof (cases cmd)
  case (CheckStorage r reply)
  have "vm_ok D (on_storage_check env r reply a)"
    unfolding on_storage_check_def by (rule answer_ok [OF ok]) simp_all
  with CheckStorage show ?thesis by simp
qed (simp_all add: ok storage_stop_ok resume_ok ensure_ready_ok shutdown_ok force_stop_ok activity_ok)

lemma idle_tick_ok:
  assumes ok: "vm_ok D a"
  shows "vm_ok D (on_idle_tick vm_step env a)"
proof (cases "machine a = VmMState.Running")
  case True
  note c = vm_okD(1) [OF ok]
  have d: "vm_dispatch vm_step env VmEvent.IdleTimeout a
      = emit_out [Published VmNotify.Idle] (enter VmMState.Idle a)"
    using dispatch_by_step [OF control_idle [OF c], of VmEvent.IdleTimeout] vm_table(11) True by simp
  have "tasks_ok D (emit_out [Published VmNotify.Idle] (enter VmMState.Idle a))"
    by (rule tasks_same [OF vm_okD(2) [OF ok]]) (simp_all add: emit_out_def)
  with ok control_inflight [OF c] True show ?thesis
    by (simp add: on_idle_tick_def d vm_ok_def control_ok_def emit_out_def active_def busy_defs)
next
  case False
  then have "state_tx a \<noteq> VmLifecycleState.Running"
    by (simp add: control_tx [OF vm_okD(1) [OF ok]] public_classes)
  with ok show ?thesis by (simp add: on_idle_tick_def)
qed

lemma liveness_tick_ok:
  assumes ok: "vm_ok D a"
  shows "vm_ok D (on_liveness_tick vm_step env a)"
proof (cases "active (machine a)")
  case True
  note c = vm_okD(1) [OF ok]
  have i: "inflight a = None" "\<not> pending_stop a" "\<not> storage_stopping a" "waiters a = []" "stop_waiters a = []"
    using control_inflight [OF c] True by simp_all
  have "vm_ok D (vm_dispatch vm_step env (VmEvent.GuestReset t) a)" for t
  proof -
    let ?b = "spawn (RunReboot (from_millis t)) (abort_inflight
      ((enter VmMState.Starting a)\<lparr>restart_generation := restart_generation (enter VmMState.Starting a) + 1\<rparr>))"
    have d: "vm_dispatch vm_step env (VmEvent.GuestReset t) a = ?b"
      using dispatch_by_step [OF control_idle [OF c], of "VmEvent.GuestReset t"]
        vm_table(4) [of "machine a" t] True by simp
    have "tasks_ok D ?b"
      using i by (intro tasks_spawn [OF vm_okD(2) [OF ok]]) (auto simp: effect_defs)
    with c i show ?thesis unfolding d by (simp add: vm_ok_def control_ok_def effect_defs busy_defs)
  qed
  with ok show ?thesis by (simp add: on_liveness_tick_def)
next
  case False
  have "state_tx a \<noteq> VmLifecycleState.Running \<and> state_tx a \<noteq> VmLifecycleState.Idle"
    using False public_classes(5) [of "machine a"] control_tx [OF vm_okD(1) [OF ok]] by simp
  with ok show ?thesis by (simp add: on_liveness_tick_def)
qed

text \<open>Between a completion and the deferred start, callers may be parked with nothing in flight.\<close>

definition between :: "SubTask set \<Rightarrow> LifecycleActor \<Rightarrow> bool" where
  "between D a \<longleftrightarrow> control_ok (a\<lparr>waiters := []\<rparr>) \<and> tasks_ok D a
     \<and> (waiters a \<noteq> [] \<longrightarrow> resting (machine a))"

lemma pending_ok:
  assumes "between D a"
  shows "vm_ok D (start_if_pending vm_step env a)"
proof -
  have c: "control_ok (a\<lparr>waiters := []\<rparr>)" and t: "tasks_ok D a" using assms by (simp_all add: between_def)
  have tx: "state_tx a = vm_to_public (machine a)" using c by (simp add: control_ok_def)
  show ?thesis
  proof (cases "env_storage env")
    case (Inl e)
    have "tasks_ok D (fail_waiters (invalid_state (engine_error_text e)) (a\<lparr>pending_timeout := None\<rparr>))"
      by (rule tasks_same [OF t]) (auto simp: fail_waiters_def emit_out_def)
    with Inl c show ?thesis
      by (auto simp: start_if_pending_def vm_ok_def control_ok_def fail_waiters_def emit_out_def)
  next
    case (Inr u)
    show ?thesis
    proof (cases "waiters a = []")
      case True
      then have "control_ok a" using c by (simp add: control_ok_def)
      with True Inr t show ?thesis by (simp add: start_if_pending_def vm_ok_def)
    next
      case False
      then have rest: "resting (machine a)" using assms by (simp add: between_def)
      have i: "inflight a = None" "\<not> storage_stopping a"
        using control_inflight [OF c] rest by simp_all
      have "vm_ok D (vm_dispatch vm_step env (VmEvent.Start (decide_create env)
          (as_millis (unwrap_or (env_startup_timeout env) (pending_timeout a)))) (a\<lparr>pending_timeout := None\<rparr>))"
      proof (rule start_ok)
        show "control_ok (a\<lparr>pending_timeout := None\<rparr>\<lparr>waiters := [], storage_start := None\<rparr>)"
          using c by (simp add: control_ok_def)
        show "tasks_ok D (a\<lparr>pending_timeout := None\<rparr>)" by (rule tasks_same [OF t]) simp_all
      qed (use rest i in simp_all)
      with False Inr rest i show ?thesis by (simp add: start_if_pending_def Let_def tx public_classes)
    qed
  qed
qed

text \<open>The actor a completion is handled on: its task is over, nothing is in flight.\<close>

definition finishing :: "SubTask set \<Rightarrow> LifecycleActor \<Rightarrow> bool" where
  "finishing D a \<longleftrightarrow>
     idle_actor a \<and> storage_start a = None \<and> storage_stop a = None \<and> Panicked \<notin> set (out a)
     \<and> inflight a = None \<and> \<not> storage_stopping a
     \<and> (pending_stop a \<longrightarrow> booting (machine a))
     \<and> (stop_waiters a \<noteq> [] \<longrightarrow> winding_down (machine a) \<or> pending_stop a)
     \<and> tasks_ok D a"

lemma failure_dispatch:
  "idle_actor a \<Longrightarrow> vm_dispatch vm_step env VmEvent.Failure a = enter VmMState.Failed a"
  using dispatch_by_step [OF _ vm_table(8), of a env] by simp

lemma resting_simps [simp]:
  "resting VmMState.Failed" "resting VmMState.Stopped" "resting VmMState.NotExist"
  "\<not> booting VmMState.Failed" "\<not> booting VmMState.Stopped" "\<not> booting VmMState.NotExist"
  "\<not> winding_down VmMState.Failed" "\<not> winding_down VmMState.Stopped" "\<not> winding_down VmMState.NotExist"
  "active VmMState.Running" "\<not> booting VmMState.Running" "\<not> winding_down VmMState.Running"
  by (simp_all add: resting_def active_def busy_defs)

lemma boot_outcome:
  assumes f: "finishing D a" and boot: "booting (machine a)"
  shows "between D (on_outcome vm_step env InternalEvent.AgentReady a)"
    and "between D (on_outcome vm_step env (InternalEvent.BootFailed r) a)"
proof -
  have idle: "idle_actor a" and t: "tasks_ok D a" using f by (simp_all add: finishing_def)
  let ?b = "emit_out (map (\<lambda>w. ReadyReply w (get_cid env)) (waiters a))
    ((emit_out [Published VmNotify.Started] (enter VmMState.Running a))\<lparr>waiters := []\<rparr>)"
  have d: "vm_dispatch vm_step env VmEvent.AgentReady a = ?b"
    using dispatch_by_step [OF idle vm_table(2) [OF boot], of env] by (simp add: emit_out_def)
  have tb: "tasks_ok D ?b" by (rule tasks_same [OF t]) (auto simp: emit_out_def)
  show "between D (on_outcome vm_step env InternalEvent.AgentReady a)"
  proof (cases "pending_stop a")
    case True
    let ?c = "?b\<lparr>pending_stop := False\<rparr>"
    have ic: "idle_actor ?c" using idle by (simp add: idle_actor_def emit_out_def)
    have e: "vm_dispatch vm_step env VmEvent.Stop ?c
        = spawn RunStop (abort_inflight (enter VmMState.Stopping ?c))"
      using dispatch_by_step [OF ic, of VmEvent.Stop] vm_table(3) [of "machine ?c"]
      by (simp add: emit_out_def)
    have "tasks_ok D (spawn RunStop (abort_inflight (enter VmMState.Stopping ?c)))"
      using f by (intro tasks_spawn [OF t]) (auto simp: effect_defs finishing_def)
    with True f d e show ?thesis
      by (auto simp: Let_def between_def control_ok_def effect_defs finishing_def idle_actor_def)
  next
    case False
    with f boot tb d class_excl(3) [OF boot] show ?thesis
      by (auto simp: Let_def between_def control_ok_def emit_out_def finishing_def idle_actor_def)
  qed
  let ?g = "fail_waiters (EngineError.Vm r) (enter VmMState.Failed a)"
  have "tasks_ok D ?g" "tasks_ok D (answer_stops (Ok ()) (?g\<lparr>pending_stop := False\<rparr>))"
    by (rule tasks_same [OF t]; auto simp: fail_waiters_def answer_stops_def emit_out_def)+
  with f boot failure_dispatch [OF idle] class_excl(3) [OF boot]
  show "between D (on_outcome vm_step env (InternalEvent.BootFailed r) a)"
    by (auto simp: Let_def between_def control_ok_def fail_waiters_def answer_stops_def emit_out_def
        finishing_def idle_actor_def)
qed

lemma stop_outcome:
  assumes f: "finishing D a" and wind: "winding_down (machine a)"
  shows "machine a = VmMState.Stopping \<Longrightarrow> between D (on_outcome vm_step env InternalEvent.Stopped a)"
    and "machine a = VmMState.Removing \<Longrightarrow> between D (on_outcome vm_step env InternalEvent.Removed a)"
    and "between D (on_outcome vm_step env (InternalEvent.StopFailed r) a)"
    and "between D (on_outcome vm_step env (InternalEvent.RemoveFailed r) a)"
proof -
  have idle: "idle_actor a" and t: "tasks_ok D a" and ps: "\<not> pending_stop a"
    using f wind by (auto simp: finishing_def busy_defs)
  have fin: "between D (answer_stops res (emit_out [Published VmNotify.Stopped]
      ((enter s a)\<lparr>restart_generation := g\<rparr>)))" if "resting s" for res s g
  proof -
    have "tasks_ok D (answer_stops res (emit_out [Published VmNotify.Stopped]
      ((enter s a)\<lparr>restart_generation := g\<rparr>)))"
      by (rule tasks_same [OF t]) (auto simp: answer_stops_def emit_out_def)
    with f ps that class_excl(1) [OF that] show ?thesis
      by (auto simp: between_def control_ok_def answer_stops_def emit_out_def finishing_def idle_actor_def)
  qed
  show "between D (on_outcome vm_step env InternalEvent.Stopped a)" if "machine a = VmMState.Stopping"
    using dispatch_by_step [OF idle, of VmEvent.Stopped] vm_table(9) that fin [of VmMState.Stopped] by simp
  show "between D (on_outcome vm_step env InternalEvent.Removed a)" if "machine a = VmMState.Removing"
    using dispatch_by_step [OF idle, of VmEvent.Removed] vm_table(10) that fin [of VmMState.NotExist] by simp
  let ?g = "answer_stops (Err (EngineError.Vm r)) (enter VmMState.Failed a)"
  have "tasks_ok D ?g" "tasks_ok D ((fail_waiters (EngineError.Vm r) ?g)\<lparr>pending_timeout := None\<rparr>)"
    by (rule tasks_same [OF t]; auto simp: fail_waiters_def answer_stops_def emit_out_def)+
  with f ps failure_dispatch [OF idle]
  show "between D (on_outcome vm_step env (InternalEvent.StopFailed r) a)"
    "between D (on_outcome vm_step env (InternalEvent.RemoveFailed r) a)"
    by (auto simp: Let_def between_def control_ok_def fail_waiters_def answer_stops_def emit_out_def
        finishing_def idle_actor_def)
qed

lemma reports_cases:
  assumes "reports j o'"
  shows "reports j InternalEvent.AgentReady \<Longrightarrow>
      o' = InternalEvent.AgentReady \<or> (\<exists>r. o' = InternalEvent.BootFailed r)"
    and "reports j InternalEvent.Stopped \<Longrightarrow>
      o' = InternalEvent.Stopped \<or> (\<exists>r. o' = InternalEvent.StopFailed r)"
    and "reports j InternalEvent.Removed \<Longrightarrow>
      o' = InternalEvent.Removed \<or> (\<exists>r. o' = InternalEvent.RemoveFailed r)"
  using assms by (cases j; cases o'; simp)+

lemma tasks_stale:
  assumes "tasks_ok D a" "Spawned t \<in> set (out a)" "task_epoch t \<noteq> epoch a"
  shows "tasks_ok (insert t D) a"
  using assms unfolding tasks_ok_def by blast

lemma completion_ok:
  assumes ok: "vm_ok D a" and t: "Spawned t \<in> set (out a)" "t \<notin> D" "reports (task_job t) o'"
  shows "vm_ok (insert t D)
    (on_internal vm_step env \<lparr>completion_epoch = task_epoch t, completion_outcome = o'\<rparr> a)"
proof (cases "task_epoch t = epoch a")
  case False
  with ok t tasks_stale [OF vm_okD(2) [OF ok] t(1)] show ?thesis by (simp add: on_internal_def vm_ok_def)
next
  case True
  note c = vm_okD(1) [OF ok] and tok = vm_okD(2) [OF ok]
  have i: "inflight a = Some t" using tasks_okD(2) [OF tok t(1) True t(2)] .
  define b where "b = (if storage_cancel a \<noteq> None \<and> \<not> storage_stopping a
    then a\<lparr>inflight := None, storage_boot_done := inflight a\<rparr> else a\<lparr>inflight := None\<rparr>)
    \<lparr>storage_cancel := None, storage_stopping := False\<rparr>"
  have "tasks_ok (insert t D) b" by (rule tasks_done [OF tok i]) (simp_all add: b_def)
  with c have f: "finishing (insert t D) b"
    by (simp add: finishing_def control_ok_def idle_actor_def b_def)
  have fits: "job_fits (machine b) (task_job t)" using c i by (simp add: control_ok_def b_def)
  have "between (insert t D) (on_outcome vm_step env o' b)"
  proof (cases "machine b")
    case Creating
    with f fits reports_cases [OF t(3)] boot_outcome [OF f] show ?thesis by (auto simp: booting_def)
  next
    case Starting
    with f fits reports_cases [OF t(3)] boot_outcome [OF f] show ?thesis by (auto simp: booting_def)
  next
    case Stopping
    with f fits reports_cases [OF t(3)] stop_outcome [OF f] show ?thesis by auto
  next
    case Removing
    with f fits reports_cases [OF t(3)] stop_outcome [OF f] show ?thesis by auto
  qed (use fits in simp_all)
  moreover have "on_internal vm_step env \<lparr>completion_epoch = task_epoch t, completion_outcome = o'\<rparr> a
      = start_if_pending vm_step env (on_outcome vm_step env o' b)"
    using True by (simp add: on_internal_def b_def Let_def)
  ultimately show ?thesis using pending_ok by simp
qed

interpretation vm_world: invariant_of vm_start "vm_move vm_step" "\<lambda>w. vm_ok (delivered w) (actor w)"
proof
  fix w assume "vm_start w"
  then show "vm_ok (delivered w) (actor w)"
    by (simp add: vm_start_def vm_ok_def control_ok_def tasks_ok_def actor_new_def busy_defs)
next
  fix w l w' assume ok: "vm_ok (delivered w) (actor w)" and move: "vm_move vm_step w l w'"
  obtain env i where l: "l = (env, i)" by (cases l)
  have w': "w' = vm_world_step vm_step (env, i) w" and en: "vm_enabled i w"
    using move by (simp_all add: vm_move_def l)
  show "vm_ok (delivered w') (actor w')"
  proof (cases i)
    case (Completed t o')
    with completion_ok [OF ok, of t o' env] en show ?thesis by (simp add: w' vm_world_step_def)
  next
    case ActivityRecorded
    have "tasks_ok (delivered w) (record_activity env (actor w))"
      by (rule tasks_same [OF vm_okD(2) [OF ok]]) (simp_all add: record_activity_def)
    with ActivityRecorded ok show ?thesis
      by (simp add: w' vm_world_step_def vm_ok_def control_ok_def record_activity_def)
  qed (simp_all add: w' vm_world_step_def ok command_ok idle_tick_ok liveness_tick_ok)
qed

subsection \<open>Two completions settle every caller\<close>

definition parked :: "LifecycleActor \<Rightarrow> reply list" where
  "parked a = waiters a @ stop_waiters a"

lemma apply_frame [simp]:
  "machine (vm_apply env f a) = machine a" "state_tx (vm_apply env f a) = state_tx a"
  "effects (vm_apply env f a) = effects a" "pending_stop (vm_apply env f a) = pending_stop a"
  by (cases f; simp add: effect_defs split: option.splits)+

lemma fold_frame [simp]:
  "machine (fold (vm_apply env) fs a) = machine a" "state_tx (fold (vm_apply env) fs a) = state_tx a"
  "effects (fold (vm_apply env) fs a) = effects a" "pending_stop (fold (vm_apply env) fs a) = pending_stop a"
  by (induction fs arbitrary: a) simp_all

text \<open>A dispatch moves the machine as its table says and keeps the public state in step.\<close>

lemma dispatch_frame:
  assumes "idle_actor a"
  shows "machine (vm_dispatch vm_step env e a) = fst (vm_step (machine a) e \<lparr>vm_items = []\<rparr>)"
    and "idle_actor (vm_dispatch vm_step env e a)"
    and "pending_stop (vm_dispatch vm_step env e a) = pending_stop a"
proof -
  obtain new fx where s: "vm_step (machine a) e \<lparr>vm_items = []\<rparr> = (new, fx)" by fastforce
  obtain todo where fx: "fx = \<lparr>vm_items = todo\<rparr>" by (cases fx)
  note d = dispatch_by_step [OF assms s [unfolded fx]]
  show "machine (vm_dispatch vm_step env e a) = fst (vm_step (machine a) e \<lparr>vm_items = []\<rparr>)"
    "idle_actor (vm_dispatch vm_step env e a)" "pending_stop (vm_dispatch vm_step env e a) = pending_stop a"
    using assms by (simp_all add: d s idle_actor_def)
qed

text \<open>The deferred start leaves the machine alone unless somebody waits at a resting VM.\<close>

lemma start_if_pending_frame:
  assumes "idle_actor a"
  shows "idle_actor (start_if_pending vm_step env a)"
    and "pending_stop (start_if_pending vm_step env a) = pending_stop a"
    and "resting (machine a) \<Longrightarrow> resting (machine (start_if_pending vm_step env a))
      \<or> booting (machine (start_if_pending vm_step env a)) \<and> waiters a \<noteq> []"
    and "\<not> resting (machine a) \<Longrightarrow> machine (start_if_pending vm_step env a) = machine a
      \<and> (waiters a = [] \<longrightarrow> waiters (start_if_pending vm_step env a) = [])"
proof -
  have i: "idle_actor (a\<lparr>pending_timeout := None\<rparr>)" using assms by (simp add: idle_actor_def)
  have b: "booting (machine (vm_dispatch vm_step env (VmEvent.Start c t) (a\<lparr>pending_timeout := None\<rparr>)))"
    if "resting (machine a)" for c t
    using dispatch_frame(1) [OF i] vm_table(1) [of "machine a"] that by simp
  note s = start_if_pending_def Let_def fail_waiters_def emit_out_def
  show "idle_actor (start_if_pending vm_step env a)"
    using assms dispatch_frame(2) [OF i] by (cases "env_storage env") (simp_all add: s idle_actor_def)
  show "pending_stop (start_if_pending vm_step env a) = pending_stop a"
    using dispatch_frame(3) [OF i] by (cases "env_storage env") (simp_all add: s)
  show "resting (machine (start_if_pending vm_step env a))
      \<or> booting (machine (start_if_pending vm_step env a)) \<and> waiters a \<noteq> []" if "resting (machine a)"
    using that b by (cases "env_storage env") (simp_all add: s)
  show "machine (start_if_pending vm_step env a) = machine a
      \<and> (waiters a = [] \<longrightarrow> waiters (start_if_pending vm_step env a) = [])" if "\<not> resting (machine a)"
    using that assms by (cases "env_storage env") (simp_all add: s idle_actor_def public_classes)
qed

text \<open>Where a completion leaves the machine.\<close>

definition settled :: "LifecycleActor \<Rightarrow> bool" where
  "settled a \<longleftrightarrow> resting (machine a) \<or> active (machine a)"

text \<open>What can remain in flight after one: a boot nobody wants stopped, or a stop that no caller of
  \<open>ensure_ready\<close> waits behind.\<close>

definition last_task :: "LifecycleActor \<Rightarrow> bool" where
  "last_task a \<longleftrightarrow> booting (machine a) \<and> \<not> pending_stop a \<or> winding_down (machine a) \<and> waiters a = []"

lemma boot_outcome_state:
  assumes f: "finishing D a" and boot: "booting (machine a)"
  shows "machine (on_outcome vm_step env InternalEvent.AgentReady a)
      = (if pending_stop a then VmMState.Stopping else VmMState.Running)"
    and "waiters (on_outcome vm_step env InternalEvent.AgentReady a) = []"
    and "idle_actor (on_outcome vm_step env InternalEvent.AgentReady a)"
    and "machine (on_outcome vm_step env (InternalEvent.BootFailed r) a) = VmMState.Failed"
    and "waiters (on_outcome vm_step env (InternalEvent.BootFailed r) a) = []"
    and "idle_actor (on_outcome vm_step env (InternalEvent.BootFailed r) a)"
proof -
  have idle: "idle_actor a" using f by (simp add: finishing_def)
  let ?b = "vm_dispatch vm_step env VmEvent.AgentReady a"
  have b: "machine ?b = VmMState.Running" "idle_actor ?b" "waiters ?b = []" "pending_stop ?b = pending_stop a"
    using dispatch_frame [OF idle, of env VmEvent.AgentReady] vm_table(2) [OF boot]
      dispatch_by_step [OF idle vm_table(2) [OF boot], of env] by (simp_all add: emit_out_def)
  have c: "idle_actor (?b\<lparr>pending_stop := False\<rparr>)" using b(2) by (simp add: idle_actor_def)
  have w: "waiters (vm_dispatch vm_step env VmEvent.Stop (?b\<lparr>pending_stop := False\<rparr>)) = []"
    using dispatch_by_step [OF c, of VmEvent.Stop] vm_table(3) [of VmMState.Running] b
    by (simp add: effect_defs split: option.splits)
  show "machine (on_outcome vm_step env InternalEvent.AgentReady a)
      = (if pending_stop a then VmMState.Stopping else VmMState.Running)"
    "waiters (on_outcome vm_step env InternalEvent.AgentReady a) = []"
    "idle_actor (on_outcome vm_step env InternalEvent.AgentReady a)"
    using b w dispatch_frame [OF c, of env VmEvent.Stop] vm_table(3) [of VmMState.Running]
    by (simp_all add: Let_def)
  show "machine (on_outcome vm_step env (InternalEvent.BootFailed r) a) = VmMState.Failed"
    "waiters (on_outcome vm_step env (InternalEvent.BootFailed r) a) = []"
    "idle_actor (on_outcome vm_step env (InternalEvent.BootFailed r) a)"
    using failure_dispatch [OF idle, of env] idle
    by (simp_all add: Let_def fail_waiters_def answer_stops_def emit_out_def idle_actor_def)
qed

lemma stop_outcome_state:
  assumes f: "finishing D a" and wind: "winding_down (machine a)"
    and o': "machine a = VmMState.Stopping \<and> o' = InternalEvent.Stopped
      \<or> machine a = VmMState.Removing \<and> o' = InternalEvent.Removed
      \<or> (\<exists>r. o' = InternalEvent.StopFailed r) \<or> (\<exists>r. o' = InternalEvent.RemoveFailed r)"
  shows "resting (machine (on_outcome vm_step env o' a))" "idle_actor (on_outcome vm_step env o' a)"
    "\<not> pending_stop (on_outcome vm_step env o' a)"
    "waiters a = [] \<Longrightarrow> waiters (on_outcome vm_step env o' a) = []"
proof -
  have idle: "idle_actor a" and ps: "\<not> pending_stop a" using f wind by (auto simp: finishing_def busy_defs)
  note d1 = dispatch_by_step [OF idle, of VmEvent.Stopped] and d2 = dispatch_by_step [OF idle, of VmEvent.Removed]
  note s = answer_stops_def fail_waiters_def emit_out_def Let_def
  show "resting (machine (on_outcome vm_step env o' a))" "idle_actor (on_outcome vm_step env o' a)"
    "\<not> pending_stop (on_outcome vm_step env o' a)"
    "waiters a = [] \<Longrightarrow> waiters (on_outcome vm_step env o' a) = []"
    using o' idle ps failure_dispatch [OF idle, of env] d1 d2 vm_table(9,10)
    by (auto simp: s idle_actor_def)
qed

lemma completion_state:
  assumes ok: "vm_ok D a" and i: "inflight a = Some t" and rep: "reports (task_job t) o'"
    and b_def: "b = on_internal vm_step env \<lparr>completion_epoch = task_epoch t, completion_outcome = o'\<rparr> a"
  shows "settled b \<or> last_task b" and "last_task a \<Longrightarrow> settled b"
proof -
  note c = vm_okD(1) [OF ok] and tok = vm_okD(2) [OF ok]
  have e: "task_epoch t = epoch a" using tasks_okD(5) [OF tok i] .
  define m where "m = (if storage_cancel a \<noteq> None \<and> \<not> storage_stopping a
    then a\<lparr>inflight := None, storage_boot_done := inflight a\<rparr> else a\<lparr>inflight := None\<rparr>)
    \<lparr>storage_cancel := None, storage_stopping := False\<rparr>"
  have m: "machine m = machine a" "waiters m = waiters a" "pending_stop m = pending_stop a"
    by (simp_all add: m_def)
  have "tasks_ok (insert t D) m" by (rule tasks_done [OF tok i]) (simp_all add: m_def)
  with c have f: "finishing (insert t D) m"
    by (simp add: finishing_def control_ok_def idle_actor_def m_def)
  have b: "b = start_if_pending vm_step env (on_outcome vm_step env o' m)"
    using e by (simp add: b_def on_internal_def m_def Let_def)
  have fits: "job_fits (machine m) (task_job t)" using c i by (simp add: control_ok_def m)
  define n where "n = on_outcome vm_step env o' m"
  have "(settled b \<or> last_task b) \<and> (last_task a \<longrightarrow> settled b)"
  proof (cases "booting (machine m)")
    case True
    then have "o' = InternalEvent.AgentReady \<or> (\<exists>r. o' = InternalEvent.BootFailed r)"
      using reports_cases(1) [OF rep] fits by (auto simp: booting_def)
    then have n: "idle_actor n" "waiters n = []"
        "machine n = VmMState.Failed \<or> machine n = (if pending_stop a then VmMState.Stopping else VmMState.Running)"
      using boot_outcome_state [OF f True, of env] by (auto simp: n_def m)
    have "machine b = machine n \<and> waiters b = [] \<or> resting (machine b)"
      using start_if_pending_frame(3,4) [OF n(1), of env] n(2) by (auto simp: b n_def)
    with n(3) class_excl(3) [OF True] show ?thesis
      by (auto simp: settled_def last_task_def m split: if_splits)
  next
    case False
    then have w: "winding_down (machine m)" using fits by (cases "machine m") (auto simp: busy_defs)
    have o': "machine m = VmMState.Stopping \<and> o' = InternalEvent.Stopped
      \<or> machine m = VmMState.Removing \<and> o' = InternalEvent.Removed
      \<or> (\<exists>r. o' = InternalEvent.StopFailed r) \<or> (\<exists>r. o' = InternalEvent.RemoveFailed r)"
      using w fits reports_cases(2,3) [OF rep] by (auto simp: winding_down_def)
    note n = stop_outcome_state [OF f w o', of env, folded n_def]
    have "resting (machine b) \<or> booting (machine b) \<and> waiters n \<noteq> []" "pending_stop b = pending_stop n"
      using start_if_pending_frame(2,3) [OF n(2), of env] n(1) by (auto simp: b n_def)
    with n(3,4) False show ?thesis by (auto simp: settled_def last_task_def m)
  qed
  then show "settled b \<or> last_task b" "last_task a \<Longrightarrow> settled b" by auto
qed

subsection \<open>Every reply is accounted for\<close>

fun answered_by :: "VmOut \<Rightarrow> reply list" where
  "answered_by (ReadyReply r _) = [r]"
| "answered_by (UnitReply r _) = [r]"
| "answered_by _ = []"

definition ledger :: "LifecycleActor \<Rightarrow> reply multiset" where
  "ledger a = mset (concat (map answered_by (out a))) + mset (parked a)"

fun command_replies :: "Command \<Rightarrow> reply multiset" where
  "command_replies (Command.CheckStorage _ r) = {#r#}"
| "command_replies (Command.StopStorage _ r) = {#r#}"
| "command_replies (Command.ResumeStorage _ _ r) = {#r#}"
| "command_replies (Command.EnsureReady _ r) = {#r#}"
| "command_replies (Command.Shutdown r) = {#r#}"
| "command_replies (Command.ForceStop r) = {#r#}"
| "command_replies Command.Activity = {#}"

fun input_replies :: "VmEnv \<times> VmInput \<Rightarrow> reply multiset" where
  "input_replies (env, Commanded c) = command_replies c"
| "input_replies _ = {#}"

lemma concat_answers [simp]:
  "concat (map (answered_by \<circ> (\<lambda>w. ReadyReply w (h w))) ws) = ws"
  "concat (map (answered_by \<circ> (\<lambda>w. UnitReply w (k w))) ws) = ws"
  by (induction ws) simp_all

lemma ledger_updates [simp]:
  "ledger (a\<lparr>inflight := x1\<rparr>) = ledger a" "ledger (a\<lparr>epoch := x2\<rparr>) = ledger a"
  "ledger (a\<lparr>storage_start := x3\<rparr>) = ledger a" "ledger (a\<lparr>storage_cancel := x4\<rparr>) = ledger a"
  "ledger (a\<lparr>storage_stop := x5\<rparr>) = ledger a" "ledger (a\<lparr>storage_stopping := x6\<rparr>) = ledger a"
  "ledger (a\<lparr>storage_boot_done := x7\<rparr>) = ledger a" "ledger (a\<lparr>machine := x8\<rparr>) = ledger a"
  "ledger (a\<lparr>state_tx := x9\<rparr>) = ledger a" "ledger (a\<lparr>effects := x10\<rparr>) = ledger a"
  "ledger (a\<lparr>pending_timeout := x11\<rparr>) = ledger a" "ledger (a\<lparr>pending_stop := x12\<rparr>) = ledger a"
  "ledger (a\<lparr>restart_generation := x13\<rparr>) = ledger a" "ledger (a\<lparr>last_activity_ms := x14\<rparr>) = ledger a"
  "ledger (a\<lparr>health_stopped := x15\<rparr>) = ledger a"
  by (simp_all add: ledger_def parked_def)

lemma ledger_parks [simp]:
  "ledger (a\<lparr>waiters := waiters a @ [r]\<rparr>) = ledger a + {#r#}"
  "ledger (a\<lparr>stop_waiters := stop_waiters a @ [r]\<rparr>) = ledger a + {#r#}"
  "ledger (a\<lparr>last_activity_ms := x, waiters := waiters a @ [r]\<rparr>) = ledger a + {#r#}"
  "ledger (a\<lparr>storage_start := y, storage_cancel := z, waiters := waiters a @ [r]\<rparr>) = ledger a + {#r#}"
  by (simp_all add: ledger_def parked_def)

lemma ledger_emit [simp]: "ledger (emit_out xs a) = ledger a + mset (concat (map answered_by xs))"
  by (simp add: ledger_def parked_def emit_out_def)

lemma ledger_drains [simp]:
  "ledger (fail_waiters e a) = ledger a" "ledger (answer_stops res a) = ledger a"
  by (simp_all add: ledger_def parked_def fail_waiters_def answer_stops_def emit_out_def)

lemma ledger_apply [simp]: "ledger (vm_apply env f a) = ledger a"
proof (cases f)
  case ReadyWaiters
  then show ?thesis by (simp add: ledger_def parked_def emit_out_def)
qed (simp_all add: abort_inflight_def spawn_def spawn_storage_stop_def Let_def split: option.splits)

lemma ledger_dispatch [simp]: "ledger (vm_dispatch hw env e a) = ledger a"
proof -
  have "ledger (fold (vm_apply env) fs b) = ledger b" for fs b
    by (induction fs arbitrary: b) simp_all
  then show ?thesis
    by (simp add: vm_dispatch_def publish_state_def vm_take_def Let_def split: prod.splits)
qed

lemma ledger_react: "ledger (vm_react hw env i a) = ledger a + input_replies (env, i)"
proof (cases i)
  case (Commanded c)
  show ?thesis
  proof (cases c)
    case (EnsureReady d r)
    with Commanded show ?thesis
      by (cases "env_storage env") (simp_all add: on_ensure_ready_def record_activity_def Let_def)
  next
    case (ForceStop r)
    with Commanded show ?thesis by (cases "env_storage env") (simp_all add: on_force_stop_def Let_def)
  qed (simp_all add: Commanded on_storage_check_def on_storage_stop_def on_resume_storage_def
      on_shutdown_def Let_def)
next
  case (Completed t o')
  have "ledger (start_if_pending hw env b) = ledger b" for b
    by (cases "env_storage env") (simp_all add: start_if_pending_def Let_def)
  moreover have "ledger (on_outcome hw env o' b) = ledger b" for b
    by (cases o') (simp_all add: Let_def)
  ultimately show ?thesis by (simp add: Completed on_internal_def Let_def)
qed (simp_all add: on_idle_tick_def on_liveness_tick_def record_activity_def)

definition ledger_step :: "vm_dispatch \<Rightarrow> VmEnv \<times> VmInput \<Rightarrow> LifecycleActor \<Rightarrow> reply list \<times> LifecycleActor" where
  "ledger_step hw l a = ([], vm_react hw (fst l) (snd l) a)"

interpretation vm_replies: conserving "ledger_step hw" input_replies ledger "\<lambda>_. True" for hw
  by unfold_locales (auto simp: ledger_step_def ledger_react)

subsection \<open>The balloon follows the idle state\<close>

text \<open>Whether the controller is in the idle regime after a log, \<open>None\<close> once a command came out of turn.\<close>

fun balloon_step :: "VmOut \<Rightarrow> bool option \<Rightarrow> bool option" where
  "balloon_step (Balloon EnterIdle) s = (if s = Some False then Some True else None)"
| "balloon_step (Balloon ExitIdle) s = (if s = Some True then Some False else None)"
| "balloon_step _ s = s"

definition balloon_regime :: "VmOut list \<Rightarrow> bool option" where
  "balloon_regime xs = fold balloon_step xs (Some False)"

definition balloon_follows :: "LifecycleActor \<Rightarrow> bool" where
  "balloon_follows a \<longleftrightarrow> idle_actor a \<and> balloon_regime (out a) = Some (machine a = VmMState.Idle)"

lemma balloon_append [simp]: "balloon_regime (xs @ ys) = fold balloon_step ys (balloon_regime xs)"
  by (simp add: balloon_regime_def)

lemma balloon_replies [simp]:
  "fold balloon_step (map (\<lambda>w. ReadyReply w (f w)) ws) s = s"
  "fold balloon_step (map (\<lambda>w. UnitReply w (g w)) ws) s = s"
  by (induction ws) simp_all

lemma balloon_enter:
  "balloon_follows a \<Longrightarrow> balloon_regime (out (enter new a)) = Some (new = VmMState.Idle)"
  by (auto simp: balloon_follows_def balloon_of_def)

lemma balloon_apply: "balloon_regime (out (vm_apply env f a)) = balloon_regime (out a)"
  by (cases f) (simp_all add: effect_defs split: option.splits)

lemma balloon_dispatch:
  assumes "balloon_follows a"
  shows "balloon_follows (vm_dispatch vm_step env e a)"
proof -
  have idle: "idle_actor a" using assms by (simp add: balloon_follows_def)
  obtain new fx where s: "vm_step (machine a) e \<lparr>vm_items = []\<rparr> = (new, fx)" by fastforce
  obtain todo where fx: "fx = \<lparr>vm_items = todo\<rparr>" by (cases fx)
  have "balloon_regime (out (fold (vm_apply env) fs b)) = balloon_regime (out b)" for fs b
    by (induction fs arbitrary: b) (simp_all add: balloon_apply)
  with balloon_enter [OF assms] show ?thesis
    using dispatch_by_step [OF idle s [unfolded fx]] idle
    by (simp add: balloon_follows_def idle_actor_def)
qed

lemma balloon_updates [simp]:
  "balloon_follows (a\<lparr>inflight := x1\<rparr>) = balloon_follows a" "balloon_follows (a\<lparr>waiters := x2\<rparr>) = balloon_follows a"
  "balloon_follows (a\<lparr>storage_start := x3\<rparr>) = balloon_follows a" "balloon_follows (a\<lparr>storage_cancel := x4\<rparr>) = balloon_follows a"
  "balloon_follows (a\<lparr>storage_stop := x5\<rparr>) = balloon_follows a" "balloon_follows (a\<lparr>storage_stopping := x6\<rparr>) = balloon_follows a"
  "balloon_follows (a\<lparr>storage_boot_done := x7\<rparr>) = balloon_follows a" "balloon_follows (a\<lparr>stop_waiters := x8\<rparr>) = balloon_follows a"
  "balloon_follows (a\<lparr>pending_timeout := x9\<rparr>) = balloon_follows a" "balloon_follows (a\<lparr>pending_stop := x10\<rparr>) = balloon_follows a"
  "balloon_follows (a\<lparr>last_activity_ms := x11\<rparr>) = balloon_follows a" "balloon_follows (a\<lparr>health_stopped := x12\<rparr>) = balloon_follows a"
  by (simp_all add: balloon_follows_def idle_actor_def)

lemma balloon_drains:
  "balloon_follows (fail_waiters e a) = balloon_follows a" "balloon_follows (answer_stops res a) = balloon_follows a"
  "balloon_follows (emit_out [ReadyReply r x] a) = balloon_follows a"
  "balloon_follows (emit_out [UnitReply r y] a) = balloon_follows a"
  by (simp_all add: fail_waiters_def answer_stops_def emit_out_def balloon_follows_def idle_actor_def)

lemmas balloon_closed = balloon_dispatch balloon_drains

lemma balloon_react:
  assumes "balloon_follows a"
  shows "balloon_follows (vm_react vm_step env i a)"
proof (cases i)
  case (Commanded c)
  with assms show ?thesis
    by (cases c; cases "env_storage env")
      (simp_all add: command_defs balloon_closed Let_def)
next
  case (Completed t o')
  have p: "balloon_follows (start_if_pending vm_step env b)" if "balloon_follows b" for b
    using that by (cases "env_storage env") (simp_all add: start_if_pending_def Let_def balloon_closed)
  have q: "balloon_follows (on_outcome vm_step env o' b)" if "balloon_follows b" for b
    using that by (cases o') (simp_all add: Let_def balloon_closed)
  show ?thesis using assms by (simp add: Completed on_internal_def Let_def p q)
qed (use assms in \<open>simp_all add: on_idle_tick_def on_liveness_tick_def record_activity_def balloon_closed\<close>)

subsection \<open>Properties of the System VM's lifecycle\<close>

text \<open>
  However the next \<open>n\<close> sub-tasks report, at the latest the last report leaves nobody parked and
  nothing in flight.
\<close>

primrec settles :: "vm_dispatch \<Rightarrow> nat \<Rightarrow> LifecycleActor \<Rightarrow> bool" where
  "settles hw 0 a \<longleftrightarrow> parked a = [] \<and> inflight a = None"
| "settles hw (Suc n) a \<longleftrightarrow>
     (case inflight a of
        None \<Rightarrow> parked a = []
      | Some t \<Rightarrow> \<forall>env o'. reports (task_job t) o' \<longrightarrow> settles hw n (vm_react hw env (Completed t o') a))"

lemma settled_done: "vm_ok D a \<Longrightarrow> settled a \<Longrightarrow> parked a = [] \<and> inflight a = None"
  using control_inflight [of a] by (simp add: vm_ok_def settled_def parked_def)

lemma live_task:
  assumes "vm_ok D a" "inflight a = Some t" "reports (task_job t) o'"
  shows "vm_ok (insert t D) (vm_react vm_step env (Completed t o') a)"
  using completion_ok [OF assms(1) tasks_okD(3,4) [OF vm_okD(2) [OF assms(1)] assms(2)] assms(3)] by simp

lemma settles_one:
  assumes ok: "vm_ok D a" and s: "settled a \<or> last_task a"
  shows "settles vm_step 1 a"
proof (cases "inflight a")
  case None
  then have "\<not> last_task a" using vm_okD(1) [OF ok] by (auto simp: control_ok_def last_task_def)
  with None s settled_done [OF ok] show ?thesis by simp
next
  case (Some t)
  with s settled_done [OF ok] have l: "last_task a" by auto
  have "settles vm_step 0 (vm_react vm_step env (Completed t o') a)" if "reports (task_job t) o'" for env o'
    using settled_done [OF live_task [OF ok Some that]] completion_state(2) [OF ok Some that refl l] by simp
  then show ?thesis unfolding One_nat_def settles.simps(2) Some option.case by blast
qed

lemma settles_two:
  assumes ok: "vm_ok D a"
  shows "settles vm_step 2 a"
proof (cases "inflight a")
  case None
  then have "waiters a = []" "stop_waiters a = []"
    using vm_okD(1) [OF ok] by (auto simp: control_ok_def)
  with None show ?thesis by (simp add: numeral_2_eq_2 parked_def)
next
  case (Some t)
  have "settles vm_step 1 (vm_react vm_step env (Completed t o') a)" if "reports (task_job t) o'" for env o'
    by (rule settles_one [OF live_task [OF ok Some that]])
      (use completion_state(1) [OF ok Some that refl] in simp)
  then show ?thesis unfolding numeral_2_eq_2 settles.simps(2) [of _ "Suc 0"] Some option.case One_nat_def by blast
qed

text \<open>C30: no caller is stranded.  Whatever the order of commands, ticks and completions, a caller
  of \<open>ensure_ready\<close>, \<open>shutdown\<close> or \<open>force_stop\<close> that is parked has a sub-task in flight whose
  report the actor will accept; and whatever that sub-task reports, and whatever the one its report
  may start reports in turn, at the latest the second report leaves nobody parked and nothing in
  flight.\<close>

theorem vm_callers_settle:
  assumes "statig vm_handlers hw" and "reach vm_start (vm_move hw) w"
  shows "settles hw 2 (actor w)
    \<and> (parked (actor w) = [] \<or> (\<exists>t o'. inflight (actor w) = Some t \<and> vm_enabled (Completed t o') w))"
proof -
  have hw: "hw = vm_step" using statig_vm_unique [OF assms(1)] .
  have ok: "vm_ok (delivered w) (actor w)" using vm_world.holds_reach assms(2) by (simp add: hw)
  note c = vm_okD(1) [OF ok] and tok = vm_okD(2) [OF ok]
  have "\<exists>o'. vm_enabled (Completed t o') w" if t: "inflight (actor w) = Some t" for t
  proof -
    have fits: "job_fits (machine (actor w)) (task_job t)" using c t by (simp add: control_ok_def)
    have "\<exists>o'. reports (task_job t) o'" using fits by (cases "machine (actor w)") auto
    with tasks_okD(3,4) [OF tok t] show ?thesis by auto
  qed
  moreover have "parked (actor w) = []" if "inflight (actor w) = None"
    using c that by (auto simp: control_ok_def parked_def)
  ultimately show ?thesis using settles_two [OF ok] unfolding hw by (cases "inflight (actor w)") blast+
qed

text \<open>C31: only the live sub-task is heard, and there is at most one.  In every reachable state the
  published state is the machine's, a sub-task is in flight exactly while the machine boots, stops
  or removes and is of the kind that state waits for, the reservation a stop needs is never missing,
  and the report of any other sub-task, aborted or superseded, changes nothing.\<close>

theorem vm_task_discipline:
  assumes "statig vm_handlers hw" and "reach vm_start (vm_move hw) w"
  shows "state_tx (actor w) = vm_to_public (machine (actor w))
    \<and> Panicked \<notin> set (out (actor w))
    \<and> (case inflight (actor w) of
         None \<Rightarrow> resting (machine (actor w)) \<or> active (machine (actor w))
       | Some t \<Rightarrow> job_fits (machine (actor w)) (task_job t))
    \<and> (\<forall>t o' env. vm_enabled (Completed t o') w \<and> inflight (actor w) \<noteq> Some t
        \<longrightarrow> vm_react hw env (Completed t o') (actor w) = actor w)"
proof -
  have hw: "hw = vm_step" using statig_vm_unique [OF assms(1)] .
  have ok: "vm_ok (delivered w) (actor w)" using vm_world.holds_reach assms(2) by (simp add: hw)
  have "vm_react hw env (Completed t o') (actor w) = actor w"
    if "vm_enabled (Completed t o') w" "inflight (actor w) \<noteq> Some t" for t o' env
    using that tasks_okD(2) [OF vm_okD(2) [OF ok], of t] by (auto simp: on_internal_def)
  with vm_okD(1) [OF ok] classes [of "machine (actor w)"] show ?thesis
    by (cases "inflight (actor w)") (auto simp: control_ok_def)
qed

text \<open>every reply is sent once.  Over any sequence of inputs, whatever the dispatch does, the
  replies handed to the actor are exactly those it has answered and those it has parked.\<close>

theorem vm_replies_conserved:
  "let a = snd (run_ops (ledger_step hw) ls actor_new)
   in mset (concat (map answered_by (out a))) + mset (parked a) = sum_list (map input_replies ls)"
proof -
  have "ledger actor_new = {#}" by (simp add: ledger_def parked_def actor_new_def)
  moreover have "fst (run_ops (ledger_step hw) ls a) = []" for a
    by (induction ls arbitrary: a) (simp_all add: ledger_step_def Let_def case_prod_beta)
  ultimately show ?thesis
    using vm_replies.run_conserves [of hw ls actor_new] unfolding ledger_def Let_def by simp
qed

text \<open>C30: the balloon is squeezed exactly while the VM is idle.  In every reachable state the
  commands sent to the controller alternate, and the last one is \<open>EnterIdle\<close> exactly when the
  published state is idle: every path out of idle, a stop, a reboot or a force stop included,
  restores the memory.\<close>

theorem vm_balloon_follows_idle:
  assumes "statig vm_handlers hw" and "reach vm_start (vm_move hw) w"
  shows "balloon_regime (out (actor w)) = Some (state_tx (actor w) = VmLifecycleState.Idle)"
proof -
  have hw: "hw = vm_step" using statig_vm_unique [OF assms(1)] .
  have "balloon_follows (actor w)"
    using assms(2) unfolding hw
  proof induction
    case (reach_start s)
    then show ?case
      by (simp add: vm_start_def balloon_follows_def idle_actor_def actor_new_def balloon_regime_def)
  next
    case (reach_move s e t)
    then show ?case by (simp add: vm_move_def vm_world_step_def balloon_react)
  qed
  moreover have "vm_to_public s = VmLifecycleState.Idle \<longleftrightarrow> s = VmMState.Idle" for s by (cases s) simp_all
  ultimately show ?thesis by (simp add: balloon_follows_def idle_actor_def)
qed

subsection \<open>Concrete runs\<close>

definition sample_env :: VmEnv where
  "sample_env = \<lparr>env_manager = 0, env_storage = Ok (), env_machine = Some MachineState.Stopped,
     env_cid = Some 3, env_self_stopped = None, env_cancelled = (\<lambda>_. False), env_now_ms = 400000,
     env_startup_timeout = nanos_of_secs 90, env_auto_stop = True, env_idle_timeout_secs = 0,
     env_kubernetes_hold = False, env_active_ops = 0\<rparr>"

definition vm_run :: "VmInput list \<Rightarrow> VmWorld" where
  "vm_run is = fold (\<lambda>i. vm_world_step vm_step (sample_env, i)) is \<lparr>actor = actor_new, delivered = {}\<rparr>"

fun vm_enabled_run :: "VmInput list \<Rightarrow> VmWorld \<Rightarrow> bool" where
  "vm_enabled_run [] w = True"
| "vm_enabled_run (i # is) w = (vm_enabled i w \<and> vm_enabled_run is (vm_world_step vm_step (sample_env, i) w))"

lemma vm_run_reach:
  assumes "vm_enabled_run is \<lparr>actor = actor_new, delivered = {}\<rparr>"
  shows "reach vm_start (vm_move vm_step) (vm_run is)"
proof -
  have "reach vm_start (vm_move vm_step) (fold (\<lambda>i. vm_world_step vm_step (sample_env, i)) is w)"
    if "vm_enabled_run is w" "reach vm_start (vm_move vm_step) w" for w
    using that
  proof (induction "is" arbitrary: w)
    case (Cons i js)
    have "reach vm_start (vm_move vm_step) (vm_world_step vm_step (sample_env, i) w)"
      by (rule reach_move [OF Cons.prems(2), of "(sample_env, i)"]) (use Cons.prems(1) in \<open>simp add: vm_move_def\<close>)
    with Cons show ?case by simp
  qed simp
  with assms show ?thesis by (simp add: vm_run_def reach_start vm_start_def)
qed

definition boot_task :: "nat \<Rightarrow> nat \<Rightarrow> SubTask" where
  "boot_task e secs = SubTask e (RunBoot False (nanos_of_secs secs))"

definition ready_run :: "VmInput list" where
  "ready_run = [Commanded (Command.EnsureReady (nanos_of_secs 5) 1),
     Completed (boot_task 1 5) InternalEvent.AgentReady, IdleTicked]"


lemma millis_secs [simp]: "k < 2 ^ 40 \<Longrightarrow> from_millis (as_millis (nanos_of_secs k)) = nanos_of_secs k"
proof -
  assume k: "k < 2 ^ 40"
  then have "1000 * k < 2 ^ 64" by simp
  then have "unat (word_of_nat (1000 * k) :: u64) = 1000 * k" by (simp only: unat_of_nat) simp
  moreover have "nanos_of_secs k div 1000000 = 1000 * k" by (simp add: nanos_of_secs_def)
  ultimately show ?thesis
    by (simp only: from_millis_def as_millis_def) (simp add: nanos_of_millis_def nanos_of_secs_def)
qed

lemmas vm_eval = vm_run_def vm_world_step_def sample_env_def actor_new_def command_defs ready_run_def
  vm_dispatch_def publish_state_def vm_handler_defs vm_take_def effect_defs is_ready_def needs_start_def
  decide_create_def boot_task_def on_internal_def start_if_pending_def get_cid_def on_idle_tick_def
  idle_seconds_def

theorem vm_callers_settle_witness:
  "parked (actor (vm_run [Commanded (Command.EnsureReady (nanos_of_secs 5) 1)])) = [1]
   \<and> inflight (actor (vm_run [Commanded (Command.EnsureReady (nanos_of_secs 5) 1)])) = Some (boot_task 1 5)
   \<and> (\<exists>o'. vm_enabled (Completed (boot_task 1 5) o') (vm_run [Commanded (Command.EnsureReady (nanos_of_secs 5) 1)]))"
proof -
  let ?w = "vm_run [Commanded (Command.EnsureReady (nanos_of_secs 5) 1)]"
  have r: "reach vm_start (vm_move vm_step) ?w" by (rule vm_run_reach) simp
  have p: "parked (actor ?w) = [1]" by (simp add: vm_eval parked_def cong: let_weak_cong)
  have i: "inflight (actor ?w) = Some (boot_task 1 5)" by (simp add: vm_eval parked_def cong: let_weak_cong)
  have "\<exists>o'. vm_enabled (Completed (boot_task 1 5) o') ?w"
    using vm_callers_settle [OF statig_vm r] unfolding p i by blast
  with p i show ?thesis by blast
qed

theorem vm_task_discipline_witness:
  "state_tx (actor (vm_run ready_run)) = VmLifecycleState.Idle
   \<and> Panicked \<notin> set (out (actor (vm_run ready_run)))"
proof -
  have r: "reach vm_start (vm_move vm_step) (vm_run ready_run)"
    by (rule vm_run_reach) (simp add: vm_eval cong: let_weak_cong)
  have "machine (actor (vm_run ready_run)) = VmMState.Idle" by (simp add: vm_eval parked_def cong: let_weak_cong)
  moreover have "state_tx (actor (vm_run ready_run)) = vm_to_public (machine (actor (vm_run ready_run)))
      \<and> Panicked \<notin> set (out (actor (vm_run ready_run)))"
    using vm_task_discipline [OF statig_vm r] by blast
  ultimately show ?thesis by simp
qed

theorem vm_balloon_follows_idle_witness:
  "balloon_regime (out (actor (vm_run ready_run))) = Some True"
proof -
  have r: "reach vm_start (vm_move vm_step) (vm_run ready_run)"
    by (rule vm_run_reach) (simp add: vm_eval cong: let_weak_cong)
  have "state_tx (actor (vm_run ready_run)) = VmLifecycleState.Idle" by (simp add: vm_eval parked_def cong: let_weak_cong)
  with vm_balloon_follows_idle [OF statig_vm r] show ?thesis by simp
qed


subsection \<open>Properties of the retry policy\<close>

definition failed_times :: "string \<Rightarrow> nat \<Rightarrow> RecoveryPolicy \<Rightarrow> RecoveryPolicy" where
  "failed_times error k p = ((\<lambda>p. snd (handle_failure error p)) ^^ k) p"

lemma handle_failure_state:
  "snd (handle_failure error p) = p\<lparr>retries := retries p + 1\<rparr>"
  by (simp add: handle_failure_def Let_def)

lemma failed_times_state: "failed_times error k p = p\<lparr>retries := retries p + word_of_nat k\<rparr>"
  by (induction k) (simp_all add: failed_times_def handle_failure_state algebra_simps)

definition retry_multiplier :: "nat \<Rightarrow> nat" where
  "retry_multiplier k = (if k < 32 then 2 ^ k else 2 ^ 32 - 1)"

lemma retry_multiplier_mono: "retry_multiplier k \<le> retry_multiplier (Suc k)"
proof -
  have "(2 :: nat) ^ k \<le> 2 ^ 31" if "k < 32" using that by (intro power_increasing) simp_all
  then show ?thesis by (auto simp: retry_multiplier_def)
qed

definition nominal_delay :: "BackoffStrategy \<Rightarrow> nat \<Rightarrow> duration" where
  "nominal_delay b k =
     (case b of
        Fixed d \<Rightarrow> d
      | Exponential i m \<Rightarrow> min (min duration_max (i * retry_multiplier k)) m)"

lemma nominal_delay_mono: "nominal_delay b k \<le> nominal_delay b (Suc k)"
  using retry_multiplier_mono [of k]
  by (cases b) (simp_all add: nominal_delay_def min.coboundedI1 min_le_iff_disj)

lemma multiplier:
  assumes "k < 2 ^ 32"
  shows "unat (unwrap_or (- 1) (checked_shl_one (word_of_nat k))) = retry_multiplier k"
proof -
  have k: "unat (word_of_nat k :: u32) = k" using assms by (simp add: unat_of_nat)
  then have lt: "(word_of_nat k :: u32) < 32 \<longleftrightarrow> k < 32" by (simp add: word_less_nat_alt)
  have "unat (push_bit k 1 :: u32) = 2 ^ k" if "k < 32"
  proof -
    have "(2 :: nat) ^ k < 2 ^ 32" using that by (intro power_strict_increasing) simp_all
    moreover have "(push_bit k 1 :: u32) = word_of_nat (2 ^ k)" by (simp add: push_bit_eq_mult)
    ultimately show ?thesis by (simp only: unat_of_nat) simp
  qed
  with k lt show ?thesis by (simp add: checked_shl_one_def unsigned_minus_1_eq_mask mask_eq_exp_minus_1 retry_multiplier_def)
qed

text \<open>C31: recovery backs off and gives up.  Of the failures since the last reset, the first
  \<open>max_retries\<close> are retried and every later one is reported (within the 32-bit counter); the delay
  of the k-th retry doubles from the initial one, never passes the maximum, and never shrinks.\<close>

theorem retries_back_off:
  assumes "k < 2 ^ 32"
  shows "fst (handle_failure error (failed_times error k (policy_reset p)))
      = (if k < unat (max_retries p) then RetryAfter (nominal_delay (backoff p) k) else GiveUp error)
    \<and> nominal_delay (backoff p) k \<le> nominal_delay (backoff p) (Suc k)
    \<and> (case backoff p of Fixed d \<Rightarrow> True
       | Exponential i m \<Rightarrow> nominal_delay (backoff p) k \<le> m
           \<and> (if k < 32 \<and> i * 2 ^ k \<le> min m duration_max then nominal_delay (backoff p) k = i * 2 ^ k else True))"
proof -
  have k: "unat (word_of_nat k :: u32) = k" using assms by (simp add: unat_of_nat)
  have "fst (handle_failure error (failed_times error k (policy_reset p)))
      = (if k < unat (max_retries p) then RetryAfter (nominal_delay (backoff p) k) else GiveUp error)"
    using k multiplier [OF assms]
    by (auto simp: handle_failure_def failed_times_state policy_reset_def nominal_delay_def Let_def word_le_nat_alt
        split: BackoffStrategy.splits)
  then show ?thesis
    using nominal_delay_mono [of "backoff p" k]
    by (auto simp: nominal_delay_def retry_multiplier_def split: BackoffStrategy.splits)
qed

theorem retries_back_off_witness:
  "fst (handle_failure ''e'' (failed_times ''e'' 2 (policy_reset (policy_new 3 default_backoff))))
     = RetryAfter (nanos_of_secs 2)
   \<and> fst (handle_failure ''e'' (failed_times ''e'' 3 (policy_reset (policy_new 3 default_backoff)))) = GiveUp ''e''"
  using retries_back_off [of 2 "''e''" "policy_new 3 default_backoff"]
    retries_back_off [of 3 "''e''" "policy_new 3 default_backoff"]
  by (simp add: policy_new_def default_backoff_def nominal_delay_def retry_multiplier_def duration_max_def nanos_of_secs_def
      nanos_of_millis_def)

end
