(* ===== verification/Computer_Actor.thy ===== *)
theory Computer_Actor
  imports Computer_Recovery
begin

section \<open>The actor of one computer\<close>

text \<open>
  \<open>lifecycle/actor/{mod,effects,inflight,commands}.rs\<close>: the task that owns one computer.  It runs
  the lifecycle machine, carries out the effects a transition asks for against the record store,
  the crash journal, the event bus, the timers and the sub-task port, and answers the callers.

  The actor is a record, and each of its methods is a function on it; the methods have the prefix
  \<open>ca_\<close>.  An await inside a handler (the join of a preempted sub-task, the handover) happens while
  no other message is taken, so a handler is one step.  What such a step asks the outside is a
  numbered call: \<open>port_calls P n\<close> is everything the outside answers to the n-th one (the outcome of
  every system call of the store, the clock, the handoff signal, the join, the handover, the journal
  file), so two calls of one step may be answered differently.  What it sends is appended to
  \<open>ca_out\<close>.  A reply channel is a number.  The epoch is a natural number: the 64-bit counter does not
  wrap before \<open>2 ^ 64\<close> spawned or aborted sub-tasks.  \<open>hw\<close> is the dispatch of the state machine
  crate.
\<close>

subsection \<open>Commands and reports\<close>

type_synonym caller = nat

datatype WorkloadOutcome = Exited ExitStatus | Broke string

record CaptureSpec =
  capture_name :: string
  capture_labels :: "string \<rightharpoonup> string"

record CheckpointInfo =
  info_snapshot_id :: string
  info_snapshot_dir :: string
  info_created_at :: string

record Deadlines =
  dl_ttl :: "instant option"
  dl_idle_timeout_seconds :: u32
  dl_on_idle :: IdleAction

datatype ComputerCommand =
    Provision Provision ComputerProvisionOutcome caller
  | Checkpoint CaptureSpec caller
  | Pause PauseReason caller
  | Resume string caller
  | Stop duration caller
  | Remove bool caller
  | Detach caller
  | ClaimWorkload WorkloadClaim caller
  | WorkloadExited WorkloadOutcome
  | ReleaseWorkload
  | SetLifecycle LifecycleUpdate caller
  | VmExited

text \<open>
  A sub-task failure carries the event the machine branches on; only the three constructors of
  \<open>TaskFailure\<close> build one.
\<close>

datatype TaskFailure = Recoverable ComputerError | Frozen ComputerError | Stranded ComputerError

fun failure_event :: "TaskFailure \<Rightarrow> Event" where
  "failure_event (TaskFailure.Recoverable _) = Event.Failure"
| "failure_event (TaskFailure.Frozen _) = Event.Frozen"
| "failure_event (TaskFailure.Stranded _) = Event.Stranded"

fun into_error :: "TaskFailure \<Rightarrow> ComputerError" where
  "into_error (TaskFailure.Recoverable e) = e"
| "into_error (TaskFailure.Frozen e) = e"
| "into_error (TaskFailure.Stranded e) = e"

datatype Drain = No | Until "instant option"

text \<open>The flow a sub-task runs: the verb of the port it calls.\<close>

datatype Job =
    BootJob bool
  | GateJob
  | RestoreJob RestoreOrigin
  | CheckpointJob bool "CaptureSpec option"
  | ResumeJob
  | StopJob duration Drain
  | ReleaseJob ReleaseScope

datatype 'h Report =
    Booted 'h
  | Restored 'h ComputerProvisionOutcome
  | Resumed 'h
  | Gated
  | Captured CheckpointInfo
  | Released ReleaseScope
  | Stopped
  | Failed TaskFailure

record 'h ComputerCompletion =
  done_epoch :: nat
  done_report :: "'h Report"

subsection \<open>The actor's state\<close>

datatype Handoff = Awaited | Abortable | JoinOnly

record Preemptible =
  task_job :: Job
  task_epoch :: nat
  task_handoff :: Handoff

datatype StalledStep = Handoff | Record RecordEnd

record Stalled =
  stalled_retry :: StalledStep
  stalled_state :: State
  stalled_effects :: "Effect list"

datatype Flow = Continue | Stalled | Refused

record 'h ComputerSnapshot =
  sn_state :: ComputerState
  sn_agent :: "'h option"
  sn_handle :: "'h option"
  sn_error :: "string option"
  sn_labels :: "string \<rightharpoonup> string"
  sn_vcpus :: u32
  sn_memory_mib :: u64
  sn_lease :: "'h option"
  sn_vm_dir :: string
  sn_created_at :: instant
  sn_ready_at :: "instant option"
  sn_last_exited_at :: "instant option"
  sn_last_exit_status :: "ExitStatus option"
  sn_paused_at :: "instant option"
  sn_pause_snapshot_id :: "string option"
  sn_cow_file :: "string option"
  sn_bind_mounts :: bool
  sn_deadlines :: Deadlines

record ComputerEvent =
  ev_sandbox_id :: string
  ev_action :: string
  ev_timestamp_ns :: int
  ev_attributes :: "string \<rightharpoonup> string"
  ev_sequence :: u64

text \<open>What the actor sends or calls, in order.\<close>

datatype WriteResult = Confirmed | Unconfirmed string | Refused ComputerError

datatype ActorOut =
    Replied caller "(unit, ComputerError) result"
  | CaptureReplied caller "(CheckpointInfo, ComputerError) result"
  | ReplyDropped caller
  | Spawned nat Job
  | TaskAborted nat
  | Published ComputerEvent
  | Wrote ComputerTransition Durability WriteResult
  | Deleted RecordEnd WriteResult
  | WroteLifecycle WriteResult
  | JournalCleared "string option"
  | Unregistered
  | Handover
  | Diverged

record ('h, 'byte) ComputerActor =
  ca_machine :: State
  ca_id :: string
  ca_runtime :: "'h ComputerRuntime"
  ca_generation :: "uuid option"
  ca_vm_dir :: string
  ca_records :: "'byte ComputerRecordStore"
  ca_snapshot :: "'h ComputerSnapshot"
  ca_effects :: Effects
  ca_queued :: "Event list"
  ca_waiters :: "(Answer \<times> caller) list"
  ca_capture_reply :: "caller option"
  ca_pending_stop :: "duration option"
  ca_inflight :: "Preemptible option"
  ca_epoch :: nat
  ca_stalled :: "Stalled option"
  ca_stalled_on :: StalledStep
  ca_retry_backoff :: duration
  ca_error :: "string option"
  ca_pause_snapshot_id :: "string option"
  ca_capture :: "CaptureSpec option"
  ca_outcome :: ComputerProvisionOutcome
  ca_pause_reason :: PauseReason
  ca_resume_reason :: string
  ca_exit :: "WorkloadOutcome option"
  ca_unconfirmed :: "string option"
  ca_answer_error :: "string option"
  ca_unwinding :: "ComputerError option"
  ca_clear_journal_after_release :: bool
  ca_journal_blocked :: bool
  ca_deadlines :: Deadlines
  ca_ttl :: "duration option"
  ca_idle :: "duration option"
  ca_retry :: "duration option"
  ca_timers_enabled :: bool
  ca_calls :: nat
  ca_out :: "ActorOut list"

text \<open>The outside.\<close>

datatype Signal = Landed | Dropped | Pending

datatype Join = Finished | Cancelled | Panicked string | StillRunning

record ('h, 'byte) Answers =
  an_io :: "'byte StoreIo"
  an_now :: instant
  an_signal :: Signal
  an_join :: Join
  an_detach :: "(unit, TaskFailure) result option"
  an_journal :: "string option"
  an_adopted :: "'h option"

record ('h, 'byte) Ports =
  port_json :: "'byte ext"
  port_cow_file :: "'h \<Rightarrow> string"
  port_calls :: "nat \<Rightarrow> ('h, 'byte) Answers"

subsection \<open>Construction\<close>

definition RETRY_INITIAL :: duration where
  "RETRY_INITIAL = nanos_of_millis 250"

definition RETRY_MAX :: duration where
  "RETRY_MAX = nanos_of_secs 5"

definition project :: "('h \<Rightarrow> string) \<Rightarrow> 'h ComputerRuntime \<Rightarrow> ComputerState \<Rightarrow> Deadlines \<Rightarrow> 'h ComputerSnapshot" where
  "project cow_file rt st dl =
     \<lparr>sn_state = st, sn_agent = None, sn_handle = rt_handle rt, sn_error = rt_error rt,
      sn_labels = rt_labels rt, sn_vcpus = spec_vcpus (rt_spec rt),
      sn_memory_mib = spec_memory_mib (rt_spec rt), sn_lease = rt_network rt,
      sn_vm_dir = rt_vm_dir rt, sn_created_at = rt_created_at rt, sn_ready_at = rt_ready_at rt,
      sn_last_exited_at = rt_last_exited_at rt, sn_last_exit_status = rt_last_exit_status rt,
      sn_paused_at = rt_paused_at rt, sn_pause_snapshot_id = rt_pause_snapshot_id rt,
      sn_cow_file = map_option cow_file (rt_cow_handle rt),
      sn_bind_mounts = (spec_mounts (rt_spec rt) \<noteq> []), sn_deadlines = dl\<rparr>"

text \<open>
  \<open>ComputerActor::new\<close>.  The first snapshot is the one the manager published when it reserved the
  computer.
\<close>

definition ca_new ::
  "string \<Rightarrow> 'h ComputerRuntime \<Rightarrow> uuid option \<Rightarrow> string \<Rightarrow> 'byte ComputerRecordStore \<Rightarrow> Deadlines
     \<Rightarrow> bool \<Rightarrow> 'h ComputerSnapshot \<Rightarrow> ('h, 'byte) ComputerActor" where
  "ca_new i rt gen dir st dl timers sn =
     \<lparr>ca_machine = initial_state, ca_id = i, ca_runtime = rt, ca_generation = gen, ca_vm_dir = dir,
      ca_records = st, ca_snapshot = sn, ca_effects = \<lparr>items = []\<rparr>, ca_queued = [],
      ca_waiters = [], ca_capture_reply = None, ca_pending_stop = None, ca_inflight = None,
      ca_epoch = 0, ca_stalled = None, ca_stalled_on = StalledStep.Handoff,
      ca_retry_backoff = RETRY_INITIAL, ca_error = None,
      ca_pause_snapshot_id = rt_pause_snapshot_id rt, ca_capture = None,
      ca_outcome = default_outcome, ca_pause_reason = PauseReason.Requested,
      ca_resume_reason = ''resume'', ca_exit = None, ca_unconfirmed = None,
      ca_answer_error = None, ca_unwinding = None, ca_clear_journal_after_release = False,
      ca_journal_blocked = False, ca_deadlines = dl, ca_ttl = None, ca_idle = None,
      ca_retry = None, ca_timers_enabled = timers, ca_calls = 0, ca_out = []\<rparr>"

text \<open>A call of the outside, and what is sent.\<close>

definition ask :: "('h, 'byte) Ports \<Rightarrow> ('h, 'byte) ComputerActor \<Rightarrow> ('h, 'byte) Answers" where
  "ask P a = port_calls P (ca_calls a)"

definition asked :: "('h, 'byte) ComputerActor \<Rightarrow> ('h, 'byte) ComputerActor" where
  "asked a = a\<lparr>ca_calls := Suc (ca_calls a)\<rparr>"

definition send :: "ActorOut list \<Rightarrow> ('h, 'byte) ComputerActor \<Rightarrow> ('h, 'byte) ComputerActor" where
  "send os a = a\<lparr>ca_out := ca_out a @ os\<rparr>"

subsection \<open>The read view\<close>

definition ca_public :: "('h, 'byte) ComputerActor \<Rightarrow> ComputerState" where
  "ca_public a = sn_state (ca_snapshot a)"

definition ca_publish_state ::
  "('h, 'byte) Ports \<Rightarrow> State \<Rightarrow> ('h, 'byte) ComputerActor \<Rightarrow> ('h, 'byte) ComputerActor" where
  "ca_publish_state P st a =
     (let public = to_public st;
          rt = (ca_runtime a)\<lparr>rt_state := public\<rparr>;
          projected = project (port_cow_file P) rt public (ca_deadlines a)
      in a\<lparr>ca_runtime := rt, ca_snapshot := projected\<lparr>sn_agent := sn_agent (ca_snapshot a)\<rparr>\<rparr>)"

definition ca_publish_agent :: "'h \<Rightarrow> ('h, 'byte) ComputerActor \<Rightarrow> ('h, 'byte) ComputerActor" where
  "ca_publish_agent ag a = a\<lparr>ca_snapshot := (ca_snapshot a)\<lparr>sn_agent := Some ag\<rparr>\<rparr>"

definition ca_forget_agent :: "('h, 'byte) ComputerActor \<Rightarrow> ('h, 'byte) ComputerActor" where
  "ca_forget_agent a = a\<lparr>ca_snapshot := (ca_snapshot a)\<lparr>sn_agent := None\<rparr>\<rparr>"

subsection \<open>Answering callers\<close>

definition ca_wrong_state :: "string \<Rightarrow> ('h, 'byte) ComputerActor \<Rightarrow> ComputerError" where
  "ca_wrong_state expected a = WrongState (ca_id a) expected (state_text (ca_public a))"

definition ca_park ::
  "Answer \<Rightarrow> caller \<Rightarrow> ('h, 'byte) ComputerActor \<Rightarrow> ('h, 'byte) ComputerActor" where
  "ca_park ans reply a =
     (case ca_answer_error a of
        Some detail \<Rightarrow> send [Replied reply (Err (ComputerError.Unavailable detail))] (a\<lparr>ca_answer_error := None\<rparr>)
      | None \<Rightarrow> a\<lparr>ca_waiters := ca_waiters a @ [(ans, reply)]\<rparr>)"

text \<open>What a flow that reached its answer owes the callers parked on it.\<close>

definition answer_result ::
  "string \<Rightarrow> string option \<Rightarrow> string option \<Rightarrow> (unit, ComputerError) result" where
  "answer_result i failed unconfirmed =
     (case failed of
        Some detail \<Rightarrow> Err (ComputerError.Unavailable detail)
      | None \<Rightarrow>
          (case unconfirmed of
             Some detail \<Rightarrow> Err (AckUnconfirmed i detail)
           | None \<Rightarrow> Ok ()))"

definition ca_answer :: "Answer \<Rightarrow> ('h, 'byte) ComputerActor \<Rightarrow> ('h, 'byte) ComputerActor" where
  "ca_answer ans a =
     (let result = answer_result (ca_id a) (ca_answer_error a) (ca_unconfirmed a);
          heard = map snd (filter (\<lambda>w. fst w = ans) (ca_waiters a));
          remaining = filter (\<lambda>w. fst w \<noteq> ans) (ca_waiters a)
      in send (map (\<lambda>r. Replied r result) heard)
           (a\<lparr>ca_unconfirmed := None, ca_answer_error := None, ca_waiters := remaining\<rparr>))"

definition ca_acknowledged ::
  "('h, 'byte) ComputerActor \<Rightarrow> (unit, ComputerError) result \<times> ('h, 'byte) ComputerActor" where
  "ca_acknowledged a =
     (case ca_answer_error a of
        Some detail \<Rightarrow> (Err (ComputerError.Unavailable detail), a\<lparr>ca_answer_error := None\<rparr>)
      | None \<Rightarrow>
          (case ca_unconfirmed a of
             Some detail \<Rightarrow> (Err (AckUnconfirmed (ca_id a) detail), a\<lparr>ca_unconfirmed := None\<rparr>)
           | None \<Rightarrow> (Ok (), a)))"

text \<open>The typed error goes to the first caller, its text to the others.\<close>

fun fail_replies :: "ComputerError \<Rightarrow> caller list \<Rightarrow> ActorOut list" where
  "fail_replies e [] = []"
| "fail_replies e (r # rs) =
     Replied r (Err e) # map (\<lambda>r. Replied r (Err (Other (error_text e)))) rs"

definition ca_fail_parked ::
  "ComputerError \<Rightarrow> bool \<Rightarrow> ('h, 'byte) ComputerActor \<Rightarrow> nat \<times> ('h, 'byte) ComputerActor" where
  "ca_fail_parked e removals_too a =
     (let stays = (\<lambda>w. fst w = Answer.Removed \<and> \<not> removals_too);
          heard = map snd (filter (\<lambda>w. \<not> stays w) (ca_waiters a))
      in (length heard,
          send (fail_replies e heard) (a\<lparr>ca_waiters := filter stays (ca_waiters a)\<rparr>)))"

definition ca_fail_waiters ::
  "ComputerError \<Rightarrow> ('h, 'byte) ComputerActor \<Rightarrow> ('h, 'byte) ComputerActor" where
  "ca_fail_waiters e a = snd (ca_fail_parked e False a)"

definition ca_fail_every_waiter ::
  "ComputerError \<Rightarrow> ('h, 'byte) ComputerActor \<Rightarrow> nat \<times> ('h, 'byte) ComputerActor" where
  "ca_fail_every_waiter e a = ca_fail_parked e True a"

definition ca_abandon_capture :: "('h, 'byte) ComputerActor \<Rightarrow> ('h, 'byte) ComputerActor" where
  "ca_abandon_capture a =
     (case ca_capture_reply a of
        Some reply \<Rightarrow>
          send [CaptureReplied reply (Err (ComputerError.Unavailable
                 (''computer '' @ ca_id a @ '': the checkpoint was preempted by another operation'')))]
            (a\<lparr>ca_capture_reply := None\<rparr>)
      | None \<Rightarrow> a)"

subsection \<open>Durable writes\<close>

text \<open>How the store's answer is read: refused, visible but unconfirmed, or confirmed.\<close>

definition write_result :: "('a DurableCommit, ComputerError) result \<Rightarrow> WriteResult" where
  "write_result r =
     (case r of
        Err e \<Rightarrow> WriteResult.Refused e
      | Ok c \<Rightarrow> (case durability_error c of None \<Rightarrow> Confirmed | Some e \<Rightarrow> Unconfirmed e))"

definition store_transition ::
  "('h, 'byte) Ports \<Rightarrow> uuid \<Rightarrow> ComputerTransition \<Rightarrow> Durability \<Rightarrow> ('h, 'byte) ComputerActor
     \<Rightarrow> WriteResult \<times> ('h, 'byte) ComputerActor" where
  "store_transition P gen t d a =
     (let (r, st) = transition (port_json P) (an_io (ask P a)) (ca_id a) gen t (ca_records a);
          w = write_result r
      in (w, send [Wrote t d w] ((asked a)\<lparr>ca_records := st\<rparr>)))"

definition ca_fail_write ::
  "string \<Rightarrow> ('h, 'byte) ComputerActor \<Rightarrow> Flow \<times> ('h, 'byte) ComputerActor" where
  "ca_fail_write detail a =
     (let message = ''computer '' @ ca_id a @ '' '' @ detail;
          e = ComputerError.Unavailable message;
          (heard, a) = ca_fail_every_waiter e (a\<lparr>ca_error := Some (error_text e)\<rparr>);
          a = (if heard = 0 then a\<lparr>ca_answer_error := Some message\<rparr> else a)
      in (Flow.Refused, a\<lparr>ca_queued := ca_queued a @ [Event.Failure]\<rparr>))"

definition UNCONFIRMED_DETAIL :: string where
  "UNCONFIRMED_DETAIL = ''state is visible, but durability is unconfirmed: ''"

text \<open>
  The one recursion of \<open>commit\<close> is the revert of an unconfirmed \<open>Resuming\<close>, a write of another
  durability.
\<close>

function ca_commit ::
  "('h, 'byte) Ports \<Rightarrow> ComputerPhase \<Rightarrow> ComputerTransition \<Rightarrow> Durability \<Rightarrow> ('h, 'byte) ComputerActor
     \<Rightarrow> Flow \<times> ('h, 'byte) ComputerActor" where
  "ca_commit P phase t d a =
     (case ca_generation a of
        None \<Rightarrow> (Flow.Continue, a)
      | Some gen \<Rightarrow>
          (case store_transition P gen t d a of
             (WriteResult.Refused e, a) \<Rightarrow>
               if d = Durability.GateJournal then (Flow.Continue, a\<lparr>ca_journal_blocked := True\<rparr>)
               else ca_fail_write (''recording '' @ as_str phase @ '' failed: '' @ error_text e) a
           | (Confirmed, a) \<Rightarrow> (Flow.Continue, a)
           | (Unconfirmed e, a) \<Rightarrow>
               (case d of
                  Durability.Warn \<Rightarrow> (Flow.Continue, a)
                | Durability.GateJournal \<Rightarrow> (Flow.Continue, a\<lparr>ca_journal_blocked := True\<rparr>)
                | Durability.Report Unconfirmed.Ack \<Rightarrow> (Flow.Continue, a\<lparr>ca_unconfirmed := Some e\<rparr>)
                | Durability.Report Unconfirmed.Unavailable \<Rightarrow> ca_fail_write (UNCONFIRMED_DETAIL @ e) a
                | Durability.Report Unconfirmed.RevertToPaused \<Rightarrow>
                    (case ca_commit P ComputerPhase.Paused
                            (ComputerTransition.Paused (unwrap_or [] (ca_pause_snapshot_id a)))
                            Durability.Warn a of
                       (Flow.Refused, a) \<Rightarrow> (Flow.Refused, a)
                     | (_, a) \<Rightarrow> ca_fail_write (UNCONFIRMED_DETAIL @ e) a))))"
  by pat_completeness auto

termination ca_commit
  by (relation "measure (\<lambda>(P, phase, t, d, a). if d = Durability.Report Unconfirmed.RevertToPaused then 1 else 0)")
    auto

declare ca_commit.simps [simp del]

definition ca_persist ::
  "('h, 'byte) Ports \<Rightarrow> ComputerPhase \<Rightarrow> Durability \<Rightarrow> ('h, 'byte) ComputerActor
     \<Rightarrow> Flow \<times> ('h, 'byte) ComputerActor" where
  "ca_persist P phase d a =
     (case phase of
        ComputerPhase.Starting \<Rightarrow> ca_commit P phase (ComputerTransition.Starting (ca_outcome a)) d a
      | ComputerPhase.Ready \<Rightarrow> ca_commit P phase ComputerTransition.Ready d a
      | ComputerPhase.Stopping \<Rightarrow> ca_commit P phase ComputerTransition.Stopping d a
      | ComputerPhase.Stopped \<Rightarrow> ca_commit P phase ComputerTransition.Stopped d a
      | ComputerPhase.Failed \<Rightarrow>
          ca_commit P phase (ComputerTransition.Failed (unwrap_or [] (ca_error a))) d a
      | ComputerPhase.Removing \<Rightarrow> ca_commit P phase ComputerTransition.Removing d a
      | ComputerPhase.Pausing \<Rightarrow> ca_commit P phase ComputerTransition.Pausing d a
      | ComputerPhase.Paused \<Rightarrow>
          let rt = ca_runtime a;
              rt = rt\<lparr>rt_paused_at := get_or_insert (rt_paused_at rt) (an_now (ask P a)),
                      rt_pause_snapshot_id := ca_pause_snapshot_id a\<rparr>
          in ca_commit P phase (ComputerTransition.Paused (unwrap_or [] (ca_pause_snapshot_id a))) d
               ((asked a)\<lparr>ca_runtime := rt\<rparr>)
      | ComputerPhase.Resuming \<Rightarrow> ca_commit P phase ComputerTransition.Resuming d a
      | ComputerPhase.Creating \<Rightarrow> (Flow.Continue, a))"

definition ca_schedule_retry :: "('h, 'byte) ComputerActor \<Rightarrow> ('h, 'byte) ComputerActor" where
  "ca_schedule_retry a =
     a\<lparr>ca_retry := Some (ca_retry_backoff a),
       ca_retry_backoff := min (2 * ca_retry_backoff a) RETRY_MAX\<rparr>"

definition ca_forget ::
  "('h, 'byte) Ports \<Rightarrow> RecordEnd \<Rightarrow> ('h, 'byte) ComputerActor \<Rightarrow> Flow \<times> ('h, 'byte) ComputerActor" where
  "ca_forget P end' a =
     (case ca_generation a of
        None \<Rightarrow> (Flow.Continue, send [Unregistered] a)
      | Some gen \<Rightarrow>
          let (r, st) = (case end' of
                 RecordEnd.Aborted \<Rightarrow> abort_provision (port_json P) (an_io (ask P a)) (ca_id a) gen (ca_records a)
               | RecordEnd.Removed \<Rightarrow> finish_remove (port_json P) (an_io (ask P a)) (ca_id a) gen (ca_records a));
              a = send [Deleted end' (write_result r)] ((asked a)\<lparr>ca_records := st\<rparr>)
          in case r of
               Ok commit \<Rightarrow>
                 (Flow.Continue,
                  send [Unregistered]
                    (a\<lparr>ca_unconfirmed := (case durability_error commit of
                            Some e \<Rightarrow> Some e | None \<Rightarrow> ca_unconfirmed a),
                       ca_retry_backoff := RETRY_INITIAL, ca_answer_error := None\<rparr>))
             | Err e \<Rightarrow>
                 (Flow.Stalled,
                  ca_schedule_retry
                    (a\<lparr>ca_answer_error := Some (''computer '' @ ca_id a
                         @ '': the record would not delete: '' @ error_text e),
                       ca_stalled_on := StalledStep.Record end'\<rparr>)))"

definition ca_persist_lifecycle ::
  "('h, 'byte) Ports \<Rightarrow> ('h, 'byte) ComputerActor
     \<Rightarrow> (unit, ComputerError) result \<times> ('h, 'byte) ComputerActor" where
  "ca_persist_lifecycle P a =
     (case ca_generation a of
        None \<Rightarrow> (Ok (), a)
      | Some gen \<Rightarrow>
          let (r, st) = update_lifecycle (port_json P) (an_io (ask P a)) (ca_id a) gen
                (dl_ttl (ca_deadlines a)) (dl_idle_timeout_seconds (ca_deadlines a))
                (dl_on_idle (ca_deadlines a)) (ca_records a)
          in (and_then r (confirmed ''computer lifecycle update''),
              send [WroteLifecycle (write_result r)] ((asked a)\<lparr>ca_records := st\<rparr>)))"

definition ca_unblock_journal :: "('h, 'byte) ComputerActor \<Rightarrow> ('h, 'byte) ComputerActor" where
  "ca_unblock_journal a = a\<lparr>ca_journal_blocked := False\<rparr>"

text \<open>\<open>an_journal\<close> is the error \<open>clear_state_record\<close> reports, which is only logged.\<close>

definition ca_clear_journal ::
  "('h, 'byte) Ports \<Rightarrow> ('h, 'byte) ComputerActor \<Rightarrow> ('h, 'byte) ComputerActor" where
  "ca_clear_journal P a =
     (if ca_journal_blocked a then a\<lparr>ca_journal_blocked := False\<rparr>
      else send [JournalCleared (an_journal (ask P a))] (asked a))"

subsection \<open>The in-flight sub-task\<close>

definition ca_spawn :: "Handoff \<Rightarrow> Job \<Rightarrow> ('h, 'byte) ComputerActor \<Rightarrow> ('h, 'byte) ComputerActor" where
  "ca_spawn h j a =
     (let a = (case ca_inflight a of
                 Some previous \<Rightarrow>
                   ca_abandon_capture (send [TaskAborted (task_epoch previous)] (a\<lparr>ca_inflight := None\<rparr>))
               | None \<Rightarrow> a);
          e = Suc (ca_epoch a)
      in send [Spawned e j]
           (a\<lparr>ca_epoch := e,
              ca_inflight := Some \<lparr>task_job = j, task_epoch = e, task_handoff = h\<rparr>\<rparr>))"

definition ca_stall ::
  "Preemptible \<Rightarrow> ('h, 'byte) ComputerActor \<Rightarrow> Flow \<times> ('h, 'byte) ComputerActor" where
  "ca_stall task a =
     (Flow.Stalled,
      ca_schedule_retry (a\<lparr>ca_inflight := Some task, ca_stalled_on := StalledStep.Handoff\<rparr>))"

text \<open>The join of a preempted task, bounded by the handoff timeout.\<close>

definition ca_join ::
  "('h, 'byte) Ports \<Rightarrow> Preemptible \<Rightarrow> ('h, 'byte) ComputerActor \<Rightarrow> Flow \<times> ('h, 'byte) ComputerActor" where
  "ca_join P task a =
     (let joined = an_join (ask P a); a = asked a
      in case joined of
           StillRunning \<Rightarrow> ca_stall task a
         | Panicked e \<Rightarrow>
             let a = snd (ca_fail_every_waiter
                   (Process (''computer '' @ ca_id a @ '' sub-task panicked: '' @ e)) a)
             in (Flow.Stalled, a\<lparr>ca_epoch := Suc (ca_epoch a)\<rparr>)
         | _ \<Rightarrow>
             (Flow.Continue,
              ca_abandon_capture
                (a\<lparr>ca_epoch := Suc (ca_epoch a), ca_retry_backoff := RETRY_INITIAL\<rparr>)))"

definition ca_abort_inflight ::
  "('h, 'byte) Ports \<Rightarrow> ('h, 'byte) ComputerActor \<Rightarrow> Flow \<times> ('h, 'byte) ComputerActor" where
  "ca_abort_inflight P a =
     (case ca_inflight a of
        None \<Rightarrow> (Flow.Continue, a\<lparr>ca_epoch := Suc (ca_epoch a)\<rparr>)
      | Some task \<Rightarrow>
          let a = a\<lparr>ca_inflight := None\<rparr>
          in case task_handoff task of
               Handoff.Awaited \<Rightarrow>
                 (let signal = an_signal (ask P a); a = asked a
                  in case signal of
                       Landed \<Rightarrow>
                         ca_join P (task\<lparr>task_handoff := Handoff.Abortable\<rparr>)
                           (send [TaskAborted (task_epoch task)] a)
                     | Dropped \<Rightarrow> ca_join P (task\<lparr>task_handoff := Handoff.JoinOnly\<rparr>) a
                     | Pending \<Rightarrow> ca_stall task a)
             | Handoff.Abortable \<Rightarrow> ca_join P task (send [TaskAborted (task_epoch task)] a)
             | Handoff.JoinOnly \<Rightarrow> ca_join P task a)"

definition ca_park_stalled ::
  "State \<Rightarrow> Effect list \<Rightarrow> ('h, 'byte) ComputerActor \<Rightarrow> ('h, 'byte) ComputerActor" where
  "ca_park_stalled st fs a =
     a\<lparr>ca_stalled_on := StalledStep.Handoff,
       ca_stalled := Some \<lparr>stalled_retry = ca_stalled_on a, stalled_state = st, stalled_effects = fs\<rparr>\<rparr>"

subsection \<open>Timers and events\<close>

definition ca_arm ::
  "('h, 'byte) Ports \<Rightarrow> Timer \<Rightarrow> State \<Rightarrow> ('h, 'byte) ComputerActor \<Rightarrow> ('h, 'byte) ComputerActor" where
  "ca_arm P timer st a =
     (if \<not> ca_timers_enabled a then a
      else case timer of
             Timer.Ttl \<Rightarrow>
               (asked a)\<lparr>ca_ttl := map_option (\<lambda>deadline. remaining deadline (an_now (ask P a)))
                                    (ttl_due (to_public st) (dl_ttl (ca_deadlines a)))\<rparr>
           | Timer.Idle \<Rightarrow>
               a\<lparr>ca_idle := idle_due (to_public st) (dl_idle_timeout_seconds (ca_deadlines a))\<rparr>)"

definition ca_rearm ::
  "('h, 'byte) Ports \<Rightarrow> State \<Rightarrow> ('h, 'byte) ComputerActor \<Rightarrow> ('h, 'byte) ComputerActor" where
  "ca_rearm P st a = ca_arm P Timer.Idle st (ca_arm P Timer.Ttl st a)"

fun notify_action :: "Notify \<Rightarrow> string" where
  "notify_action Notify.Created = ''created''"
| "notify_action Notify.Ready = ''ready''"
| "notify_action Notify.Running = ''running''"
| "notify_action Notify.Idle = ''idle''"
| "notify_action Notify.Stopping = ''stopping''"
| "notify_action Notify.Stopped = ''stopped''"
| "notify_action Notify.Failed = ''failed''"
| "notify_action Notify.Removed = ''removed''"
| "notify_action Notify.Pausing = ''pausing''"
| "notify_action Notify.Paused = ''paused''"
| "notify_action Notify.Resumed = ''resumed''"

text \<open>Decimal text of an \<open>i32\<close>.\<close>

definition show_i32 :: "32 word \<Rightarrow> string" where
  "show_i32 w = (if sint w < 0 then CHR ''-'' # show_nat (nat (- sint w)) else show_nat (nat (sint w)))"

fun exit_attributes :: "WorkloadOutcome option \<Rightarrow> (string \<rightharpoonup> string)" where
  "exit_attributes None = Map.empty"
| "exit_attributes (Some (Broke e)) = [''error'' \<mapsto> e]"
| "exit_attributes (Some (Exited st)) =
     (case st of
        Signaled sig \<Rightarrow> [''exit_code'' \<mapsto> show_i32 (conventional_code st), ''signal'' \<mapsto> show_i32 sig]
      | Code _ \<Rightarrow> [''exit_code'' \<mapsto> show_i32 (conventional_code st)])"

definition event_new :: "instant \<Rightarrow> string \<Rightarrow> string \<Rightarrow> ComputerEvent" where
  "event_new n i act =
     \<lparr>ev_sandbox_id = i, ev_action = act,
      ev_timestamp_ns = (if - (2 ^ 63) \<le> n \<and> n < 2 ^ 63 then n else 0), ev_attributes = Map.empty,
      ev_sequence = 0\<rparr>"

definition ca_publish ::
  "('h, 'byte) Ports \<Rightarrow> Notify \<Rightarrow> ('h, 'byte) ComputerActor \<Rightarrow> ('h, 'byte) ComputerActor" where
  "ca_publish P n a =
     (let event = event_new (an_now (ask P a)) (ca_id a) (notify_action n); a = asked a
      in case n of
           Notify.Failed \<Rightarrow>
             let e = unwrap_or [] (ca_error a)
             in send [Published (event\<lparr>ev_attributes := [''error'' \<mapsto> e]\<rparr>)]
                  (a\<lparr>ca_runtime := (ca_runtime a)\<lparr>rt_error := Some e\<rparr>,
                     ca_snapshot := (ca_snapshot a)\<lparr>sn_error := Some e\<rparr>\<rparr>)
         | Notify.Pausing \<Rightarrow>
             send [Published (event\<lparr>ev_attributes := [''reason'' \<mapsto> pause_reason_text (ca_pause_reason a)]\<rparr>)] a
         | Notify.Resumed \<Rightarrow>
             send [Published (event\<lparr>ev_attributes := [''reason'' \<mapsto> ca_resume_reason a]\<rparr>)] a
         | Notify.Idle \<Rightarrow>
             send [Published (event\<lparr>ev_attributes := exit_attributes (ca_exit a)\<rparr>)] (a\<lparr>ca_exit := None\<rparr>)
         | _ \<Rightarrow> send [Published event] a)"

subsection \<open>Executing effects\<close>

definition ca_detach ::
  "('h, 'byte) Ports \<Rightarrow> ('h, 'byte) ComputerActor \<Rightarrow> ('h, 'byte) ComputerActor" where
  "ca_detach P a =
     (let agent = sn_agent (ca_snapshot a);
          answer = an_detach (ask P a);
          a = send [Handover] (asked (ca_forget_agent a));
          handover = (case answer of
             Some r \<Rightarrow> r
           | None \<Rightarrow> Err (TaskFailure.Recoverable (Process
                (''handing computer '' @ ca_id a @ '' over did not finish within 5s''))))
      in case handover of
           Ok _ \<Rightarrow> a\<lparr>ca_queued := ca_queued a @ [Event.Detached]\<rparr>
         | Err failure \<Rightarrow>
             ca_fail_waiters (into_error failure)
               (case agent of Some ag \<Rightarrow> ca_publish_agent ag a | None \<Rightarrow> a))"

text \<open>
  The effects that always continue, and \<open>ca_apply\<close> with the four that may stall or refuse the rest
  of the transition.
\<close>

fun ca_perform ::
  "('h, 'byte) Ports \<Rightarrow> Effect \<Rightarrow> State \<Rightarrow> ('h, 'byte) ComputerActor \<Rightarrow> ('h, 'byte) ComputerActor" where
  "ca_perform P Effect.ClearJournal st a =
     (if ca_inflight a \<noteq> None then a\<lparr>ca_clear_journal_after_release := True\<rparr> else ca_clear_journal P a)"
| "ca_perform P (Effect.SpawnBoot w) st a = ca_spawn Handoff.Awaited (BootJob w) a"
| "ca_perform P Effect.SpawnGate st a = ca_spawn Handoff.Abortable GateJob a"
| "ca_perform P (Effect.SpawnRestore o') st a = ca_spawn Handoff.JoinOnly (RestoreJob o') a"
| "ca_perform P (Effect.SpawnCheckpoint h) st a =
     ca_spawn Handoff.Abortable (CheckpointJob h (ca_capture a)) (a\<lparr>ca_capture := None\<rparr>)"
| "ca_perform P Effect.SpawnResume st a = ca_spawn Handoff.JoinOnly ResumeJob a"
| "ca_perform P (Effect.SpawnStop budget drains) st a =
     (let d = (if drains then Drain.Until (rt_last_exited_at (ca_runtime a)) else Drain.No)
      in ca_spawn Handoff.Abortable (StopJob (nanos_of_millis (unat budget)) d) (ca_forget_agent a))"
| "ca_perform P (Effect.SpawnRelease scope) st a =
     ca_spawn Handoff.Abortable (ReleaseJob scope) (ca_forget_agent a)"
| "ca_perform P Effect.Detach st a = ca_detach P a"
| "ca_perform P (Effect.Publish n) st a = ca_publish P n a"
| "ca_perform P (Effect.ArmTimer timer) st a = ca_arm P timer st a"
| "ca_perform P (Effect.CancelTimer Timer.Ttl) st a = a\<lparr>ca_ttl := None\<rparr>"
| "ca_perform P (Effect.CancelTimer Timer.Idle) st a = a\<lparr>ca_idle := None\<rparr>"
| "ca_perform P (Effect.Answer ans) st a =
     (let a = (case (ans, ca_unwinding a) of
                 (Answer.Removed, Some e) \<Rightarrow> ca_fail_waiters e (a\<lparr>ca_unwinding := None\<rparr>)
               | _ \<Rightarrow> a)
      in ca_answer ans a)"
| "ca_perform P _ st a = a"

definition ca_apply ::
  "('h, 'byte) Ports \<Rightarrow> Effect \<Rightarrow> State \<Rightarrow> ('h, 'byte) ComputerActor \<Rightarrow> Flow \<times> ('h, 'byte) ComputerActor" where
  "ca_apply P f st a =
     (case f of
        Effect.PersistPhase phase d \<Rightarrow> ca_persist P phase d a
      | Effect.CommitRestored d \<Rightarrow>
          ca_commit P ComputerPhase.Ready (ReadyWithOutcome (ca_outcome a)) d a
      | Effect.ForgetRecord end' \<Rightarrow> ca_forget P end' a
      | Effect.AbortInflight \<Rightarrow> ca_abort_inflight P a
      | _ \<Rightarrow> (Flow.Continue, ca_perform P f st a))"

text \<open>The effect loop, which three methods share: a stalled step parks the rest, a refused one drops it.\<close>

fun ca_drain ::
  "('h, 'byte) Ports \<Rightarrow> State \<Rightarrow> Effect list \<Rightarrow> ('h, 'byte) ComputerActor \<Rightarrow> ('h, 'byte) ComputerActor" where
  "ca_drain P st [] a = a"
| "ca_drain P st (f # fs) a =
     (case ca_apply P f st a of
        (Flow.Continue, a) \<Rightarrow> ca_drain P st fs a
      | (Flow.Stalled, a) \<Rightarrow> ca_park_stalled st fs a
      | (Flow.Refused, a) \<Rightarrow> a)"

definition ca_resume_stalled ::
  "('h, 'byte) Ports \<Rightarrow> ('h, 'byte) ComputerActor \<Rightarrow> ('h, 'byte) ComputerActor" where
  "ca_resume_stalled P a =
     (case ca_stalled a of
        None \<Rightarrow> a
      | Some stalled \<Rightarrow>
          let a = a\<lparr>ca_stalled := None\<rparr>;
              (retried, a) = (case stalled_retry stalled of
                  StalledStep.Handoff \<Rightarrow> ca_abort_inflight P a
                | StalledStep.Record end' \<Rightarrow> ca_forget P end' a)
          in if retried = Flow.Stalled then a\<lparr>ca_stalled := Some stalled\<rparr>
             else ca_drain P (stalled_state stalled) (stalled_effects stalled) a)"

definition ca_restart_teardown ::
  "('h, 'byte) Ports \<Rightarrow> State \<Rightarrow> ('h, 'byte) ComputerActor \<Rightarrow> ('h, 'byte) ComputerActor" where
  "ca_restart_teardown P st a =
     (if ca_stalled a \<noteq> None then ca_resume_stalled P a
      else ca_drain P st (fst (fx_take (fx_removal \<lparr>items = []\<rparr>))) a)"

subsection \<open>Dispatch\<close>

text \<open>One event: the machine's step, the publication and the effects.\<close>

definition ca_step ::
  "machine \<Rightarrow> ('h, 'byte) Ports \<Rightarrow> Event \<Rightarrow> ('h, 'byte) ComputerActor \<Rightarrow> bool \<times> ('h, 'byte) ComputerActor" where
  "ca_step hw P e a =
     (let before = ca_machine a;
          (after, c) = hw before e (ca_effects a);
          (fs, c) = fx_take c;
          acted = (fs \<noteq> [] \<or> before \<noteq> after);
          a = ca_publish_state P after (a\<lparr>ca_machine := after, ca_effects := c\<rparr>);
          a = ca_drain P after fs a
      in (acted, ca_publish_state P after a))"

text \<open>
  The events an effect queued, each dispatched in turn; a dispatch drains the queue itself before
  the loop that called it looks again.  The loop runs on fuel, one unit for each queued event and one
  more, and \<open>Diverged\<close> says that it ran out; \<open>Computer_Turns\<close> shows that it never does.
\<close>

fun ca_drain_queue ::
  "nat \<Rightarrow> machine \<Rightarrow> ('h, 'byte) Ports \<Rightarrow> ('h, 'byte) ComputerActor \<Rightarrow> ('h, 'byte) ComputerActor" where
  "ca_drain_queue n hw P a =
     (case ca_queued a of
        [] \<Rightarrow> a
      | e # es \<Rightarrow>
          (case n of
             0 \<Rightarrow> send [Diverged] a
           | Suc m \<Rightarrow> ca_drain_queue m hw P
               (ca_drain_queue m hw P (snd (ca_step hw P e (a\<lparr>ca_queued := es\<rparr>))))))"

declare ca_drain_queue.simps [simp del]

definition QUEUE_FUEL :: nat where
  "QUEUE_FUEL = 1"

definition ca_dispatch ::
  "machine \<Rightarrow> ('h, 'byte) Ports \<Rightarrow> Event \<Rightarrow> ('h, 'byte) ComputerActor \<Rightarrow> bool \<times> ('h, 'byte) ComputerActor" where
  "ca_dispatch hw P e a =
     (let (acted, a) = ca_step hw P e a in (acted, ca_drain_queue (QUEUE_FUEL + length (ca_queued a)) hw P a))"

definition ca_tell ::
  "machine \<Rightarrow> ('h, 'byte) Ports \<Rightarrow> Event \<Rightarrow> ('h, 'byte) ComputerActor \<Rightarrow> ('h, 'byte) ComputerActor" where
  "ca_tell hw P e a = snd (ca_dispatch hw P e a)"

subsection \<open>Commands\<close>

fun launching :: "State \<Rightarrow> bool" where
  "launching State.Provisioning = True"
| "launching State.Staging = True"
| "launching State.Booting = True"
| "launching (State.Restoring _) = True"
| "launching (State.Gating _ _) = True"
| "launching State.Resuming = True"
| "launching _ = False"

text \<open>The budget in milliseconds, saturated at the 64-bit maximum.\<close>

definition budget_millis :: "duration \<Rightarrow> u64" where
  "budget_millis budget =
     (let ms = budget div 1000000 in if ms < 2 ^ 64 then word_of_nat ms else - 1)"

definition ca_refuse_handed_over ::
  "ComputerCommand \<Rightarrow> ('h, 'byte) ComputerActor \<Rightarrow> ('h, 'byte) ComputerActor" where
  "ca_refuse_handed_over c a =
     (let refused = ca_wrong_state ''a computer this process still owns'' a
      in case c of
           ComputerCommand.Provision _ _ r \<Rightarrow> send [Replied r (Err refused)] a
         | ComputerCommand.Pause _ r \<Rightarrow> send [Replied r (Err refused)] a
         | ComputerCommand.Resume _ r \<Rightarrow> send [Replied r (Err refused)] a
         | ComputerCommand.Stop _ r \<Rightarrow> send [Replied r (Err refused)] a
         | ComputerCommand.Remove _ r \<Rightarrow> send [Replied r (Err refused)] a
         | ComputerCommand.ClaimWorkload _ r \<Rightarrow> send [Replied r (Err refused)] a
         | ComputerCommand.SetLifecycle _ r \<Rightarrow> send [Replied r (Err refused)] a
         | ComputerCommand.Detach r \<Rightarrow> send [Replied r (Err refused)] a
         | ComputerCommand.Checkpoint _ r \<Rightarrow> send [CaptureReplied r (Err refused)] a
         | ComputerCommand.WorkloadExited _ \<Rightarrow> a
         | ComputerCommand.ReleaseWorkload \<Rightarrow> a
         | ComputerCommand.VmExited \<Rightarrow> a)"

text \<open>The repeated \<open>Stopped\<close> write gates the journal as the first one did.\<close>

definition ca_finish_stop ::
  "('h, 'byte) Ports \<Rightarrow> ('h, 'byte) ComputerActor
     \<Rightarrow> (unit, ComputerError) result \<times> ('h, 'byte) ComputerActor" where
  "ca_finish_stop P a =
     (case ca_generation a of
        None \<Rightarrow> (Ok (), a)
      | Some gen \<Rightarrow>
          (let (r, st) = transition (port_json P) (an_io (ask P a)) (ca_id a) gen
                 ComputerTransition.Stopped (ca_records a);
               a = send [Wrote ComputerTransition.Stopped Durability.GateJournal (write_result r)]
                     ((asked a)\<lparr>ca_records := st\<rparr>)
           in case and_then r (confirmed ''computer stop retry'') of
                Err e \<Rightarrow> (Err e, a)
              | Ok _ \<Rightarrow> (Ok (), ca_clear_journal P (ca_unblock_journal a))))"

definition ca_on_provision ::
  "machine \<Rightarrow> ('h, 'byte) Ports \<Rightarrow> Provision \<Rightarrow> ComputerProvisionOutcome \<Rightarrow> caller
     \<Rightarrow> ('h, 'byte) ComputerActor \<Rightarrow> ('h, 'byte) ComputerActor" where
  "ca_on_provision hw P p outcome reply a =
     (let (acted, a) = ca_dispatch hw P (Event.Provision p) (a\<lparr>ca_outcome := outcome\<rparr>)
      in if \<not> acted then send [Replied reply (Err (ca_wrong_state ''a fresh computer'' a))] a
         else case p of
                Provision.Restore _ \<Rightarrow> ca_park Answer.Ready reply a
              | Provision.Boot _ \<Rightarrow>
                  let (r, a) = ca_acknowledged a in send [Replied reply r] a)"

definition ca_on_checkpoint ::
  "machine \<Rightarrow> ('h, 'byte) Ports \<Rightarrow> CaptureSpec \<Rightarrow> caller
     \<Rightarrow> ('h, 'byte) ComputerActor \<Rightarrow> ('h, 'byte) ComputerActor" where
  "ca_on_checkpoint hw P spec reply a =
     (let (acted, a) = ca_dispatch hw P Event.Checkpoint (a\<lparr>ca_capture := Some spec\<rparr>)
      in if acted then
           (case ca_capture_reply a of
              None \<Rightarrow> a\<lparr>ca_capture_reply := Some reply\<rparr>
            | Some old \<Rightarrow> send [ReplyDropped old] (a\<lparr>ca_capture_reply := Some reply\<rparr>))
         else send [CaptureReplied reply (Err (ca_wrong_state ''Ready'' a))] (a\<lparr>ca_capture := None\<rparr>))"

definition ca_on_pause ::
  "machine \<Rightarrow> ('h, 'byte) Ports \<Rightarrow> PauseReason \<Rightarrow> caller
     \<Rightarrow> ('h, 'byte) ComputerActor \<Rightarrow> ('h, 'byte) ComputerActor" where
  "ca_on_pause hw P reason reply a =
     (let (acted, a) = ca_dispatch hw P (Event.Pause reason) (a\<lparr>ca_pause_reason := reason\<rparr>)
      in if acted then ca_park Answer.Paused reply a
         else send [Replied reply
                (if ca_public a = ComputerState.Paused then Ok ()
                 else Err (ca_wrong_state ''Ready'' a))] a)"

definition ca_on_resume ::
  "machine \<Rightarrow> ('h, 'byte) Ports \<Rightarrow> string \<Rightarrow> caller
     \<Rightarrow> ('h, 'byte) ComputerActor \<Rightarrow> ('h, 'byte) ComputerActor" where
  "ca_on_resume hw P reason reply a =
     (let (acted, a) = ca_dispatch hw P Event.Resume (a\<lparr>ca_resume_reason := reason\<rparr>)
      in if acted then ca_park Answer.Resumed reply a
         else send [Replied reply
                (if ca_public a \<in> {ComputerState.Ready, ComputerState.Running} then Ok ()
                 else Err (ca_wrong_state ''Paused'' a))] a)"

definition ca_on_stop ::
  "machine \<Rightarrow> ('h, 'byte) Ports \<Rightarrow> duration \<Rightarrow> caller
     \<Rightarrow> ('h, 'byte) ComputerActor \<Rightarrow> ('h, 'byte) ComputerActor" where
  "ca_on_stop hw P budget reply a =
     (let (acted, a) = ca_dispatch hw P (Event.Stop (budget_millis budget)) a
      in if acted then ca_park Answer.Stopped reply a
         else if launching (ca_machine a) then
           a\<lparr>ca_pending_stop := get_or_insert (ca_pending_stop a) budget,
             ca_waiters := ca_waiters a @ [(Answer.Stopped, reply)]\<rparr>
         else case ca_public a of
                ComputerState.Stopping \<Rightarrow> ca_park Answer.Stopped reply a
              | ComputerState.Stopped \<Rightarrow>
                  let (r, a) = ca_finish_stop P a in send [Replied reply r] a
              | _ \<Rightarrow> send [Replied reply (Err (ca_wrong_state ''Ready, Running, or Stopping'' a))] a)"

text \<open>The reply that was just parked and that nothing took: the last waiter, as \<open>Vec::pop\<close> has it.\<close>

definition ca_pop_waiter ::
  "(unit, ComputerError) result \<Rightarrow> ('h, 'byte) ComputerActor \<Rightarrow> ('h, 'byte) ComputerActor" where
  "ca_pop_waiter r a =
     (if ca_waiters a = [] then a
      else send [Replied (snd (last (ca_waiters a))) r] (a\<lparr>ca_waiters := butlast (ca_waiters a)\<rparr>))"

definition ca_on_remove ::
  "machine \<Rightarrow> ('h, 'byte) Ports \<Rightarrow> bool \<Rightarrow> caller
     \<Rightarrow> ('h, 'byte) ComputerActor \<Rightarrow> ('h, 'byte) ComputerActor" where
  "ca_on_remove hw P forced reply a =
     (let (acted, a) = ca_dispatch hw P (Event.Remove forced)
            (a\<lparr>ca_waiters := ca_waiters a @ [(Answer.Removed, reply)]\<rparr>)
      in if acted then a
         else case ca_machine a of
                State.Removing \<Rightarrow>
                  if ca_inflight a = None \<and> ca_retry a = None
                  then ca_restart_teardown P (ca_machine a) a else a
              | State.Gone \<Rightarrow>
                  if ca_stalled a \<noteq> None
                  then (if ca_retry a = None then ca_resume_stalled P a else a)
                  else ca_answer Answer.Removed a
              | _ \<Rightarrow>
                  ca_pop_waiter (Err (ca_wrong_state ''non-running (pass force=true to override)'' a)) a)"

fun nothing_to_hand_over :: "State \<Rightarrow> bool" where
  "nothing_to_hand_over State.Provisioning = True"
| "nothing_to_hand_over State.Paused = True"
| "nothing_to_hand_over State.Stopped = True"
| "nothing_to_hand_over State.Failed = True"
| "nothing_to_hand_over State.Gone = True"
| "nothing_to_hand_over State.Detached = True"
| "nothing_to_hand_over _ = False"

definition ca_on_detach ::
  "machine \<Rightarrow> ('h, 'byte) Ports \<Rightarrow> caller \<Rightarrow> ('h, 'byte) ComputerActor \<Rightarrow> ('h, 'byte) ComputerActor" where
  "ca_on_detach hw P reply a =
     (let (acted, a) = ca_dispatch hw P Event.Detach
            (a\<lparr>ca_answer_error := None, ca_unconfirmed := None,
               ca_waiters := ca_waiters a @ [(Answer.Detached, reply)]\<rparr>)
      in if acted then a
         else ca_pop_waiter
                (if nothing_to_hand_over (ca_machine a) then Ok ()
                 else Err (ca_wrong_state
                        ''a computer with no launch, capture, or teardown in flight'' a)) a)"

definition ca_on_claim ::
  "machine \<Rightarrow> ('h, 'byte) Ports \<Rightarrow> WorkloadClaim \<Rightarrow> caller
     \<Rightarrow> ('h, 'byte) ComputerActor \<Rightarrow> ('h, 'byte) ComputerActor" where
  "ca_on_claim hw P claim reply a =
     (let (taken, a) = ca_dispatch hw P (Event.ClaimWorkload claim) a
      in send [Replied reply
           (if taken then Ok ()
            else Err (ca_wrong_state
                   (case claim of
                      WorkloadClaim.Api \<Rightarrow> ''Ready''
                    | WorkloadClaim.Initial \<Rightarrow> ''Starting or Ready'') a))] a)"

definition ca_on_workload_exited ::
  "machine \<Rightarrow> ('h, 'byte) Ports \<Rightarrow> WorkloadOutcome \<Rightarrow> ('h, 'byte) ComputerActor \<Rightarrow> ('h, 'byte) ComputerActor" where
  "ca_on_workload_exited hw P outcome a =
     (let rt = ca_runtime a;
          rt = (case outcome of
                  Exited st \<Rightarrow> rt\<lparr>rt_last_exit_status := Some st\<rparr>
                | Broke _ \<Rightarrow> rt);
          rt = rt\<lparr>rt_last_exited_at := Some (an_now (ask P a))\<rparr>
      in ca_tell hw P Event.WorkloadExited ((asked a)\<lparr>ca_runtime := rt, ca_exit := Some outcome\<rparr>))"

definition resolve_deadlines :: "instant \<Rightarrow> LifecycleUpdate \<Rightarrow> Deadlines \<Rightarrow> Deadlines" where
  "resolve_deadlines n u dl =
     (let dl = (case upd_ttl_seconds u of
                  Some ttl \<Rightarrow>
                    dl\<lparr>dl_ttl := if ttl > 0 then Some (n + int (nanos_of_secs (unat ttl))) else None\<rparr>
                | None \<Rightarrow> dl);
          dl = (case upd_idle_timeout_seconds u of
                  Some idle \<Rightarrow> dl\<lparr>dl_idle_timeout_seconds := idle\<rparr> | None \<Rightarrow> dl)
      in case upd_on_idle u of Some policy \<Rightarrow> dl\<lparr>dl_on_idle := policy\<rparr> | None \<Rightarrow> dl)"

definition ca_on_set_lifecycle ::
  "('h, 'byte) Ports \<Rightarrow> LifecycleUpdate \<Rightarrow> caller \<Rightarrow> ('h, 'byte) ComputerActor \<Rightarrow> ('h, 'byte) ComputerActor" where
  "ca_on_set_lifecycle P u reply a =
     (if ca_public a \<in> {ComputerState.Stopping, ComputerState.Stopped, ComputerState.Failed} then
        send [Replied reply (Err (ca_wrong_state
          ''a live computer (not stopping, stopped, or failed)'' a))] a
      else
        let dl = resolve_deadlines (an_now (ask P a)) u (ca_deadlines a);
            rt = (ca_runtime a)\<lparr>rt_ttl_deadline := dl_ttl dl,
                   rt_spec := (rt_spec (ca_runtime a))
                     \<lparr>spec_idle_timeout_seconds := dl_idle_timeout_seconds dl, spec_on_idle := dl_on_idle dl\<rparr>\<rparr>;
            (persisted, a) = ca_persist_lifecycle P
               ((asked a)\<lparr>ca_deadlines := dl, ca_runtime := rt\<rparr>);
            a = ca_publish_state P (ca_machine a) (ca_rearm P (ca_machine a) a)
        in send [Replied reply persisted] a)"

definition ca_on_vm_exited ::
  "machine \<Rightarrow> ('h, 'byte) Ports \<Rightarrow> ('h, 'byte) ComputerActor \<Rightarrow> ('h, 'byte) ComputerActor" where
  "ca_on_vm_exited hw P a =
     ca_tell hw P Event.VmExited
       (a\<lparr>ca_error := get_or_insert (ca_error a)
            (''computer '' @ ca_id a @ '' exited unexpectedly'')\<rparr>)"

definition is_detach :: "ComputerCommand \<Rightarrow> bool" where
  "is_detach c = (case c of ComputerCommand.Detach _ \<Rightarrow> True | _ \<Rightarrow> False)"

definition ca_on_command ::
  "machine \<Rightarrow> ('h, 'byte) Ports \<Rightarrow> ComputerCommand \<Rightarrow> ('h, 'byte) ComputerActor \<Rightarrow> ('h, 'byte) ComputerActor" where
  "ca_on_command hw P c a =
     (if ca_machine a = State.Detached \<and> \<not> is_detach c then ca_refuse_handed_over c a
      else case c of
             ComputerCommand.Provision p outcome reply \<Rightarrow> ca_on_provision hw P p outcome reply a
           | ComputerCommand.Checkpoint spec reply \<Rightarrow> ca_on_checkpoint hw P spec reply a
           | ComputerCommand.Pause reason reply \<Rightarrow> ca_on_pause hw P reason reply a
           | ComputerCommand.Resume reason reply \<Rightarrow> ca_on_resume hw P reason reply a
           | ComputerCommand.Stop budget reply \<Rightarrow> ca_on_stop hw P budget reply a
           | ComputerCommand.Remove forced reply \<Rightarrow> ca_on_remove hw P forced reply a
           | ComputerCommand.Detach reply \<Rightarrow> ca_on_detach hw P reply a
           | ComputerCommand.ClaimWorkload claim reply \<Rightarrow> ca_on_claim hw P claim reply a
           | ComputerCommand.WorkloadExited outcome \<Rightarrow> ca_on_workload_exited hw P outcome a
           | ComputerCommand.ReleaseWorkload \<Rightarrow> ca_tell hw P Event.WorkloadReleased a
           | ComputerCommand.SetLifecycle u reply \<Rightarrow> ca_on_set_lifecycle P u reply a
           | ComputerCommand.VmExited \<Rightarrow> ca_on_vm_exited hw P a)"

subsection \<open>Completions and the select loop\<close>

definition ca_serve_pending_stop ::
  "machine \<Rightarrow> ('h, 'byte) Ports \<Rightarrow> ('h, 'byte) ComputerActor \<Rightarrow> ('h, 'byte) ComputerActor" where
  "ca_serve_pending_stop hw P a =
     (case ca_pending_stop a of
        None \<Rightarrow> a
      | Some budget \<Rightarrow>
          if launching (ca_machine a) then a
          else let a = a\<lparr>ca_pending_stop := None\<rparr>
               in if ca_public a \<in> {ComputerState.Ready, ComputerState.Running}
                  then ca_tell hw P (Event.Stop (budget_millis budget)) a
                  else ca_answer Answer.Stopped a)"

text \<open>
  A failure report: the capture's caller hears it first, a stop deferred behind the launch is
  answered, and the error is delivered (a removal's own release) or held until the flow is known to
  have ended.
\<close>

definition ca_on_failed ::
  "TaskFailure \<Rightarrow> ('h, 'byte) ComputerActor \<Rightarrow> ('h, 'byte) ComputerActor" where
  "ca_on_failed failure a =
     (let a = a\<lparr>ca_error := Some (error_text (into_error failure))\<rparr>;
          error = into_error failure;
          (error, a) = (case ca_capture_reply a of
             Some reply \<Rightarrow>
               (Other (error_text error),
                send [CaptureReplied reply (Err error)] (a\<lparr>ca_capture_reply := None\<rparr>))
           | None \<Rightarrow> (error, a));
          a = (case ca_pending_stop a of
             Some _ \<Rightarrow> ca_answer Answer.Stopped (a\<lparr>ca_pending_stop := None\<rparr>)
           | None \<Rightarrow> a)
      in if ca_machine a = State.Removing then
           (case ca_unwinding a of
              Some cause \<Rightarrow>
                snd (ca_fail_every_waiter
                  (ComputerError.Unavailable (error_text cause @ ''; teardown incomplete: '' @ error_text error))
                  (a\<lparr>ca_unwinding := None\<rparr>))
            | None \<Rightarrow> snd (ca_fail_every_waiter error a))
         else a\<lparr>ca_unwinding := Some error\<rparr>)"

fun ca_report :: "'h Report \<Rightarrow> ('h, 'byte) ComputerActor \<Rightarrow> Event option \<times> ('h, 'byte) ComputerActor" where
  "ca_report (Report.Booted ag) a = (Some Event.AgentReady, ca_publish_agent ag a)"
| "ca_report (Report.Restored ag outcome) a =
     (Some Event.Restored, ca_publish_agent ag (a\<lparr>ca_outcome := outcome\<rparr>))"
| "ca_report (Report.Resumed ag) a = (Some Event.Restored, ca_publish_agent ag a)"
| "ca_report Report.Gated a = (Some Event.Gated, a)"
| "ca_report (Report.Captured info) a =
     (let a = (case ca_capture_reply a of
                 Some reply \<Rightarrow> send [CaptureReplied reply (Ok info)] (a\<lparr>ca_capture_reply := None\<rparr>)
               | None \<Rightarrow> a)
      in (Some (Event.CaptureDone (info_snapshot_id info)),
          a\<lparr>ca_pause_snapshot_id := Some (info_snapshot_id info)\<rparr>))"
| "ca_report (Report.Released ReleaseScope.Full) a = (Some Event.RemoveDone, a)"
| "ca_report (Report.Released ReleaseScope.KeepDisk) a = (Some Event.ReleasedForPause, a)"
| "ca_report (Report.Released ReleaseScope.Runtime) a = (None, a)"
| "ca_report Report.Stopped a = (Some Event.StopDone, a)"
| "ca_report (Report.Failed failure) a = (Some (failure_event failure), ca_on_failed failure a)"

definition is_released :: "'h Report \<Rightarrow> bool" where
  "is_released r = (case r of Report.Released _ \<Rightarrow> True | _ \<Rightarrow> False)"

definition ca_on_completion ::
  "machine \<Rightarrow> ('h, 'byte) Ports \<Rightarrow> 'h ComputerCompletion \<Rightarrow> ('h, 'byte) ComputerActor
     \<Rightarrow> ('h, 'byte) ComputerActor" where
  "ca_on_completion hw P c a =
     (if done_epoch c \<noteq> ca_epoch a then a
      else
        let awaited = (case ca_inflight a of
               Some task \<Rightarrow> task_handoff task = Handoff.Awaited | None \<Rightarrow> False);
            handed_off = (awaited \<and> an_signal (ask P a) = Landed);
            a = (asked a)\<lparr>ca_inflight := None\<rparr>;
            a = (if handed_off then ca_tell hw P Event.ResourcesHandedOff a else a);
            clear = ca_clear_journal_after_release a \<and> is_released (done_report c);
            a = a\<lparr>ca_clear_journal_after_release := False\<rparr>;
            a = (if clear then ca_clear_journal P a else a);
            (event, a) = ca_report (done_report c) a;
            a = (case event of
               Some e \<Rightarrow>
                 (let a = ca_tell hw P e a
                  in case ca_unwinding a of
                       Some error \<Rightarrow>
                         if ca_machine a \<noteq> State.Removing
                         then ca_fail_waiters error (a\<lparr>ca_unwinding := None\<rparr>) else a
                     | None \<Rightarrow> a)
             | None \<Rightarrow> ca_publish_state P (ca_machine a) a)
        in ca_serve_pending_stop hw P a)"

text \<open>The handoff arm of the loop.\<close>

definition ca_on_handoff ::
  "machine \<Rightarrow> ('h, 'byte) Ports \<Rightarrow> bool \<Rightarrow> ('h, 'byte) ComputerActor \<Rightarrow> ('h, 'byte) ComputerActor" where
  "ca_on_handoff hw P landed a =
     (let a = a\<lparr>ca_inflight := map_option
             (\<lambda>task. task\<lparr>task_handoff := if landed then Handoff.Abortable else Handoff.JoinOnly\<rparr>)
             (ca_inflight a)\<rparr>
      in if landed then ca_tell hw P Event.ResourcesHandedOff a else a)"

definition ca_on_ttl ::
  "machine \<Rightarrow> ('h, 'byte) Ports \<Rightarrow> ('h, 'byte) ComputerActor \<Rightarrow> ('h, 'byte) ComputerActor" where
  "ca_on_ttl hw P a = ca_tell hw P Event.TtlExpired (a\<lparr>ca_ttl := None\<rparr>)"

definition ca_on_idle ::
  "machine \<Rightarrow> ('h, 'byte) Ports \<Rightarrow> ('h, 'byte) ComputerActor \<Rightarrow> ('h, 'byte) ComputerActor" where
  "ca_on_idle hw P a =
     (let action = dl_on_idle (ca_deadlines a);
          a = a\<lparr>ca_idle := None\<rparr>;
          a = (if action = IdleAction.Pause then a\<lparr>ca_pause_reason := PauseReason.IdleTimeout\<rparr> else a)
      in ca_tell hw P (Event.IdleExpired action) a)"

definition ca_on_retry ::
  "('h, 'byte) Ports \<Rightarrow> ('h, 'byte) ComputerActor \<Rightarrow> ('h, 'byte) ComputerActor" where
  "ca_on_retry P a = ca_resume_stalled P (a\<lparr>ca_retry := None\<rparr>)"

definition ca_on_timers ::
  "('h, 'byte) Ports \<Rightarrow> bool \<Rightarrow> ('h, 'byte) ComputerActor \<Rightarrow> ('h, 'byte) ComputerActor" where
  "ca_on_timers P enabled a = ca_rearm P (ca_machine a) (a\<lparr>ca_timers_enabled := enabled\<rparr>)"

text \<open>The start of \<open>run\<close>, the test that ends its loop, and what follows the loop.\<close>

definition ca_start ::
  "machine \<Rightarrow> ('h, 'byte) Ports \<Rightarrow> Seeded \<Rightarrow> ('h, 'byte) ComputerActor \<Rightarrow> ('h, 'byte) ComputerActor" where
  "ca_start hw P seeded a =
     (let a = ca_publish_state P (ca_machine a) (a\<lparr>ca_effects := snd (fx_take (ca_effects a))\<rparr>);
          agent = an_adopted (ask P a);
          a = (if seeded = Seeded.Adopted
               then (case agent of Some ag \<Rightarrow> ca_publish_agent ag (asked a) | None \<Rightarrow> asked a) else a);
          a = (case seed_event seeded of Some e \<Rightarrow> ca_tell hw P e a | None \<Rightarrow> a)
      in ca_rearm P (ca_machine a) a)"

definition ca_ended :: "('h, 'byte) ComputerActor \<Rightarrow> bool" where
  "ca_ended a \<longleftrightarrow> ca_machine a = State.Gone \<and> ca_stalled a = None"

definition ca_finish :: "('h, 'byte) ComputerActor \<Rightarrow> ('h, 'byte) ComputerActor" where
  "ca_finish a =
     (let a = (case ca_inflight a of
                 Some task \<Rightarrow> send [TaskAborted (task_epoch task)] (a\<lparr>ca_inflight := None\<rparr>)
               | None \<Rightarrow> a);
          a = send [Unregistered] a;
          a = send (map (\<lambda>w. Replied (snd w) (Err (ComputerError.NotFound (ca_id a)))) (ca_waiters a))
                (a\<lparr>ca_waiters := []\<rparr>)
      in case ca_capture_reply a of
           Some reply \<Rightarrow>
             send [CaptureReplied reply (Err (ComputerError.NotFound (ca_id a)))] (a\<lparr>ca_capture_reply := None\<rparr>)
         | None \<Rightarrow> a)"

end
