(* ===== verification/Computer_World.thy ===== *)
theory Computer_World
  imports Computer_Actor
begin

section \<open>What a computer's actor guarantees\<close>

text \<open>
  The actor of \<open>Computer_Actor\<close> in its world: commands, timers, handoff signals and the reports of
  the sub-tasks it spawned, in any order, with every call of the outside answered in any way.  A
  sub-task reports at most once, at any time after it was spawned, even after it was aborted; what it
  may report is what the closure of its spawn sends.  Between two messages a sub-task may write the
  shared runtime and another computer may write the shared store.
\<close>

subsection \<open>The world\<close>

fun reported :: "Job \<Rightarrow> 'h Report \<Rightarrow> bool" where
  "reported j (Report.Failed _) = True"
| "reported (BootJob _) r = (case r of Report.Booted _ \<Rightarrow> True | _ \<Rightarrow> False)"
| "reported GateJob r = (r = Report.Gated)"
| "reported (RestoreJob _) r = (case r of Report.Restored _ _ \<Rightarrow> True | _ \<Rightarrow> False)"
| "reported (CheckpointJob _ _) r = (case r of Report.Captured _ \<Rightarrow> True | _ \<Rightarrow> False)"
| "reported ResumeJob r = (case r of Report.Resumed _ \<Rightarrow> True | _ \<Rightarrow> False)"
| "reported (StopJob _ _) r = (r = Report.Stopped)"
| "reported (ReleaseJob scope) r = (r = Report.Released scope)"

datatype ('h, 'byte) ActorInput =
    Commanded ComputerCommand
  | Completed nat "'h Report"
  | HandoffSettled bool
  | TtlFired
  | IdleFired
  | RetryFired
  | TimersChanged bool
  | RuntimeWritten "'h ComputerRuntime"
  | StoreWritten "'byte ComputerRecordStore"
  | MailboxClosed

fun ca_handle ::
  "machine \<Rightarrow> ('h, 'byte) Ports \<Rightarrow> ('h, 'byte) ActorInput \<Rightarrow> ('h, 'byte) ComputerActor \<Rightarrow> ('h, 'byte) ComputerActor" where
  "ca_handle hw P (Commanded c) a = ca_on_command hw P c a"
| "ca_handle hw P (Completed e r) a = ca_on_completion hw P \<lparr>done_epoch = e, done_report = r\<rparr> a"
| "ca_handle hw P (HandoffSettled landed) a = ca_on_handoff hw P landed a"
| "ca_handle hw P TtlFired a = ca_on_ttl hw P a"
| "ca_handle hw P IdleFired a = ca_on_idle hw P a"
| "ca_handle hw P RetryFired a = ca_on_retry P a"
| "ca_handle hw P (TimersChanged b) a = ca_on_timers P b a"
| "ca_handle hw P (RuntimeWritten rt) a = a\<lparr>ca_runtime := rt\<rparr>"
| "ca_handle hw P (StoreWritten st) a = a\<lparr>ca_records := st\<rparr>"
| "ca_handle hw P MailboxClosed a = a"

text \<open>What \<open>Mailbox::ask\<close> answers once the actor has ended.\<close>

fun mailbox_closed :: "string \<Rightarrow> ComputerCommand \<Rightarrow> ActorOut list" where
  "mailbox_closed i (ComputerCommand.Checkpoint _ r) = [CaptureReplied r (Err (ComputerError.NotFound i))]"
| "mailbox_closed i (ComputerCommand.Provision _ _ r) = [Replied r (Err (ComputerError.NotFound i))]"
| "mailbox_closed i (ComputerCommand.Pause _ r) = [Replied r (Err (ComputerError.NotFound i))]"
| "mailbox_closed i (ComputerCommand.Resume _ r) = [Replied r (Err (ComputerError.NotFound i))]"
| "mailbox_closed i (ComputerCommand.Stop _ r) = [Replied r (Err (ComputerError.NotFound i))]"
| "mailbox_closed i (ComputerCommand.Remove _ r) = [Replied r (Err (ComputerError.NotFound i))]"
| "mailbox_closed i (ComputerCommand.Detach r) = [Replied r (Err (ComputerError.NotFound i))]"
| "mailbox_closed i (ComputerCommand.ClaimWorkload _ r) = [Replied r (Err (ComputerError.NotFound i))]"
| "mailbox_closed i (ComputerCommand.SetLifecycle _ r) = [Replied r (Err (ComputerError.NotFound i))]"
| "mailbox_closed i _ = []"

text \<open>One turn of the loop: the message, and the end of the actor when the computer is gone.\<close>

record ('h, 'byte) ComputerWorld =
  the_actor :: "('h, 'byte) ComputerActor"
  heard :: "nat set"
  alive :: bool

definition ca_turn ::
  "machine \<Rightarrow> ('h, 'byte) Ports \<Rightarrow> ('h, 'byte) ActorInput \<Rightarrow> ('h, 'byte) ComputerWorld \<Rightarrow> ('h, 'byte) ComputerWorld" where
  "ca_turn hw P i w =
     (if \<not> alive w then
        (case i of
           Commanded c \<Rightarrow>
             w\<lparr>the_actor := send (mailbox_closed (ca_id (the_actor w)) c) (the_actor w)\<rparr>
         | _ \<Rightarrow> w)
      else
        let a = ca_handle hw P i (the_actor w);
            heard' = (case i of Completed e _ \<Rightarrow> insert e (heard w) | _ \<Rightarrow> heard w)
        in if ca_ended a \<or> i = MailboxClosed
           then \<lparr>the_actor = ca_finish a, heard = heard', alive = False\<rparr>
           else \<lparr>the_actor = a, heard = heard', alive = True\<rparr>)"

subsection \<open>Replies are conserved\<close>

fun answered :: "ActorOut \<Rightarrow> caller list" where
  "answered (Replied r _) = [r]"
| "answered (CaptureReplied r _) = [r]"
| "answered (ReplyDropped r) = [r]"
| "answered _ = []"

definition owed :: "('h, 'byte) ComputerActor \<Rightarrow> caller multiset" where
  "owed a = image_mset snd (mset (ca_waiters a)) + mset_set (set_option (ca_capture_reply a))"

definition reply_ledger :: "('h, 'byte) ComputerActor \<Rightarrow> caller multiset" where
  "reply_ledger a = mset (concat (map answered (ca_out a))) + owed a"

fun command_caller :: "ComputerCommand \<Rightarrow> caller multiset" where
  "command_caller (ComputerCommand.Provision _ _ r) = {#r#}"
| "command_caller (ComputerCommand.Checkpoint _ r) = {#r#}"
| "command_caller (ComputerCommand.Pause _ r) = {#r#}"
| "command_caller (ComputerCommand.Resume _ r) = {#r#}"
| "command_caller (ComputerCommand.Stop _ r) = {#r#}"
| "command_caller (ComputerCommand.Remove _ r) = {#r#}"
| "command_caller (ComputerCommand.Detach r) = {#r#}"
| "command_caller (ComputerCommand.ClaimWorkload _ r) = {#r#}"
| "command_caller (ComputerCommand.SetLifecycle _ r) = {#r#}"
| "command_caller _ = {#}"

fun input_callers :: "('h, 'byte) ActorInput \<Rightarrow> caller multiset" where
  "input_callers (Commanded c) = command_caller c"
| "input_callers _ = {#}"

named_theorems rl_simps \<open>how each operation moves the ledger\<close>

lemma rl_fields [rl_simps]:
  "reply_ledger (a\<lparr>ca_machine := x1\<rparr>) = reply_ledger a"
  "reply_ledger (a\<lparr>ca_runtime := x2\<rparr>) = reply_ledger a"
  "reply_ledger (a\<lparr>ca_records := x3\<rparr>) = reply_ledger a"
  "reply_ledger (a\<lparr>ca_snapshot := x4\<rparr>) = reply_ledger a"
  "reply_ledger (a\<lparr>ca_effects := x5\<rparr>) = reply_ledger a"
  "reply_ledger (a\<lparr>ca_queued := x6\<rparr>) = reply_ledger a"
  "reply_ledger (a\<lparr>ca_pending_stop := x7\<rparr>) = reply_ledger a"
  "reply_ledger (a\<lparr>ca_inflight := x8\<rparr>) = reply_ledger a"
  "reply_ledger (a\<lparr>ca_epoch := x9\<rparr>) = reply_ledger a"
  "reply_ledger (a\<lparr>ca_stalled := x10\<rparr>) = reply_ledger a"
  "reply_ledger (a\<lparr>ca_stalled_on := x11\<rparr>) = reply_ledger a"
  "reply_ledger (a\<lparr>ca_retry_backoff := x12\<rparr>) = reply_ledger a"
  "reply_ledger (a\<lparr>ca_error := x13\<rparr>) = reply_ledger a"
  "reply_ledger (a\<lparr>ca_pause_snapshot_id := x14\<rparr>) = reply_ledger a"
  "reply_ledger (a\<lparr>ca_capture := x15\<rparr>) = reply_ledger a"
  "reply_ledger (a\<lparr>ca_outcome := x16\<rparr>) = reply_ledger a"
  "reply_ledger (a\<lparr>ca_pause_reason := x17\<rparr>) = reply_ledger a"
  "reply_ledger (a\<lparr>ca_resume_reason := x18\<rparr>) = reply_ledger a"
  "reply_ledger (a\<lparr>ca_exit := x19\<rparr>) = reply_ledger a"
  "reply_ledger (a\<lparr>ca_unconfirmed := x20\<rparr>) = reply_ledger a"
  "reply_ledger (a\<lparr>ca_answer_error := x21\<rparr>) = reply_ledger a"
  "reply_ledger (a\<lparr>ca_unwinding := x22\<rparr>) = reply_ledger a"
  "reply_ledger (a\<lparr>ca_clear_journal_after_release := x23\<rparr>) = reply_ledger a"
  "reply_ledger (a\<lparr>ca_journal_blocked := x24\<rparr>) = reply_ledger a"
  "reply_ledger (a\<lparr>ca_deadlines := x25\<rparr>) = reply_ledger a"
  "reply_ledger (a\<lparr>ca_ttl := x26\<rparr>) = reply_ledger a"
  "reply_ledger (a\<lparr>ca_idle := x27\<rparr>) = reply_ledger a"
  "reply_ledger (a\<lparr>ca_retry := x28\<rparr>) = reply_ledger a"
  "reply_ledger (a\<lparr>ca_timers_enabled := x29\<rparr>) = reply_ledger a"
  "reply_ledger (a\<lparr>ca_calls := x30\<rparr>) = reply_ledger a"
  by (simp_all add: reply_ledger_def owed_def)

lemma rl_send [rl_simps]:
  "reply_ledger (send os a) = reply_ledger a + mset (concat (map answered os))"
  "reply_ledger (asked a) = reply_ledger a"
  by (simp_all add: reply_ledger_def owed_def send_def asked_def)

lemma answered_fail_replies: "concat (map answered (fail_replies e rs)) = rs"
proof -
  have "concat (map (answered \<circ> (\<lambda>r. Replied r x)) rs) = rs" for x rs
    by (induction rs) simp_all
  then show ?thesis by (cases rs) simp_all
qed

lemma rl_waiters:
  "reply_ledger (a\<lparr>ca_waiters := filter p (ca_waiters a)\<rparr>)
     + image_mset snd (mset (filter (\<lambda>w. \<not> p w) (ca_waiters a))) = reply_ledger a"
proof -
  have "mset (filter p ws) + mset (filter (\<lambda>w. \<not> p w) ws) = mset ws" for ws :: "(Answer \<times> caller) list"
    by (induction ws) auto
  then have "image_mset snd (mset (filter p (ca_waiters a)))
      + image_mset snd (mset (filter (\<lambda>w. \<not> p w) (ca_waiters a))) = image_mset snd (mset (ca_waiters a))"
    by (metis image_mset_union)
  then show ?thesis by (simp add: reply_ledger_def owed_def ac_simps)
qed

lemma rl_park_waiter [rl_simps]:
  "reply_ledger (a\<lparr>ca_waiters := ca_waiters a @ [(ans, r)]\<rparr>) = add_mset r (reply_ledger a)"
  "reply_ledger (a\<lparr>ca_pending_stop := x, ca_waiters := ca_waiters a @ [(ans, r)]\<rparr>) = add_mset r (reply_ledger a)"
  "reply_ledger (a\<lparr>ca_answer_error := y, ca_unconfirmed := z, ca_waiters := ca_waiters a @ [(ans, r)]\<rparr>)
     = add_mset r (reply_ledger a)"
  by (simp_all add: reply_ledger_def owed_def)

lemma rl_fail_parked [rl_simps]: "reply_ledger (snd (ca_fail_parked e b a)) = reply_ledger a"
  using rl_waiters [of "\<lambda>w. fst w = Answer.Removed \<and> \<not> b" a]
  by (simp add: ca_fail_parked_def Let_def rl_send answered_fail_replies del: filter_map mset_filter)

lemma rl_answer [rl_simps]: "reply_ledger (ca_answer ans a) = reply_ledger a"
proof -
  have r: "mset (concat (map (answered \<circ> ((\<lambda>r. Replied r x) \<circ> snd)) ws)) = image_mset snd (mset ws)"
    for x and ws :: "(Answer \<times> caller) list" by (induction ws) simp_all
  show ?thesis
    using rl_waiters [of "\<lambda>w. fst w \<noteq> ans" "a\<lparr>ca_unconfirmed := None, ca_answer_error := None\<rparr>"]
    by (simp add: ca_answer_def Let_def rl_send rl_fields r del: filter_map mset_filter)
qed

lemma rl_waiting [rl_simps]:
  "reply_ledger (ca_fail_waiters e a) = reply_ledger a"
  "reply_ledger (snd (ca_fail_every_waiter e a)) = reply_ledger a"
  "reply_ledger (ca_park ans r a) = reply_ledger a + {#r#}"
  "reply_ledger (snd (ca_acknowledged a)) = reply_ledger a"
  by (simp_all add: ca_fail_waiters_def ca_fail_every_waiter_def ca_park_def ca_acknowledged_def
      rl_simps split: option.split)

lemma rl_capture [rl_simps]:
  "ca_capture_reply a = Some r \<Longrightarrow> add_mset r (reply_ledger (a\<lparr>ca_capture_reply := None\<rparr>)) = reply_ledger a"
  "ca_capture_reply a = None \<Longrightarrow> reply_ledger (a\<lparr>ca_capture_reply := Some r\<rparr>) = reply_ledger a + {#r#}"
  "ca_capture_reply a = Some old \<Longrightarrow>
     add_mset old (reply_ledger (a\<lparr>ca_capture_reply := Some r\<rparr>)) = add_mset r (reply_ledger a)"
  by (simp_all add: reply_ledger_def owed_def)

lemma rl_abandon [rl_simps]: "reply_ledger (ca_abandon_capture a) = reply_ledger a"
  by (cases "ca_capture_reply a") (simp_all add: ca_abandon_capture_def rl_simps)

lemma rl_publish [rl_simps]:
  "reply_ledger (ca_publish_state P st a) = reply_ledger a"
  "reply_ledger (ca_publish_agent ag a) = reply_ledger a"
  "reply_ledger (ca_forget_agent a) = reply_ledger a"
  "reply_ledger (ca_schedule_retry a) = reply_ledger a"
  "reply_ledger (ca_unblock_journal a) = reply_ledger a"
  "reply_ledger (ca_clear_journal P a) = reply_ledger a"
  "reply_ledger (ca_arm P timer st a) = reply_ledger a"
  "reply_ledger (ca_rearm P st a) = reply_ledger a"
  "reply_ledger (ca_publish P n a) = reply_ledger a"
  "reply_ledger (ca_park_stalled st fs a) = reply_ledger a"
  by (simp_all add: ca_publish_state_def ca_publish_agent_def ca_forget_agent_def ca_schedule_retry_def
      ca_unblock_journal_def ca_clear_journal_def ca_arm_def ca_rearm_def ca_publish_def
      ca_park_stalled_def Let_def rl_simps split: Timer.split Notify.split)

lemma rl_spawn [rl_simps]: "reply_ledger (ca_spawn h j a) = reply_ledger a"
  by (simp add: ca_spawn_def Let_def rl_simps split: option.split)

lemma rl_store [rl_simps]:
  "reply_ledger (snd (store_transition P gen t d a)) = reply_ledger a"
  "reply_ledger (snd (ca_fail_write detail a)) = reply_ledger a"
  "reply_ledger (snd (ca_forget P end' a)) = reply_ledger a"
  "reply_ledger (snd (ca_persist_lifecycle P a)) = reply_ledger a"
  "reply_ledger (snd (ca_finish_stop P a)) = reply_ledger a"
  by (simp_all add: store_transition_def ca_fail_write_def ca_forget_def ca_persist_lifecycle_def
      ca_finish_stop_def Let_def case_prod_beta rl_simps split: option.split sum.split)

lemma rl_commit [rl_simps]: "reply_ledger (snd (ca_commit P phase t d a)) = reply_ledger a"
proof (induction P phase t d a rule: ca_commit.induct)
  case (1 P phase t d a)
  show ?case
  proof (cases "ca_generation a")
    case (Some gen)
    obtain w b where w: "store_transition P gen t d a = (w, b)" by force
    have b: "reply_ledger b = reply_ledger a" using rl_store(1) [of P gen t d a] w by simp
    obtain fl c where c: "ca_commit P ComputerPhase.Paused
        (ComputerTransition.Paused (unwrap_or [] (ca_pause_snapshot_id b))) Durability.Warn b = (fl, c)" by force
    have "d = Durability.Report Unconfirmed.RevertToPaused \<Longrightarrow> w = WriteResult.Unconfirmed e \<Longrightarrow>
        reply_ledger c = reply_ledger b" for e
      using 1 Some w c by (metis snd_conv)
    then show ?thesis
      by (auto simp: ca_commit.simps [of P phase t d a] Some w c b rl_simps
          split: WriteResult.split Durability.split Unconfirmed.split Flow.split)
  qed (simp add: ca_commit.simps)
qed

lemma rl_persist [rl_simps]: "reply_ledger (snd (ca_persist P phase d a)) = reply_ledger a"
  by (simp add: ca_persist_def Let_def rl_simps split: ComputerPhase.split)

lemma rl_join [rl_simps]:
  fixes a :: "('h, 'byte) ComputerActor"
  shows
  "reply_ledger (snd (ca_stall task a)) = reply_ledger a"
  "reply_ledger (snd (ca_join P task a)) = reply_ledger a"
  "reply_ledger (snd (ca_abort_inflight P a)) = reply_ledger a"
proof -
  have 1: "reply_ledger (snd (ca_stall task a)) = reply_ledger a" for task and a :: "('h, 'byte) ComputerActor"
    by (simp add: ca_stall_def rl_simps)
  have 2: "reply_ledger (snd (ca_join P task a)) = reply_ledger a" for task and a :: "('h, 'byte) ComputerActor"
    by (simp add: ca_join_def Let_def rl_simps 1 split: Join.split)
  show "reply_ledger (snd (ca_stall task a)) = reply_ledger a" "reply_ledger (snd (ca_join P task a)) = reply_ledger a"
    using 1 2 .
  show "reply_ledger (snd (ca_abort_inflight P a)) = reply_ledger a"
    by (simp add: ca_abort_inflight_def Let_def rl_simps 1 2 split: option.split Handoff.split Signal.split)
qed

lemma rl_detach [rl_simps]: "reply_ledger (ca_detach P a) = reply_ledger a"
  by (simp add: ca_detach_def Let_def rl_simps split: option.split sum.split)

lemma rl_perform [rl_simps]: "reply_ledger (ca_perform P f st a) = reply_ledger a"
proof (cases f)
  case (CancelTimer t)
  then show ?thesis by (cases t) (simp_all add: rl_simps)
next
  case (Answer ans)
  then show ?thesis by (simp add: rl_simps Let_def split: Answer.split option.split)
qed (simp_all add: rl_simps Let_def)

lemma rl_apply [rl_simps]: "reply_ledger (snd (ca_apply P f st a)) = reply_ledger a"
  by (cases f) (simp_all add: ca_apply_def rl_simps del: ca_perform.simps)

lemma rl_drain [rl_simps]: "reply_ledger (ca_drain P st fs a) = reply_ledger a"
proof (induction fs arbitrary: a)
  case (Cons f fs)
  then show ?case
    using rl_apply [of P f st a]
    by (simp add: rl_simps case_prod_beta split: Flow.split)
qed simp

lemma rl_teardown [rl_simps]:
  "reply_ledger (ca_resume_stalled P a) = reply_ledger a"
  "reply_ledger (ca_restart_teardown P st a) = reply_ledger a"
  by (simp_all add: ca_resume_stalled_def ca_restart_teardown_def Let_def case_prod_beta rl_simps
      split: option.split StalledStep.split)

lemma rl_step [rl_simps]: "reply_ledger (snd (ca_step hw P e a)) = reply_ledger a"
  by (simp add: ca_step_def Let_def case_prod_beta rl_simps)

lemma rl_drain_queue [rl_simps]: "reply_ledger (ca_drain_queue n hw P a) = reply_ledger a"
proof (induction n hw P a rule: ca_drain_queue.induct)
  case (1 n hw P a)
  then show ?case
    by (subst ca_drain_queue.simps) (simp add: rl_simps split: list.split nat.split)
qed

lemma rl_dispatch [rl_simps]:
  "reply_ledger (snd (ca_dispatch hw P e a)) = reply_ledger a"
  "reply_ledger (ca_tell hw P e a) = reply_ledger a"
  by (simp_all add: ca_tell_def ca_dispatch_def case_prod_beta rl_simps)

lemma rl_pop_waiter [rl_simps]: "reply_ledger (ca_pop_waiter r a) = reply_ledger a"
proof (cases "ca_waiters a" rule: rev_cases)
  case (snoc ws w)
  then show ?thesis by (simp add: ca_pop_waiter_def rl_send) (simp add: reply_ledger_def owed_def)
qed (simp add: ca_pop_waiter_def)

lemma rl_on_checkpoint:
  "reply_ledger (ca_on_checkpoint hw P spec r a) = add_mset r (reply_ledger a)"
proof -
  let ?b = "snd (ca_dispatch hw P Event.Checkpoint (a\<lparr>ca_capture := Some spec\<rparr>))"
  have b: "reply_ledger ?b = reply_ledger a" by (simp add: rl_simps)
  show ?thesis
    using rl_capture(2,3) [of ?b] b
    by (auto simp: ca_on_checkpoint_def Let_def case_prod_beta rl_send rl_fields split: option.split)
qed

lemma rl_commands [rl_simps]:
  "reply_ledger (ca_on_provision hw P p oc r a) = add_mset r (reply_ledger a)"
  "reply_ledger (ca_on_pause hw P reason r a) = add_mset r (reply_ledger a)"
  "reply_ledger (ca_on_resume hw P why r a) = add_mset r (reply_ledger a)"
  "reply_ledger (ca_on_stop hw P budget r a) = add_mset r (reply_ledger a)"
  "reply_ledger (ca_on_remove hw P forced r a) = add_mset r (reply_ledger a)"
  "reply_ledger (ca_on_detach hw P r a) = add_mset r (reply_ledger a)"
  "reply_ledger (ca_on_claim hw P claim r a) = add_mset r (reply_ledger a)"
  "reply_ledger (ca_on_workload_exited hw P outcome a) = reply_ledger a"
  "reply_ledger (ca_on_set_lifecycle P u r a) = add_mset r (reply_ledger a)"
  "reply_ledger (ca_on_vm_exited hw P a) = reply_ledger a"
  by (simp_all add: ca_on_provision_def ca_on_pause_def ca_on_resume_def ca_on_stop_def
      ca_on_remove_def ca_on_detach_def ca_on_claim_def ca_on_workload_exited_def ca_on_set_lifecycle_def
      ca_on_vm_exited_def Let_def case_prod_beta rl_simps
      split: Provision.split ComputerState.split State.split)

lemma rl_command: "reply_ledger (ca_on_command hw P c a) = reply_ledger a + command_caller c"
proof -
  have "\<not> is_detach c \<Longrightarrow> reply_ledger (ca_refuse_handed_over c a) = reply_ledger a + command_caller c"
    by (cases c) (simp_all add: ca_refuse_handed_over_def Let_def rl_simps is_detach_def)
  then show ?thesis
    by (cases c) (auto simp: ca_on_command_def rl_simps rl_on_checkpoint)
qed

lemma rl_completion: "reply_ledger (ca_on_completion hw P c a) = reply_ledger a"
proof -
  have failed: "reply_ledger (ca_on_failed failure a) = reply_ledger a" for failure and a :: "('a, 'b) ComputerActor"
    by (simp add: ca_on_failed_def Let_def case_prod_beta rl_simps split: option.split)
  have report: "reply_ledger (snd (ca_report r a)) = reply_ledger a" for r and a :: "('a, 'b) ComputerActor"
  proof (cases r)
    case (Released scope)
    then show ?thesis by (cases scope) simp_all
  qed (simp_all add: Let_def rl_simps failed split: option.split)
  have stop: "reply_ledger (ca_serve_pending_stop hw P a) = reply_ledger a" for a :: "('a, 'b) ComputerActor"
    by (simp add: ca_serve_pending_stop_def Let_def rl_simps split: option.split)
  show ?thesis
    by (simp add: ca_on_completion_def Let_def case_prod_beta rl_simps report stop split: option.split)
qed

lemma rl_finish: "reply_ledger (ca_finish a) = reply_ledger a"
proof -
  have r: "mset (concat (map (answered \<circ> (\<lambda>w. Replied (snd w) x)) ws)) = image_mset snd (mset ws)"
    for x and ws :: "(Answer \<times> caller) list" by (induction ws) simp_all
  have "reply_ledger (send (map (\<lambda>w. Replied (snd w) x) (ca_waiters a)) (a\<lparr>ca_waiters := []\<rparr>)) = reply_ledger a"
    for x and a :: "('a, 'b) ComputerActor"
    by (simp add: rl_send r) (simp add: reply_ledger_def owed_def)
  then show ?thesis
    by (simp add: ca_finish_def Let_def rl_simps split: option.split)
qed

lemma rl_handle: "reply_ledger (ca_handle hw P i a) = reply_ledger a + input_callers i"
  by (cases i)
    (simp_all add: rl_command rl_completion ca_on_handoff_def ca_on_ttl_def ca_on_idle_def
      ca_on_retry_def ca_on_timers_def Let_def rl_simps)

lemma rl_turn:
  "reply_ledger (the_actor (ca_turn hw P i w)) = reply_ledger (the_actor w) + input_callers i"
proof (cases "alive w")
  case True
  then show ?thesis by (simp add: ca_turn_def Let_def rl_handle rl_finish)
next
  case False
  have "mset (concat (map answered (mailbox_closed k c))) = command_caller c" for k c by (cases c) simp_all
  with False show ?thesis by (cases i) (simp_all add: ca_turn_def rl_send)
qed

text \<open>Nobody is left waiting by an actor that has ended.\<close>

definition owes_only_alive :: "('h, 'byte) ComputerWorld \<Rightarrow> bool" where
  "owes_only_alive w \<longleftrightarrow> alive w \<or> owed (the_actor w) = {#}"

lemma owed_finish: "owed (ca_finish a) = {#}"
  by (simp add: owed_def ca_finish_def Let_def send_def split: option.split)

lemma owes_only_alive_turn: "owes_only_alive w \<Longrightarrow> owes_only_alive (ca_turn hw P i w)"
  by (cases i) (auto simp: owes_only_alive_def ca_turn_def Let_def owed_finish, auto simp: owed_def send_def)

definition turn_step ::
  "machine \<Rightarrow> ('h, 'byte) Ports \<Rightarrow> ('h, 'byte) ActorInput \<Rightarrow> ('h, 'byte) ComputerWorld
     \<Rightarrow> caller list \<times> ('h, 'byte) ComputerWorld" where
  "turn_step hw P i w = ([], ca_turn hw P i w)"

interpretation computer_replies:
  conserving "turn_step hw P" input_callers "\<lambda>w. reply_ledger (the_actor w)" owes_only_alive
  for hw P
  by unfold_locales (simp_all add: turn_step_def rl_turn owes_only_alive_turn)

definition world_of :: "('h, 'byte) ComputerActor \<Rightarrow> ('h, 'byte) ComputerWorld" where
  "world_of a = \<lparr>the_actor = a, heard = {}, alive = True\<rparr>"

lemma run_turns: "run_ops (turn_step hw P) is w = ([], fold (ca_turn hw P) is w)"
  by (induction "is" arbitrary: w) (simp_all add: turn_step_def)

text \<open>C28: every caller of a computer is answered exactly once.  From a fresh actor, over any
  sequence of messages and whatever the machine, the store, the sub-tasks and the handover answer,
  the callers handed to the actor are exactly those it has answered and those it still owes an
  answer; and once the actor has ended it owes none.\<close>

theorem computer_replies_conserved:
  "let w = fold (ca_turn hw P) is (world_of (ca_start hw P seeded (ca_new i rt gen dir st dl timers sn)))
   in mset (concat (map answered (ca_out (the_actor w)))) + owed (the_actor w) = sum_list (map input_callers is)
     \<and> (if alive w then True else owed (the_actor w) = {#})"
proof -
  let ?a = "ca_start hw P seeded (ca_new i rt gen dir st dl timers sn)"
  let ?w = "fold (ca_turn hw P) is (world_of ?a)"
  have "reply_ledger ?a = {#}"
    by (simp add: ca_start_def Let_def rl_simps split: option.split)
      (simp add: ca_new_def reply_ledger_def owed_def)
  moreover have "owes_only_alive (world_of ?a)" by (simp add: owes_only_alive_def world_of_def)
  ultimately have "reply_ledger (the_actor ?w) = sum_list (map input_callers is)" "owes_only_alive ?w"
    using computer_replies.run_conserves [of "world_of ?a" hw P "is"]
      computer_replies.run_keeps [of "world_of ?a" hw P "is"]
    by (simp_all add: run_turns world_of_def)
  then show ?thesis by (auto simp: Let_def reply_ledger_def owes_only_alive_def)
qed

end
