(* ===== verification/Computer_Turns.thy ===== *)
theory Computer_Turns
  imports Computer_World
begin

section \<open>Every turn of a computer's actor ends\<close>

text \<open>
  A dispatch runs the events that its effects queue, each of which may queue another one.  The loop
  of \<open>dispatch\<close> in \<open>lifecycle/actor/mod.rs\<close> has no bound of its own; this theory shows that it ends.
  Only two events are ever queued, a refused write's \<open>Failure\<close> and a handover's \<open>Detached\<close>, and a queued
  event queues another one only in a state whose failure writes a phase, which it leaves for good.
  So the number of queued events, plus one in such a state, bounds what is left to do, and the fuel
  of the model is never used up.
\<close>

subsection \<open>What the loop depends on\<close>

text \<open>The state, the effect buffer, the queued events, and whether the fuel ran out.\<close>

type_synonym loop_view = "State \<times> Effects \<times> Event list \<times> bool"

definition lv :: "('h, 'byte) ComputerActor \<Rightarrow> loop_view" where
  "lv a = (ca_machine a, ca_effects a, ca_queued a, Diverged \<in> set (ca_out a))"

fun push :: "Event list \<Rightarrow> loop_view \<Rightarrow> loop_view" where
  "push es (s, c, q, d) = (s, c, q @ es, d)"

definition queueable :: "Event list \<Rightarrow> bool" where
  "queueable q = list_all (\<lambda>e. e \<in> {Event.Failure, Event.Detached}) q"

lemma push_Nil [simp]: "push [] v = v"
  by (cases v) simp

lemma push_push [simp]: "push es (push fs v) = push (fs @ es) v"
  by (cases v) simp

named_theorems lv_simps \<open>operations that leave the loop alone\<close>

lemma lv_fields [lv_simps]:
  "lv (a\<lparr>ca_runtime := x2\<rparr>) = lv a"
  "lv (a\<lparr>ca_records := x3\<rparr>) = lv a"
  "lv (a\<lparr>ca_snapshot := x4\<rparr>) = lv a"
  "lv (a\<lparr>ca_pending_stop := x7\<rparr>) = lv a"
  "lv (a\<lparr>ca_inflight := x8\<rparr>) = lv a"
  "lv (a\<lparr>ca_epoch := x9\<rparr>) = lv a"
  "lv (a\<lparr>ca_stalled := x10\<rparr>) = lv a"
  "lv (a\<lparr>ca_stalled_on := x11\<rparr>) = lv a"
  "lv (a\<lparr>ca_retry_backoff := x12\<rparr>) = lv a"
  "lv (a\<lparr>ca_error := x13\<rparr>) = lv a"
  "lv (a\<lparr>ca_pause_snapshot_id := x14\<rparr>) = lv a"
  "lv (a\<lparr>ca_capture := x15\<rparr>) = lv a"
  "lv (a\<lparr>ca_outcome := x16\<rparr>) = lv a"
  "lv (a\<lparr>ca_pause_reason := x17\<rparr>) = lv a"
  "lv (a\<lparr>ca_resume_reason := x18\<rparr>) = lv a"
  "lv (a\<lparr>ca_exit := x19\<rparr>) = lv a"
  "lv (a\<lparr>ca_unconfirmed := x20\<rparr>) = lv a"
  "lv (a\<lparr>ca_answer_error := x21\<rparr>) = lv a"
  "lv (a\<lparr>ca_unwinding := x22\<rparr>) = lv a"
  "lv (a\<lparr>ca_clear_journal_after_release := x23\<rparr>) = lv a"
  "lv (a\<lparr>ca_journal_blocked := x24\<rparr>) = lv a"
  "lv (a\<lparr>ca_deadlines := x25\<rparr>) = lv a"
  "lv (a\<lparr>ca_ttl := x26\<rparr>) = lv a"
  "lv (a\<lparr>ca_idle := x27\<rparr>) = lv a"
  "lv (a\<lparr>ca_retry := x28\<rparr>) = lv a"
  "lv (a\<lparr>ca_timers_enabled := x29\<rparr>) = lv a"
  "lv (a\<lparr>ca_calls := x30\<rparr>) = lv a"
  "lv (a\<lparr>ca_waiters := x31\<rparr>) = lv a"
  "lv (a\<lparr>ca_capture_reply := x32\<rparr>) = lv a"
  by (simp_all add: lv_def)

lemma lv_queue: "lv (a\<lparr>ca_queued := ca_queued a @ es\<rparr>) = push es (lv a)"
  by (simp add: lv_def)

lemma lv_send [lv_simps]: "Diverged \<notin> set os \<Longrightarrow> lv (send os a) = lv a" "lv (asked a) = lv a"
  by (auto simp: lv_def send_def asked_def)

lemma no_divergence [simp]:
  "Diverged \<notin> set (fail_replies e rs)" "Diverged \<notin> (\<lambda>r. Replied (f r) x) ` rs'"
  by (cases rs) auto

lemma lv_waiting [lv_simps]:
  "lv (snd (ca_fail_parked e b a)) = lv a"
  "lv (ca_fail_waiters e a) = lv a"
  "lv (snd (ca_fail_every_waiter e a)) = lv a"
  "lv (ca_park ans r a) = lv a"
  "lv (snd (ca_acknowledged a)) = lv a"
  "lv (ca_answer ans a) = lv a"
  "lv (ca_abandon_capture a) = lv a"
  "lv (ca_pop_waiter w a) = lv a"
  by (simp_all add: ca_fail_parked_def ca_fail_waiters_def ca_fail_every_waiter_def ca_park_def
      ca_acknowledged_def ca_answer_def ca_abandon_capture_def ca_pop_waiter_def Let_def lv_simps
      split: option.split)

lemma lv_publish [lv_simps]:
  "lv (ca_publish_state P st a) = lv a"
  "lv (ca_publish_agent ag a) = lv a"
  "lv (ca_forget_agent a) = lv a"
  "lv (ca_schedule_retry a) = lv a"
  "lv (ca_unblock_journal a) = lv a"
  "lv (ca_clear_journal P a) = lv a"
  "lv (ca_arm P timer st a) = lv a"
  "lv (ca_rearm P st a) = lv a"
  "lv (ca_publish P n a) = lv a"
  "lv (ca_park_stalled st fs a) = lv a"
  by (simp_all add: ca_publish_state_def ca_publish_agent_def ca_forget_agent_def ca_schedule_retry_def
      ca_unblock_journal_def ca_clear_journal_def ca_arm_def ca_rearm_def ca_publish_def
      ca_park_stalled_def Let_def lv_simps split: Timer.split Notify.split)

lemma lv_spawn [lv_simps]: "lv (ca_spawn h j a) = lv a"
  by (simp add: ca_spawn_def Let_def lv_simps split: option.split)

lemma lv_store [lv_simps]:
  "lv (snd (store_transition P gen t d a)) = lv a"
  "lv (snd (ca_forget P end' a)) = lv a"
  "lv (snd (ca_persist_lifecycle P a)) = lv a"
  "lv (snd (ca_finish_stop P a)) = lv a"
  by (simp_all add: store_transition_def ca_forget_def ca_persist_lifecycle_def
      ca_finish_stop_def Let_def case_prod_beta lv_simps split: option.split sum.split)

lemma lv_join [lv_simps]:
  fixes a :: "('h, 'byte) ComputerActor"
  shows "lv (snd (ca_stall task a)) = lv a" "lv (snd (ca_join P task a)) = lv a"
    "lv (snd (ca_abort_inflight P a)) = lv a"
proof -
  have 1: "lv (snd (ca_stall task a)) = lv a" for task and a :: "('h, 'byte) ComputerActor"
    by (simp add: ca_stall_def lv_simps)
  have 2: "lv (snd (ca_join P task a)) = lv a" for task and a :: "('h, 'byte) ComputerActor"
    by (simp add: ca_join_def Let_def lv_simps 1 split: Join.split)
  show "lv (snd (ca_stall task a)) = lv a" "lv (snd (ca_join P task a)) = lv a"
    using 1 2 .
  show "lv (snd (ca_abort_inflight P a)) = lv a"
    by (simp add: ca_abort_inflight_def Let_def lv_simps 1 2 split: option.split Handoff.split Signal.split)
qed

subsection \<open>What an effect queues\<close>

lemma lv_fail_write: "fst (ca_fail_write detail a) = Flow.Refused" "lv (snd (ca_fail_write detail a)) = push [Event.Failure] (lv a)"
  by (simp_all add: ca_fail_write_def Let_def case_prod_beta lv_queue lv_simps)

text \<open>A write either goes through and queues nothing, or is refused and queues the failure.\<close>

definition write_ok :: "Durability \<Rightarrow> loop_view \<Rightarrow> Flow \<times> ('h, 'byte) ComputerActor \<Rightarrow> bool" where
  "write_ok d v r \<longleftrightarrow>
     (fst r \<noteq> Flow.Refused \<and> lv (snd r) = v)
     \<or> (d \<noteq> Durability.GateJournal \<and> fst r = Flow.Refused \<and> lv (snd r) = push [Event.Failure] v)"

lemma commit_ok: "write_ok d (lv a) (ca_commit P phase t d a)"
proof (induction P phase t d a rule: ca_commit.induct)
  case (1 P phase t d a)
  show ?case
  proof (cases "ca_generation a")
    case (Some gen)
    obtain w b where w: "store_transition P gen t d a = (w, b)" by force
    have b: "lv b = lv a" using lv_store(1) [of P gen t d a] w by simp
    obtain fl c where c: "ca_commit P ComputerPhase.Paused
        (ComputerTransition.Paused (unwrap_or [] (ca_pause_snapshot_id b))) Durability.Warn b = (fl, c)" by force
    have "d = Durability.Report Unconfirmed.RevertToPaused \<Longrightarrow> w = WriteResult.Unconfirmed e \<Longrightarrow>
        write_ok Durability.Warn (lv b) (fl, c)" for e
      using 1 Some w c by metis
    then show ?thesis
      by (auto simp: ca_commit.simps [of P phase t d a] Some w c b write_ok_def lv_fail_write lv_simps
          split: WriteResult.split Durability.split Unconfirmed.split Flow.split)
  qed (simp add: ca_commit.simps write_ok_def)
qed

lemma persist_ok: "write_ok d (lv a) (ca_persist P phase d a)"
proof (cases phase)
  case Paused
  then show ?thesis
    using commit_ok [of d _ P] by (simp add: ca_persist_def Let_def) (metis lv_fields(1) lv_send(2))
next
  case Creating
  then show ?thesis by (simp add: ca_persist_def write_ok_def)
qed (simp_all add: ca_persist_def commit_ok)

lemma never_refused:
  "fst (ca_forget P end' a) \<noteq> Flow.Refused" "fst (ca_abort_inflight P a) \<noteq> Flow.Refused"
  by (simp_all add: ca_forget_def ca_abort_inflight_def ca_join_def ca_stall_def Let_def case_prod_beta
      split: option.split sum.split Handoff.split Signal.split Join.split)

lemma lv_detach: "lv (ca_detach P a) = lv a \<or> lv (ca_detach P a) = push [Event.Detached] (lv a)"
  by (simp add: ca_detach_def Let_def lv_queue lv_simps split: option.split sum.split)

lemma lv_perform: "f \<noteq> Effect.Detach \<Longrightarrow> lv (ca_perform P f st a) = lv a"
proof (cases f)
  case (CancelTimer t)
  then show ?thesis by (cases t) (simp_all add: lv_simps)
next
  case (Answer ans)
  then show ?thesis by (simp add: lv_simps Let_def split: Answer.split option.split)
qed (simp_all add: lv_simps Let_def)

text \<open>The effects that may queue an event.\<close>

fun queues :: "Effect \<Rightarrow> bool" where
  "queues (Effect.PersistPhase _ d) = (d \<noteq> Durability.GateJournal)"
| "queues (Effect.CommitRestored d) = (d \<noteq> Durability.GateJournal)"
| "queues Effect.Detach = True"
| "queues _ = False"

lemma apply_ok:
  "f \<noteq> Effect.Detach \<Longrightarrow> write_ok (if queues f then Durability.Warn else Durability.GateJournal) (lv a) (ca_apply P f st a)"
proof (cases f)
  case (PersistPhase phase d)
  then show ?thesis
    using persist_ok [of d a P phase] by (auto simp: ca_apply_def write_ok_def)
next
  case (CommitRestored d)
  then show ?thesis
    using commit_ok [of d a P ComputerPhase.Ready "ReadyWithOutcome (ca_outcome a)"]
    by (auto simp: ca_apply_def write_ok_def)
qed (simp_all add: ca_apply_def write_ok_def never_refused lv_perform lv_simps del: ca_perform.simps)

lemma apply_quiet:
  "\<not> queues f \<Longrightarrow> fst (ca_apply P f st a) \<noteq> Flow.Refused \<and> lv (snd (ca_apply P f st a)) = lv a"
  using apply_ok [of f a P st] by (cases "f = Effect.Detach") (simp_all add: write_ok_def)

lemma apply_write:
  "f \<noteq> Effect.Detach \<Longrightarrow>
     (fst (ca_apply P f st a) \<noteq> Flow.Refused \<and> lv (snd (ca_apply P f st a)) = lv a)
     \<or> (fst (ca_apply P f st a) = Flow.Refused \<and> lv (snd (ca_apply P f st a)) = push [Event.Failure] (lv a))"
  using apply_ok [of f a P st] by (auto simp: write_ok_def)

lemma drain_quiet: "list_all (\<lambda>f. \<not> queues f) fs \<Longrightarrow> lv (ca_drain P st fs a) = lv a"
proof (induction fs arbitrary: a)
  case (Cons f fs)
  then show ?case
    using apply_quiet [of f P st a] by (simp add: case_prod_beta lv_simps split: Flow.split)
qed simp

lemma drain_write:
  "Effect.Detach \<notin> set fs \<Longrightarrow>
     lv (ca_drain P st fs a) = lv a \<or> lv (ca_drain P st fs a) = push [Event.Failure] (lv a)"
proof (induction fs arbitrary: a)
  case (Cons f fs)
  show ?case
    using apply_write [of f P st a] Cons.IH [of "snd (ca_apply P f st a)"] Cons.prems
    by (cases "fst (ca_apply P f st a)") (auto simp: case_prod_beta lv_simps)
qed simp

lemma drain_any: "\<exists>es. queueable es \<and> lv (ca_drain P st fs a) = push es (lv a)"
proof (induction fs arbitrary: a)
  case Nil
  show ?case by (rule exI [of _ "[]"]) (simp add: queueable_def)
next
  case (Cons f fs)
  let ?b = "snd (ca_apply P f st a)"
  obtain es where es: "queueable es" "lv ?b = push es (lv a)"
  proof (cases "f = Effect.Detach")
    case True
    then show ?thesis
      using lv_detach [of P a] that [of "[]"] that [of "[Event.Detached]"]
      by (auto simp: ca_apply_def queueable_def)
  next
    case False
    then show ?thesis
      using apply_write [of f P st a] that [of "[]"] that [of "[Event.Failure]"] by (auto simp: queueable_def)
  qed
  obtain fs' where "queueable fs'" "lv (ca_drain P st fs ?b) = push fs' (lv ?b)"
    using Cons.IH by blast
  moreover have "queueable (es @ fs')" if "queueable fs'" for fs'
    using es(1) that by (simp add: queueable_def)
  ultimately show ?case
    using es by (auto simp: case_prod_beta lv_simps split: Flow.split)
qed

subsection \<open>The events left to run\<close>

text \<open>The states whose failure writes a phase that may be refused in turn.\<close>

fun pot :: "State \<Rightarrow> nat" where
  "pot State.Capturing = 1"
| "pot State.Resuming = 1"
| "pot (State.Restoring _) = 1"
| "pot (State.Gating True _) = 1"
| "pot _ = 0"

lemma pot_le: "pot s \<le> 1"
  by (cases s rule: pot.cases) simp_all

lemma detach_alone: "emitted computer_step s e = [Effect.Detach] \<or> Effect.Detach \<notin> set (emitted computer_step s e)"
  by (cases s; cases e; simp add: step_defs split: step_splits)

lemma queued_event:
  assumes "e = Event.Failure \<or> e = Event.Detached"
  shows "(list_all (\<lambda>f. \<not> queues f) (emitted computer_step s e) \<and> pot (next_state computer_step s e) \<le> pot s)
     \<or> (pot s = 1 \<and> pot (next_state computer_step s e) = 0 \<and> Effect.Detach \<notin> set (emitted computer_step s e))"
  using assms by (cases s; auto simp: step_defs split: step_splits)

lemma step_lv:
  assumes "lv a = (s, \<lparr>items = []\<rparr>, q, d)"
  obtains b where "lv b = (next_state computer_step s e, \<lparr>items = []\<rparr>, q, d)"
    "lv (snd (ca_step computer_step P e a))
       = lv (ca_drain P (next_state computer_step s e) (emitted computer_step s e) b)"
proof -
  let ?s = "next_state computer_step s e" and ?fs = "emitted computer_step s e"
  have a: "ca_machine a = s" "ca_effects a = \<lparr>items = []\<rparr>" "ca_queued a = q" "(Diverged \<in> set (ca_out a)) = d"
    using assms by (auto simp: lv_def)
  obtain c where c: "computer_step s e \<lparr>items = []\<rparr> = (?s, c)" "items c = ?fs"
    by (cases "computer_step s e \<lparr>items = []\<rparr>")
      (simp add: next_state_def emitted_def dispatch_of_def fx_take_def)
  let ?b = "ca_publish_state P ?s (a\<lparr>ca_machine := ?s, ca_effects := c\<lparr>items := []\<rparr>\<rparr>)"
  have "lv ?b = (?s, \<lparr>items = []\<rparr>, q, d)"
    using a by (simp add: lv_simps) (simp add: lv_def)
  moreover have "lv (snd (ca_step computer_step P e a)) = lv (ca_drain P ?s ?fs ?b)"
    using a c by (simp add: ca_step_def Let_def fx_take_def lv_simps)
  ultimately show ?thesis by (rule that)
qed

lemma step_queued:
  assumes "lv a = (s, \<lparr>items = []\<rparr>, q, d)" and e: "e = Event.Failure \<or> e = Event.Detached"
  shows "\<exists>s' es. lv (snd (ca_step computer_step P e a)) = (s', \<lparr>items = []\<rparr>, q @ es, d) \<and> queueable es
           \<and> length es + pot s' \<le> pot s"
proof -
  let ?s = "next_state computer_step s e" and ?fs = "emitted computer_step s e"
  obtain b where b: "lv b = (?s, \<lparr>items = []\<rparr>, q, d)" "lv (snd (ca_step computer_step P e a)) = lv (ca_drain P ?s ?fs b)"
    using step_lv [OF assms(1)] by blast
  show ?thesis
    using queued_event [OF e, of s] drain_quiet [of ?fs P ?s b] drain_write [of ?fs P ?s b] b
    by (auto simp: queueable_def)
qed

lemma step_any:
  assumes "lv a = (s, \<lparr>items = []\<rparr>, q, d)"
  shows "\<exists>s' es. lv (snd (ca_step computer_step P e a)) = (s', \<lparr>items = []\<rparr>, q @ es, d) \<and> queueable es"
proof -
  let ?s = "next_state computer_step s e" and ?fs = "emitted computer_step s e"
  obtain b where b: "lv b = (?s, \<lparr>items = []\<rparr>, q, d)" "lv (snd (ca_step computer_step P e a)) = lv (ca_drain P ?s ?fs b)"
    using step_lv [OF assms(1)] by blast
  then show ?thesis
    using drain_any [of P ?s ?fs b] by auto
qed

text \<open>With fuel for the queued events, and one more in a state of the second kind, the loop ends.\<close>

lemma drain_queue_ends:
  assumes "lv a = (s, \<lparr>items = []\<rparr>, q, False)" "queueable q" "length q + pot s \<le> n"
  shows "\<exists>s'. lv (ca_drain_queue n computer_step P a) = (s', \<lparr>items = []\<rparr>, [], False)"
  using assms
proof (induction n arbitrary: a s q)
  case 0
  then show ?case by (simp add: ca_drain_queue.simps lv_def)
next
  case (Suc m)
  show ?case
  proof (cases q)
    case Nil
    then show ?thesis using Suc.prems(1) by (simp add: ca_drain_queue.simps lv_def)
  next
    case (Cons e es)
    let ?a = "a\<lparr>ca_queued := es\<rparr>"
    let ?b = "snd (ca_step computer_step P e ?a)"
    have "lv ?a = (s, \<lparr>items = []\<rparr>, es, False)" "e = Event.Failure \<or> e = Event.Detached"
      using Suc.prems Cons by (auto simp: lv_def queueable_def)
    then obtain s' fs where b: "lv ?b = (s', \<lparr>items = []\<rparr>, es @ fs, False)" "queueable fs" "length fs + pot s' \<le> pot s"
      using step_queued by blast
    have "queueable (es @ fs)" "length (es @ fs) + pot s' \<le> m"
      using Suc.prems Cons b by (auto simp: queueable_def)
    then obtain s'' where c: "lv (ca_drain_queue m computer_step P ?b) = (s'', \<lparr>items = []\<rparr>, [], False)"
      using Suc.IH [OF b(1)] by blast
    have "ca_queued (ca_drain_queue m computer_step P ?b) = []"
      using c by (simp add: lv_def)
    moreover have "ca_queued a = e # es"
      using Suc.prems(1) Cons by (simp add: lv_def)
    ultimately show ?thesis
      using c by (simp add: ca_drain_queue.simps [of "Suc m" computer_step P a]
          ca_drain_queue.simps [of m computer_step P "ca_drain_queue m computer_step P ?b"])
  qed
qed

subsection \<open>Every message\<close>

definition calm :: "('h, 'byte) ComputerActor \<Rightarrow> bool" where
  "calm a \<longleftrightarrow> ca_effects a = \<lparr>items = []\<rparr> \<and> queueable (ca_queued a) \<and> Diverged \<notin> set (ca_out a)"

lemma calm_lv: "calm a \<longleftrightarrow> (\<exists>s q. lv a = (s, \<lparr>items = []\<rparr>, q, False) \<and> queueable q)"
  by (auto simp: calm_def lv_def)

lemma calm_cong: "lv a = lv b \<Longrightarrow> calm a = calm b"
  by (simp add: calm_lv)

lemma calm_push: "queueable es \<Longrightarrow> lv b = push es (lv a) \<Longrightarrow> calm a \<Longrightarrow> calm b"
  by (auto simp: calm_lv queueable_def)

lemmas calm_simps = lv_simps [THEN calm_cong]

lemma calm_drain [simp]: "calm a \<Longrightarrow> calm (ca_drain P st fs a)"
  using drain_any [of P st fs a] calm_push by blast

lemma calm_dispatch [simp]: "calm a \<Longrightarrow> calm (snd (ca_dispatch computer_step P e a))"
proof -
  assume "calm a"
  then obtain s q where a: "lv a = (s, \<lparr>items = []\<rparr>, q, False)" "queueable q"
    by (auto simp: calm_lv)
  let ?b = "snd (ca_step computer_step P e a)"
  obtain s' es where b: "lv ?b = (s', \<lparr>items = []\<rparr>, q @ es, False)" "queueable es"
    using step_any [OF a(1)] by blast
  have "ca_queued ?b = q @ es" "queueable (q @ es)"
    using a(2) b by (auto simp: lv_def queueable_def)
  then show ?thesis
    using drain_queue_ends [OF b(1), of "QUEUE_FUEL + length (ca_queued ?b)" P] pot_le [of s']
    by (auto simp: ca_dispatch_def case_prod_beta QUEUE_FUEL_def calm_lv queueable_def)
qed

lemma calm_tell [simp]: "calm a \<Longrightarrow> calm (ca_tell computer_step P e a)"
  by (simp add: ca_tell_def)

lemma calm_teardown [simp]:
  "calm a \<Longrightarrow> calm (ca_resume_stalled P a)" "calm a \<Longrightarrow> calm (ca_restart_teardown P st a)"
  by (simp_all add: ca_resume_stalled_def ca_restart_teardown_def Let_def case_prod_beta calm_simps
      split: option.split StalledStep.split)

lemma calm_commands [simp]:
  assumes "calm a"
  shows "calm (ca_on_provision computer_step P p oc r a)" "calm (ca_on_checkpoint computer_step P spec r a)"
    "calm (ca_on_pause computer_step P reason r a)" "calm (ca_on_resume computer_step P why r a)"
    "calm (ca_on_stop computer_step P budget r a)" "calm (ca_on_remove computer_step P forced r a)"
    "calm (ca_on_detach computer_step P r a)" "calm (ca_on_claim computer_step P claim r a)"
    "calm (ca_on_workload_exited computer_step P outcome a)" "calm (ca_on_set_lifecycle P u r a)"
    "calm (ca_on_vm_exited computer_step P a)" "calm (ca_refuse_handed_over c a)"
  using assms
  by (simp_all add: ca_on_provision_def ca_on_checkpoint_def ca_on_pause_def ca_on_resume_def ca_on_stop_def
      ca_on_remove_def ca_on_detach_def ca_on_claim_def ca_on_workload_exited_def ca_on_set_lifecycle_def
      ca_on_vm_exited_def ca_refuse_handed_over_def Let_def case_prod_beta calm_simps
      split: Provision.split ComputerState.split State.split option.split ComputerCommand.split)

lemma calm_completion [simp]:
  assumes "calm a"
  shows "calm (ca_on_completion computer_step P c a)"
proof -
  have failed: "calm (ca_on_failed failure a) = calm a" for failure and a :: "('a, 'b) ComputerActor"
    by (simp add: ca_on_failed_def Let_def case_prod_beta calm_simps split: option.split)
  have report: "calm (snd (ca_report r a)) = calm a" for r and a :: "('a, 'b) ComputerActor"
  proof (cases r)
    case (Released scope)
    then show ?thesis by (cases scope) simp_all
  qed (simp_all add: Let_def calm_simps failed split: option.split)
  have stop: "calm a \<Longrightarrow> calm (ca_serve_pending_stop computer_step P a)" for a :: "('a, 'b) ComputerActor"
    by (simp add: ca_serve_pending_stop_def Let_def calm_simps split: option.split)
  show ?thesis
    using assms
    by (simp add: ca_on_completion_def Let_def case_prod_beta calm_simps report stop split: option.split)
qed

lemma calm_handle: "calm a \<Longrightarrow> calm (ca_handle computer_step P i a)"
proof (cases i)
  case (Commanded c)
  then show "calm a \<Longrightarrow> ?thesis"
    by (cases c) (simp_all add: ca_on_command_def)
qed (simp_all add: ca_on_handoff_def ca_on_ttl_def ca_on_idle_def ca_on_retry_def ca_on_timers_def Let_def calm_simps)

lemma calm_turn: "calm (the_actor w) \<Longrightarrow> calm (the_actor (ca_turn computer_step P i w))"
proof -
  assume w: "calm (the_actor w)"
  have fin: "calm (ca_finish a) = calm a" for a :: "('a, 'b) ComputerActor"
    by (simp add: ca_finish_def Let_def calm_simps split: option.split)
  have "Diverged \<notin> set (mailbox_closed k c)" for k c
    by (cases c) simp_all
  then show ?thesis
    using w calm_handle [OF w, of P i] by (cases i) (auto simp: ca_turn_def Let_def fin calm_simps)
qed

lemma calm_start: "calm (ca_start computer_step P seeded (ca_new i rt gen dir st dl timers sn))"
proof -
  have "calm (ca_new i rt gen dir st dl timers sn)"
    by (simp add: ca_new_def calm_def queueable_def)
  then have "calm (ca_new i rt gen dir st dl timers sn\<lparr>ca_effects :=
      snd (fx_take (ca_effects (ca_new i rt gen dir st dl timers sn)))\<rparr>)"
    by (simp add: calm_def fx_take_def)
  then show ?thesis
    by (simp add: ca_start_def Let_def calm_simps split: option.split)
qed

text \<open>
  C29: Every message to a computer's actor is worked off.  From a fresh actor, over any sequence of
  messages and whatever the store, the sub-tasks and the handover answer, the loop over the events
  that effects queue ends in every dispatch: the fuel of the model, one more than the events waiting
  when the loop starts, never runs out, and the effect buffer is empty between messages.
\<close>

theorem dispatch_loop_ends:
  assumes "statig computer_handlers hw"
  shows "let a = the_actor (fold (ca_turn hw P) is
                   (world_of (ca_start hw P seeded (ca_new i rt gen dir st dl timers sn))))
         in Diverged \<notin> set (ca_out a) \<and> ca_effects a = \<lparr>items = []\<rparr>"
proof -
  have "calm (the_actor w) \<Longrightarrow> calm (the_actor (fold (ca_turn computer_step P) is w))" for w
    by (induction "is" arbitrary: w) (simp_all add: calm_turn)
  then have "calm (the_actor (fold (ca_turn computer_step P) is
      (world_of (ca_start computer_step P seeded (ca_new i rt gen dir st dl timers sn)))))"
    by (simp add: world_of_def calm_start)
  then show ?thesis
    unfolding statig_unique [OF assms] by (simp add: calm_def Let_def)
qed

theorem dispatch_loop_ends_witness:
  "\<forall>P seeded i rt gen dir st dl timers sn.
     let a = the_actor (fold (ca_turn computer_step P)
               [Commanded (ComputerCommand.Provision (Provision.Boot True) default_outcome 0), TtlFired, RetryFired]
               (world_of (ca_start computer_step P seeded (ca_new i rt gen dir st dl timers sn))))
     in Diverged \<notin> set (ca_out a) \<and> ca_effects a = \<lparr>items = []\<rparr>"
  by (intro allI) (rule dispatch_loop_ends [OF statig_computer])

end
