(* ===== verification/Net_Bytes.thy ===== *)
theory Net_Bytes
  imports ArcPrelude
begin

unbundle bit_operations_syntax

section \<open>Bytes of a packet\<close>

text \<open>
  What the network components share: 16- and 32-bit fields in network byte order, IPv4 addresses,
  and a buffer as a list of bytes whose fields are read and overwritten in place, as indexing,
  slices and \<open>copy_from_slice\<close> do within the bounds of the buffer.
\<close>

subsection \<open>Bytes and big-endian words\<close>

definition be16 :: "u8 \<Rightarrow> u8 \<Rightarrow> u16" where
  "be16 a b = word_of_nat (256 * unat a + unat b)"

definition be32 :: "u8 \<Rightarrow> u8 \<Rightarrow> u8 \<Rightarrow> u8 \<Rightarrow> u32" where
  "be32 a b c d = word_of_nat (65536 * unat (be16 a b) + unat (be16 c d))"

definition to_be16 :: "u16 \<Rightarrow> u8 list" where
  "to_be16 w = [ucast (drop_bit 8 w), ucast w]"

definition to_be32 :: "u32 \<Rightarrow> u8 list" where
  "to_be32 w = to_be16 (ucast (drop_bit 16 w)) @ to_be16 (ucast w)"

text \<open>An IPv4 address is its 32-bit value; \<open>octets\<close> and \<open>from_be_bytes\<close> cancel.\<close>

type_synonym ipv4 = u32

definition ip4 :: "u8 \<Rightarrow> u8 \<Rightarrow> u8 \<Rightarrow> u8 \<Rightarrow> ipv4" where
  "ip4 a b c d = be32 a b c d"

text \<open>Reading and overwriting fields of a packet.\<close>

definition get16 :: "u8 list \<Rightarrow> nat \<Rightarrow> u16" where
  "get16 pkt i = be16 (pkt ! i) (pkt ! (i + 1))"

definition get_ip :: "u8 list \<Rightarrow> nat \<Rightarrow> ipv4" where
  "get_ip pkt i = ip4 (pkt ! i) (pkt ! (i + 1)) (pkt ! (i + 2)) (pkt ! (i + 3))"

definition put :: "nat \<Rightarrow> u8 list \<Rightarrow> u8 list \<Rightarrow> u8 list" where
  "put i bs pkt = take i pkt @ bs @ drop (i + length bs) pkt"

subsection \<open>Words and their bytes\<close>

lemma unat_drop_16: "unat (drop_bit 16 s :: u32) = unat s div 65536"
  by (simp add: drop_bit_eq_div unat_div_distrib)

lemma ucast_u16_unat: "unat (ucast (x :: u32) :: u16) = unat x mod 65536"
  by (simp add: unsigned_ucast_eq take_bit_eq_mod)

lemma unat_be16 [simp]: "unat (be16 a b) = 256 * unat a + unat b"
  unfolding be16_def unat_of_nat using unat_u8 [of a] unat_u8 [of b] by simp

lemma to_be16_bytes: "\<exists>a b. to_be16 w = [a, b] \<and> be16 a b = w"
proof -
  have 1: "unat (ucast (drop_bit 8 w) :: u8) = unat w div 256"
    using unat_u16 [of w]
    by (simp add: unsigned_ucast_eq take_bit_eq_mod drop_bit_eq_div unat_div_distrib)
  have 2: "unat (ucast w :: u8) = unat w mod 256"
    by (simp add: unsigned_ucast_eq take_bit_eq_mod)
  have "be16 (ucast (drop_bit 8 w)) (ucast w) = w"
    unfolding word_unat_eq_iff unat_be16 1 2 by simp
  then show ?thesis
    by (simp add: to_be16_def)
qed

subsection \<open>Fields of a packet\<close>

definition part :: "nat \<Rightarrow> nat \<Rightarrow> 'a list \<Rightarrow> 'a list" where
  "part lo hi xs = take (hi - lo) (drop lo xs)"

lemma length_be [simp]: "length (to_be16 w) = 2" "length (to_be32 ip) = 4"
  by (simp_all add: to_be16_def to_be32_def)

lemma length_put [simp]: "i + length bs \<le> length pkt \<Longrightarrow> length (put i bs pkt) = length pkt"
  by (simp add: put_def)

lemma nth_put:
  assumes "i + length bs \<le> length pkt" "j < length pkt"
  shows "put i bs pkt ! j = (if i \<le> j \<and> j < i + length bs then bs ! (j - i) else pkt ! j)"
proof -
  have "i \<le> length pkt"
    using assms(1) by simp
  then show ?thesis
    using assms by (auto simp: put_def nth_append min_absorb2)
qed

lemma get16_put_same:
  assumes "i + 2 \<le> length pkt"
  shows "get16 (put i (to_be16 w) pkt) i = w"
proof -
  obtain a b where "to_be16 w = [a, b]" "be16 a b = w"
    using to_be16_bytes by blast
  then show ?thesis
    using assms by (simp add: get16_def nth_put)
qed

lemma get16_put_other:
  assumes "i + length bs \<le> length pkt" "j + 2 \<le> i \<or> i + length bs \<le> j" "j + 2 \<le> length pkt"
  shows "get16 (put i bs pkt) j = get16 pkt j"
  using assms by (auto simp: get16_def nth_put)

lemma get_ip_put_other:
  assumes "i + length bs \<le> length pkt" "j + 4 \<le> i \<or> i + length bs \<le> j" "j + 4 \<le> length pkt"
  shows "get_ip (put i bs pkt) j = get_ip pkt j"
  using assms by (auto simp: get_ip_def nth_put)

lemma be32_halves:
  "(ucast (drop_bit 16 (be32 a b c d)) :: u16) = be16 a b" "(ucast (be32 a b c d) :: u16) = be16 c d"
proof -
  have u: "unat (be32 a b c d) = 65536 * unat (be16 a b) + unat (be16 c d)"
    unfolding be32_def unat_of_nat using unat_u16 [of "be16 a b"] unat_u16 [of "be16 c d"]
    by (simp del: unat_be16)
  show "(ucast (drop_bit 16 (be32 a b c d)) :: u16) = be16 a b"
    unfolding word_unat_eq_iff ucast_u16_unat unat_drop_16 u
    using unat_u16 [of "be16 a b"] unat_u16 [of "be16 c d"] by (simp del: unat_be16)
  show "(ucast (be32 a b c d) :: u16) = be16 c d"
    unfolding word_unat_eq_iff ucast_u16_unat u
    using unat_u16 [of "be16 c d"] by (simp del: unat_be16)
qed

lemma be32_of_halves:
  assumes "(ucast (drop_bit 16 ip) :: u16) = be16 a b" "(ucast ip :: u16) = be16 c d"
  shows "be32 a b c d = ip"
proof -
  have "unat (be16 a b) = unat ip div 65536" "unat (be16 c d) = unat ip mod 65536"
    using unat_u32 [of ip] by (simp_all add: assms [symmetric] ucast_u16_unat unat_drop_16 less_mult_imp_div_less)
  then show ?thesis
    unfolding word_unat_eq_iff be32_def unat_of_nat using unat_u32 [of ip] by (simp del: unat_be16)
qed

lemma to_be32_bytes: "\<exists>a b c d. to_be32 ip = [a, b, c, d] \<and> be32 a b c d = ip"
proof -
  obtain a b where ab: "to_be16 (ucast (drop_bit 16 ip)) = [a, b]" "be16 a b = ucast (drop_bit 16 ip)"
    using to_be16_bytes by blast
  obtain c d where cd: "to_be16 (ucast ip) = [c, d]" "be16 c d = ucast ip"
    using to_be16_bytes by blast
  have "be32 a b c d = ip"
    by (rule be32_of_halves) (simp_all add: ab cd)
  then show ?thesis
    by (simp add: to_be32_def ab cd)
qed

lemma get_ip_put_same:
  assumes "i + 4 \<le> length pkt"
  shows "get_ip (put i (to_be32 ip) pkt) i = ip"
proof -
  obtain a b c d where "to_be32 ip = [a, b, c, d]" "be32 a b c d = ip"
    using to_be32_bytes by blast
  then show ?thesis
    using assms by (simp add: get_ip_def ip4_def nth_put eval_nat_numeral)
qed

text \<open>Writing a buffer from front to back.\<close>

lemma put_append:
  "put (length pre) bs (pre @ rest) = (pre @ bs) @ drop (length bs) rest"
  by (simp add: put_def)

lemma part_pair: "i + 2 \<le> length pkt \<Longrightarrow> part i (i + 2) pkt = [pkt ! i, pkt ! (i + 1)]"
  by (simp add: part_def numeral_2_eq_2 take_Suc_conv_app_nth)

lemma part_four:
  "i + 4 \<le> length pkt \<Longrightarrow> part i (i + 4) pkt = [pkt ! i, pkt ! (i + 1), pkt ! (i + 2), pkt ! (i + 3)]"
  by (simp add: part_def eval_nat_numeral take_Suc_conv_app_nth)

lemma part_append:
  assumes "lo \<le> i" "i \<le> hi"
  shows "part lo hi xs = part lo i xs @ part i hi xs"
proof -
  have "take (hi - lo) (drop lo xs) = take (i - lo) (drop lo xs) @ take (hi - i) (drop (i - lo) (drop lo xs))"
    using assms by (metis add.commute diff_add_assoc2 le_add_diff_inverse2 take_add Nat.add_diff_assoc2)
  then show ?thesis
    using assms by (simp add: part_def)
qed

lemma length_part: "hi \<le> length xs \<Longrightarrow> length (part lo hi xs) = hi - lo"
  by (simp add: part_def)

lemma part_put_outside:
  assumes "i + length bs \<le> length xs" "hi \<le> length xs" "i + length bs \<le> lo \<or> hi \<le> i"
  shows "part lo hi (put i bs xs) = part lo hi xs"
  using assms by (intro nth_equalityI) (auto simp: length_part part_def nth_put)

lemma part_put_self: "i + length bs \<le> length xs \<Longrightarrow> part i (i + length bs) (put i bs xs) = bs"
  by (intro nth_equalityI) (auto simp: length_part part_def nth_put)

end
