(* ===== verification/Packet_Checksum.thy ===== *)
theory Packet_Checksum
  imports Net_Bytes
begin

unbundle bit_operations_syntax

section \<open>Internet checksums\<close>

text \<open>
  The checksum routines of \<open>src/common/arcbox-packet/src/checksum.rs\<close>: the folding loop, the
  scalar sum and its NEON and SSSE3 versions, the RFC 1624 incremental updates and the TCP and UDP
  checksums.  A byte buffer is a list of bytes; sums are 32-bit words that wrap, as
  \<open>wrapping_add\<close> does.  The vector registers are lists of lanes and the intrinsics act on them as
  the architecture manuals say.
\<close>

subsection \<open>Folding\<close>

function fold_loop :: "u32 \<Rightarrow> u32" where
  "fold_loop s = (if drop_bit 16 s \<noteq> 0 then fold_loop ((s AND 0xFFFF) + drop_bit 16 s) else s)"
  by pat_completeness auto

lemma unat_and_ffff: "unat (s AND 0xFFFF :: u32) = unat s mod 65536"
proof -
  have "(s AND 0xFFFF) = take_bit 16 s"
    by (simp add: take_bit_eq_mask mask_eq_exp_minus_1)
  then show ?thesis
    by (simp add: take_bit_eq_mod unat_mod_distrib)
qed

lemma unat_round: "unat ((s AND 0xFFFF) + drop_bit 16 s :: u32) = unat s mod 65536 + unat s div 65536"
proof -
  have "unat s < 2 ^ 32"
    using unsigned_less [of s] by simp
  then have "unat s mod 65536 + unat s div 65536 < 2 ^ 32"
    by auto
  then show ?thesis
    by (simp add: unat_word_ariths unat_and_ffff unat_drop_16)
qed

lemma drop_16_zero_iff: "drop_bit 16 s = 0 \<longleftrightarrow> unat (s :: u32) < 65536"
  by (simp add: unat_eq_0 [symmetric] unat_drop_16 div_eq_0_iff)

termination fold_loop
proof (relation "measure unat")
  fix s :: u32
  assume "drop_bit 16 s \<noteq> 0"
  then have "65536 \<le> unat s"
    by (simp add: drop_16_zero_iff)
  then have "1 \<le> unat s div 65536"
    by (simp add: less_eq_div_iff_mult_less_eq)
  then have "unat s mod 65536 + unat s div 65536 < unat s"
    using div_mult_mod_eq [of "unat s" 65536] by linarith
  then show "((s AND 0xFFFF) + drop_bit 16 s, s) \<in> measure unat"
    by (simp add: unat_round)
qed simp

declare fold_loop.simps [simp del]

definition checksum_fold :: "u32 \<Rightarrow> u16" where
  "checksum_fold s = ucast (NOT (fold_loop s))"


definition SIMD_THRESHOLD :: nat where
  "SIMD_THRESHOLD = 64"

text \<open>The pairwise loop of the scalar sum, with the odd byte at the end as a high byte.\<close>

fun add_words :: "u32 \<Rightarrow> u8 list \<Rightarrow> u32" where
  "add_words s (a # b # r) = add_words (s + ucast (be16 a b)) r"
| "add_words s [a] = s + push_bit 8 (ucast a)"
| "add_words s [] = s"

definition checksum_add_scalar :: "u8 list \<Rightarrow> u32" where
  "checksum_add_scalar data = add_words 0 data"

subsection \<open>Vector sums\<close>

text \<open>\<open>as_chunks\<close>: the full chunks of a slice and what remains.\<close>

function as_chunks :: "nat \<Rightarrow> 'a list \<Rightarrow> 'a list list \<times> 'a list" where
  "as_chunks n xs =
     (if n = 0 \<or> length xs < n then ([], xs)
      else let (cs, r) = as_chunks n (drop n xs) in (take n xs # cs, r))"
  by pat_completeness auto
termination by (relation "measure (\<lambda>(n, xs). length xs)") auto

declare as_chunks.simps [simp del]

text \<open>The NEON intrinsics, on lists of lanes (lane 0 first).\<close>

fun vrev16q_u8 :: "u8 list \<Rightarrow> u8 list" where
  "vrev16q_u8 (a # b # r) = b # a # vrev16q_u8 r"
| "vrev16q_u8 r = r"

text \<open>The 16-bit lanes of a register, read little-endian (\<open>vreinterpretq_u16_u8\<close>).\<close>

fun lanes_u16 :: "u8 list \<Rightarrow> u16 list" where
  "lanes_u16 (a # b # r) = be16 b a # lanes_u16 r"
| "lanes_u16 _ = []"

fun vpadalq_u16 :: "u32 list \<Rightarrow> u16 list \<Rightarrow> u32 list" where
  "vpadalq_u16 (s # ss) (a # b # r) = (s + (ucast a + ucast b)) # vpadalq_u16 ss r"
| "vpadalq_u16 ss _ = ss"

definition vaddq_u32 :: "u32 list \<Rightarrow> u32 list \<Rightarrow> u32 list" where
  "vaddq_u32 xs ys = map2 (+) xs ys"

definition vaddvq_u32 :: "u32 list \<Rightarrow> u32" where
  "vaddvq_u32 xs = sum_list xs"

definition neon_accumulate :: "u32 list \<Rightarrow> u8 list \<Rightarrow> u32 list" where
  "neon_accumulate acc bytes =
     (let swapped = vrev16q_u8 bytes;
          words = lanes_u16 swapped
      in vpadalq_u16 acc words)"

definition neon_group ::
  "u32 list \<times> u32 list \<times> u32 list \<times> u32 list \<Rightarrow> u8 list list
     \<Rightarrow> u32 list \<times> u32 list \<times> u32 list \<times> u32 list" where
  "neon_group sums chunks4 =
     (case sums of (sum0, sum1, sum2, sum3) \<Rightarrow>
        (neon_accumulate sum0 (chunks4 ! 0), neon_accumulate sum1 (chunks4 ! 1),
         neon_accumulate sum2 (chunks4 ! 2), neon_accumulate sum3 (chunks4 ! 3)))"

definition checksum_add_neon :: "u8 list \<Rightarrow> u32" where
  "checksum_add_neon data =
     (let zero = [0, 0, 0, 0];
          (chunks, remainder) = as_chunks 16 data;
          (groups, group_remainder) = as_chunks 4 chunks;
          (sum0, sum1, sum2, sum3) = foldl neon_group (zero, zero, zero, zero) groups;
          sum0 = foldl neon_accumulate sum0 group_remainder;
          sum01 = vaddq_u32 sum0 sum1;
          sum23 = vaddq_u32 sum2 sum3;
          scalar_sum = vaddvq_u32 (vaddq_u32 sum01 sum23)
      in add_words scalar_sum remainder)"

text \<open>
  The SSSE3 intrinsics.  A register is its sixteen bytes; the 16- and 32-bit lanes are read from
  them little-endian.
\<close>

definition mm_shuffle_epi8 :: "u8 list \<Rightarrow> nat list \<Rightarrow> u8 list" where
  "mm_shuffle_epi8 a m = map (\<lambda>i. a ! i) m"

definition swap_mask :: "nat list" where
  "swap_mask = [1, 0, 3, 2, 5, 4, 7, 6, 9, 8, 11, 10, 13, 12, 15, 14]"

fun interleave :: "'a list \<Rightarrow> 'a list \<Rightarrow> 'a list" where
  "interleave (x # xs) (y # ys) = x # y # interleave xs ys"
| "interleave _ _ = []"

definition mm_unpacklo_epi16 :: "u16 list \<Rightarrow> u16 list \<Rightarrow> u16 list" where
  "mm_unpacklo_epi16 a b = interleave (take 4 a) (take 4 b)"

definition mm_unpackhi_epi16 :: "u16 list \<Rightarrow> u16 list \<Rightarrow> u16 list" where
  "mm_unpackhi_epi16 a b = interleave (drop 4 a) (drop 4 b)"

fun epi32 :: "u16 list \<Rightarrow> u32 list" where
  "epi32 (lo # hi # r) = (ucast lo + push_bit 16 (ucast hi)) # epi32 r"
| "epi32 _ = []"

definition mm_hadd_epi32 :: "u32 list \<Rightarrow> u32 list \<Rightarrow> u32 list" where
  "mm_hadd_epi32 a b = [a ! 0 + a ! 1, a ! 2 + a ! 3, b ! 0 + b ! 1, b ! 2 + b ! 3]"

definition ssse3_chunk :: "u32 list \<times> u32 list \<Rightarrow> u8 list \<Rightarrow> u32 list \<times> u32 list" where
  "ssse3_chunk sums bytes =
     (case sums of (sum_lo, sum_hi) \<Rightarrow>
        let swapped = lanes_u16 (mm_shuffle_epi8 bytes swap_mask);
            zero = replicate 8 0;
            words_lo = epi32 (mm_unpacklo_epi16 swapped zero);
            words_hi = epi32 (mm_unpackhi_epi16 swapped zero)
        in (map2 (+) sum_lo words_lo, map2 (+) sum_hi words_hi))"

definition checksum_add_ssse3 :: "u8 list \<Rightarrow> u32" where
  "checksum_add_ssse3 data =
     (let zero = [0, 0, 0, 0];
          (chunks, remainder) = as_chunks 16 data;
          (sum_lo, sum_hi) = foldl ssse3_chunk (zero, zero) chunks;
          sum = map2 (+) sum_lo sum_hi;
          hadd1 = mm_hadd_epi32 sum sum;
          hadd2 = mm_hadd_epi32 hadd1 hadd1;
          scalar_sum = hadd2 ! 0
      in add_words scalar_sum remainder)"

text \<open>The build target and, on x86-64, what the processor reports.\<close>

datatype Target = Aarch64Little | Aarch64Big | X86_64 bool | OtherArch

fun checksum_add_fast :: "Target \<Rightarrow> u8 list \<Rightarrow> u32" where
  "checksum_add_fast Aarch64Little data = checksum_add_neon data"
| "checksum_add_fast Aarch64Big data = checksum_add_scalar data"
| "checksum_add_fast (X86_64 ssse3) data =
     (if ssse3 then checksum_add_ssse3 data else checksum_add_scalar data)"
| "checksum_add_fast OtherArch data = checksum_add_scalar data"

definition checksum_add :: "Target \<Rightarrow> u8 list \<Rightarrow> u32" where
  "checksum_add tgt data =
     (if length data > SIMD_THRESHOLD then checksum_add_fast tgt data
      else checksum_add_scalar data)"

definition checksum :: "Target \<Rightarrow> u8 list \<Rightarrow> u16" where
  "checksum tgt data = checksum_fold (checksum_add tgt data)"

definition checksum_simd :: "Target \<Rightarrow> u8 list \<Rightarrow> u16" where
  "checksum_simd tgt data = checksum_fold (checksum_add_fast tgt data)"

subsection \<open>Incremental updates\<close>

definition incremental_checksum_update :: "u16 \<Rightarrow> u16 \<Rightarrow> u16 \<Rightarrow> u16" where
  "incremental_checksum_update old_checksum old_value new_value =
     checksum_fold (ucast (NOT old_checksum) + ucast (NOT old_value) + ucast new_value)"

definition incremental_checksum_update_32 :: "u16 \<Rightarrow> u32 \<Rightarrow> u32 \<Rightarrow> u16" where
  "incremental_checksum_update_32 old_checksum old_value new_value =
     (let old_hi = ucast (drop_bit 16 old_value);
          old_lo = ucast old_value;
          new_hi = ucast (drop_bit 16 new_value);
          new_lo = ucast new_value;
          c = incremental_checksum_update old_checksum old_hi new_hi
      in incremental_checksum_update c old_lo new_lo)"

definition update_checksum_for_ip :: "u16 \<Rightarrow> ipv4 \<Rightarrow> ipv4 \<Rightarrow> u16" where
  "update_checksum_for_ip old_checksum old_ip new_ip =
     incremental_checksum_update_32 old_checksum old_ip new_ip"

definition update_checksum_for_port :: "u16 \<Rightarrow> u16 \<Rightarrow> u16 \<Rightarrow> u16" where
  "update_checksum_for_port old_checksum old_port new_port =
     incremental_checksum_update old_checksum old_port new_port"

definition update_checksum_for_nat :: "u16 \<Rightarrow> ipv4 \<Rightarrow> u16 \<Rightarrow> ipv4 \<Rightarrow> u16 \<Rightarrow> u16" where
  "update_checksum_for_nat old_checksum old_ip old_port new_ip new_port =
     (let c = update_checksum_for_ip old_checksum old_ip new_ip
      in update_checksum_for_port c old_port new_port)"

subsection \<open>Header and segment checksums\<close>

definition ipv4_header_checksum :: "Target \<Rightarrow> u8 list \<Rightarrow> u16" where
  "ipv4_header_checksum tgt header = checksum tgt header"

definition pseudo_sum :: "Target \<Rightarrow> ipv4 \<Rightarrow> ipv4 \<Rightarrow> u32 \<Rightarrow> u8 list \<Rightarrow> u32" where
  "pseudo_sum tgt src_ip dst_ip proto segment =
     0 + ucast (ucast (drop_bit 16 src_ip) :: u16) + ucast (ucast src_ip :: u16)
       + ucast (ucast (drop_bit 16 dst_ip) :: u16) + ucast (ucast dst_ip :: u16)
       + proto + word_of_nat (length segment) + checksum_add tgt segment"

definition tcp_checksum :: "Target \<Rightarrow> ipv4 \<Rightarrow> ipv4 \<Rightarrow> u8 list \<Rightarrow> u16" where
  "tcp_checksum tgt src_ip dst_ip tcp_segment =
     checksum_fold (pseudo_sum tgt src_ip dst_ip 6 tcp_segment)"

definition udp_checksum :: "Target \<Rightarrow> ipv4 \<Rightarrow> ipv4 \<Rightarrow> u8 list \<Rightarrow> u16" where
  "udp_checksum tgt src_ip dst_ip udp_datagram =
     (let result = checksum_fold (pseudo_sum tgt src_ip dst_ip 17 udp_datagram)
      in if result = 0 then 0xFFFF else result)"

subsection \<open>The vector sums are the scalar sum\<close>

lemma add_words_add: "add_words (s + t) xs = s + add_words t xs"
  by (induction t xs arbitrary: s rule: add_words.induct) (simp_all add: ac_simps)

lemma add_words_0: "add_words s xs = s + add_words 0 xs"
  using add_words_add [of s 0 xs] by simp

lemma add_words_append:
  "even (length xs) \<Longrightarrow> add_words s (xs @ ys) = add_words (add_words s xs) ys"
  by (induction s xs rule: add_words.induct) simp_all

lemma add_words_concat:
  assumes "\<forall>c\<in>set cs. even (length c)"
  shows "add_words s (concat cs @ r) = add_words (s + (\<Sum>c\<leftarrow>cs. add_words 0 c)) r"
  using assms
proof (induction cs arbitrary: s)
  case (Cons c cs)
  then show ?case
    using add_words_0 [of s c] by (simp add: add_words_append ac_simps)
qed simp

lemma as_chunks_concat: "concat (fst (as_chunks n xs)) @ snd (as_chunks n xs) = xs"
  by (induction n xs rule: as_chunks.induct)
    (subst (1 2) as_chunks.simps, auto simp: Let_def case_prod_beta)

lemma as_chunks_lengths: "c \<in> set (fst (as_chunks n xs)) \<Longrightarrow> length c = n"
  by (induction n xs rule: as_chunks.induct)
    (subst (asm) (2) as_chunks.simps, auto simp: Let_def case_prod_beta split: if_splits)

lemma neon_accumulate_sum:
  "length bytes = 4 * length acc \<Longrightarrow>
     sum_list (neon_accumulate acc bytes) = sum_list acc + add_words 0 bytes"
proof (induction acc arbitrary: bytes)
  case (Cons s acc)
  from Cons.prems obtain a b c d r where r: "bytes = a # b # c # d # r" "length r = 4 * length acc"
    by (auto simp: length_Suc_conv numeral_eq_Suc)
  show ?case
    using Cons.IH [OF r(2)] add_words_0 [of "ucast (be16 a b) + ucast (be16 c d)" r]
    by (simp add: neon_accumulate_def r ac_simps)
qed (simp add: neon_accumulate_def)

lemma neon_accumulate_length: "length (neon_accumulate acc bytes) = length acc"
proof -
  have "length (vpadalq_u16 acc ws) = length acc" for ws
    by (induction acc ws rule: vpadalq_u16.induct) simp_all
  then show ?thesis
    by (simp add: neon_accumulate_def)
qed

lemma neon_rest_sum:
  "length acc = 4 \<Longrightarrow> \<forall>c\<in>set cs. length c = 16 \<Longrightarrow>
     sum_list (foldl neon_accumulate acc cs) = sum_list acc + (\<Sum>c\<leftarrow>cs. add_words 0 c)
     \<and> length (foldl neon_accumulate acc cs) = 4"
  by (induction cs arbitrary: acc)
    (simp_all add: neon_accumulate_sum neon_accumulate_length ac_simps)

text \<open>What a list of four accumulators holds, lane by lane and in total.\<close>

fun neon_total :: "u32 list \<times> u32 list \<times> u32 list \<times> u32 list \<Rightarrow> u32" where
  "neon_total (a, b, c, d) = sum_list a + sum_list b + sum_list c + sum_list d"

fun neon_lanes :: "u32 list \<times> u32 list \<times> u32 list \<times> u32 list \<Rightarrow> bool" where
  "neon_lanes (a, b, c, d) = (length a = 4 \<and> length b = 4 \<and> length c = 4 \<and> length d = 4)"

lemma neon_group_total:
  assumes "neon_lanes sums" "length g = 4" "\<forall>c\<in>set g. length c = 16"
  shows "neon_total (neon_group sums g) = neon_total sums + (\<Sum>c\<leftarrow>g. add_words 0 c)
    \<and> neon_lanes (neon_group sums g)"
proof -
  obtain p q r s where g: "g = [p, q, r, s]"
    using assms(2) by (auto simp: length_Suc_conv numeral_eq_Suc)
  then show ?thesis
    using assms by (cases sums)
      (simp add: neon_group_def neon_accumulate_sum neon_accumulate_length ac_simps)
qed

lemma neon_groups_total:
  "neon_lanes sums \<Longrightarrow> \<forall>g\<in>set gs. length g = 4 \<and> (\<forall>c\<in>set g. length c = 16) \<Longrightarrow>
     neon_total (foldl neon_group sums gs)
       = neon_total sums + (\<Sum>c\<leftarrow>concat gs. add_words 0 c)
     \<and> neon_lanes (foldl neon_group sums gs)"
  by (induction gs arbitrary: sums) (simp_all add: neon_group_total ac_simps)

lemma sum_list_map2_add:
  "length xs = length ys \<Longrightarrow> sum_list (map2 (+) xs ys) = sum_list xs + sum_list (ys :: u32 list)"
  by (induction xs ys rule: list_induct2) (simp_all add: ac_simps)

lemma sum_of_chunks:
  "add_words (\<Sum>c\<leftarrow>fst (as_chunks 16 xs). add_words 0 c) (snd (as_chunks 16 xs)) = add_words 0 xs"
proof -
  have "\<forall>c\<in>set (fst (as_chunks 16 xs)). even (length c)"
    by (simp add: as_chunks_lengths)
  from add_words_concat [OF this, of 0 "snd (as_chunks 16 xs)"] show ?thesis
    by (simp add: as_chunks_concat)
qed

lemma checksum_add_neon_scalar: "checksum_add_neon data = checksum_add_scalar data"
proof -
  let ?cs = "fst (as_chunks 16 data)"
  let ?gs = "fst (as_chunks 4 ?cs)" and ?gr = "snd (as_chunks 4 ?cs)"
  let ?z = "[0, 0, 0, 0] :: u32 list"
  have cs: "concat ?gs @ ?gr = ?cs"
    by (rule as_chunks_concat)
  have len: "\<forall>c\<in>set ?cs. length c = 16"
    by (auto dest: as_chunks_lengths)
  have gs: "\<forall>g\<in>set ?gs. length g = 4 \<and> (\<forall>c\<in>set g. length c = 16)"
  proof
    fix g assume g: "g \<in> set ?gs"
    have "set g \<subseteq> set ?cs"
      using g arg_cong [OF cs, of set] by auto
    then show "length g = 4 \<and> (\<forall>c\<in>set g. length c = 16)"
      using len as_chunks_lengths [OF g] by blast
  qed
  obtain s0 s1 s2 s3 where s: "foldl neon_group (?z, ?z, ?z, ?z) ?gs = (s0, s1, s2, s3)"
    by (cases "foldl neon_group (?z, ?z, ?z, ?z) ?gs")
  have tot: "sum_list s0 + sum_list s1 + sum_list s2 + sum_list s3 = (\<Sum>c\<leftarrow>concat ?gs. add_words 0 c)"
    and l: "length s0 = 4" "length s1 = 4" "length s2 = 4" "length s3 = 4"
    using neon_groups_total [of "(?z, ?z, ?z, ?z)" ?gs] gs s by auto
  let ?s0 = "foldl neon_accumulate s0 ?gr"
  have "\<forall>c\<in>set ?gr. length c = 16"
    using len arg_cong [OF cs, of set] by auto
  then have r: "sum_list ?s0 = sum_list s0 + (\<Sum>c\<leftarrow>?gr. add_words 0 c)" "length ?s0 = 4"
    using neon_rest_sum [of s0 ?gr] l by auto
  have "sum_list ?s0 + sum_list s1 + (sum_list s2 + sum_list s3)
      = (\<Sum>c\<leftarrow>concat ?gs @ ?gr. add_words 0 c)"
    using tot r by (simp add: ac_simps)
  then have "sum_list ?s0 + sum_list s1 + (sum_list s2 + sum_list s3) = (\<Sum>c\<leftarrow>?cs. add_words 0 c)"
    by (simp only: cs)
  then have "vaddvq_u32 (vaddq_u32 (vaddq_u32 ?s0 s1) (vaddq_u32 s2 s3)) = (\<Sum>c\<leftarrow>?cs. add_words 0 c)"
    using l r by (simp add: vaddvq_u32_def vaddq_u32_def sum_list_map2_add)
  then show ?thesis
    by (simp add: checksum_add_neon_def checksum_add_scalar_def Let_def case_prod_beta s sum_of_chunks)
qed

lemma ssse3_chunk_sum:
  assumes "length lo = 4" "length hi = 4" "length bytes = 16"
  shows "sum_list (fst (ssse3_chunk (lo, hi) bytes)) + sum_list (snd (ssse3_chunk (lo, hi) bytes))
      = sum_list lo + sum_list hi + add_words 0 bytes"
    and "length (fst (ssse3_chunk (lo, hi) bytes)) = 4" "length (snd (ssse3_chunk (lo, hi) bytes)) = 4"
proof -
  obtain l0 l1 l2 l3 where l: "lo = [l0, l1, l2, l3]"
    using assms(1) by (auto simp: length_Suc_conv numeral_eq_Suc)
  obtain h0 h1 h2 h3 where h: "hi = [h0, h1, h2, h3]"
    using assms(2) by (auto simp: length_Suc_conv numeral_eq_Suc)
  obtain b0 b1 b2 b3 b4 b5 b6 b7 b8 b9 b10 b11 b12 b13 b14 b15
    where b: "bytes = [b0, b1, b2, b3, b4, b5, b6, b7, b8, b9, b10, b11, b12, b13, b14, b15]"
    using assms(3) by (auto simp: length_Suc_conv numeral_eq_Suc)
  have s: "ssse3_chunk (lo, hi) bytes =
      ([l0 + ucast (be16 b0 b1), l1 + ucast (be16 b2 b3), l2 + ucast (be16 b4 b5), l3 + ucast (be16 b6 b7)],
       [h0 + ucast (be16 b8 b9), h1 + ucast (be16 b10 b11), h2 + ucast (be16 b12 b13), h3 + ucast (be16 b14 b15)])"
    by (simp add: ssse3_chunk_def mm_shuffle_epi8_def swap_mask_def mm_unpacklo_epi16_def
        mm_unpackhi_epi16_def l h b Let_def numeral_eq_Suc)
  show "sum_list (fst (ssse3_chunk (lo, hi) bytes)) + sum_list (snd (ssse3_chunk (lo, hi) bytes))
      = sum_list lo + sum_list hi + add_words 0 bytes"
    unfolding s by (simp add: l h b ac_simps)
  show "length (fst (ssse3_chunk (lo, hi) bytes)) = 4" "length (snd (ssse3_chunk (lo, hi) bytes)) = 4"
    unfolding s by simp_all
qed

lemma ssse3_chunks_sum:
  "length (fst p) = 4 \<Longrightarrow> length (snd p) = 4 \<Longrightarrow> \<forall>c\<in>set cs. length c = 16 \<Longrightarrow>
     sum_list (fst (foldl ssse3_chunk p cs)) + sum_list (snd (foldl ssse3_chunk p cs))
       = sum_list (fst p) + sum_list (snd p) + (\<Sum>c\<leftarrow>cs. add_words 0 c)
     \<and> length (fst (foldl ssse3_chunk p cs)) = 4 \<and> length (snd (foldl ssse3_chunk p cs)) = 4"
proof (induction cs arbitrary: p)
  case (Cons c cs)
  have c: "length c = 16"
    using Cons.prems by simp
  note step = ssse3_chunk_sum [OF Cons.prems(1, 2) c]
  show ?case
    using Cons.IH [of "ssse3_chunk p c"] Cons.prems step by (simp add: ac_simps)
qed simp

lemma hadd_sum:
  "length xs = 4 \<Longrightarrow> mm_hadd_epi32 (mm_hadd_epi32 xs xs) (mm_hadd_epi32 xs xs) ! 0 = sum_list xs"
  by (auto simp: mm_hadd_epi32_def length_Suc_conv numeral_eq_Suc ac_simps)

lemma checksum_add_ssse3_scalar: "checksum_add_ssse3 data = checksum_add_scalar data"
proof -
  let ?cs = "fst (as_chunks 16 data)" and ?z = "[0, 0, 0, 0] :: u32 list"
  let ?p = "foldl ssse3_chunk (?z, ?z) ?cs"
  have "\<forall>c\<in>set ?cs. length c = 16"
    by (simp add: as_chunks_lengths)
  then have p: "sum_list (fst ?p) + sum_list (snd ?p) = (\<Sum>c\<leftarrow>?cs. add_words 0 c)"
    "length (fst ?p) = 4" "length (snd ?p) = 4"
    using ssse3_chunks_sum [of "(?z, ?z)" ?cs] by auto
  then have "sum_list (map2 (+) (fst ?p) (snd ?p)) = (\<Sum>c\<leftarrow>?cs. add_words 0 c)"
    "length (map2 (+) (fst ?p) (snd ?p)) = 4"
    by (simp_all add: sum_list_map2_add)
  then show ?thesis
    by (simp add: checksum_add_ssse3_def checksum_add_scalar_def Let_def case_prod_beta hadd_sum
        sum_of_chunks)
qed

lemma checksum_add_fast_scalar: "checksum_add_fast tgt data = checksum_add_scalar data"
  by (cases tgt) (simp_all add: checksum_add_neon_scalar checksum_add_ssse3_scalar)

lemma checksum_add_scalar_eq: "checksum_add tgt data = checksum_add_scalar data"
  by (simp add: checksum_add_def checksum_add_fast_scalar)

subsection \<open>Ones' complement arithmetic\<close>

text \<open>
  The ideal sums: the 16-bit words of a buffer added without bound, and the reduction of a sum to
  sixteen bits with end-around carry.  Zero is reached only from zero; any other multiple of 65535
  reduces to 65535.
\<close>

fun wsum :: "u8 list \<Rightarrow> nat" where
  "wsum (a # b # r) = 256 * unat a + unat b + wsum r"
| "wsum [a] = 256 * unat a"
| "wsum [] = 0"

definition ones :: "nat \<Rightarrow> nat" where
  "ones n = (if n = 0 then 0 else if n mod 65535 = 0 then 65535 else n mod 65535)"

lemma ones_small: "n < 65536 \<Longrightarrow> ones n = n"
  by (cases "n = 65535") (auto simp: ones_def mod_less)

lemma ones_le: "ones n \<le> 65535"
  using mod_less_divisor [of 65535 n] by (auto simp: ones_def)

lemma ones_cong: "n mod 65535 = m mod 65535 \<Longrightarrow> (n = 0 \<longleftrightarrow> m = 0) \<Longrightarrow> ones n = ones m"
  by (simp add: ones_def)

lemma ones_mod: "ones n mod 65535 = n mod 65535"
  by (simp add: ones_def)

lemma ones_0_iff: "ones n = 0 \<longleftrightarrow> n = 0"
  by (simp add: ones_def)

lemma ones_round: "ones (n mod 65536 + n div 65536) = ones n"
proof (rule ones_cong)
  have "n = n mod 65536 + n div 65536 + 65535 * (n div 65536)"
    using div_mult_mod_eq [of n 65536] by linarith
  then show "(n mod 65536 + n div 65536) mod 65535 = n mod 65535"
    by (metis mod_mult_self2)
  show "n mod 65536 + n div 65536 = 0 \<longleftrightarrow> n = 0"
    using div_mult_mod_eq [of n 65536] by auto
qed

lemma unat_fold_loop: "unat (fold_loop s) = ones (unat s)"
proof (induction s rule: fold_loop.induct)
  case (1 s)
  show ?case
  proof (cases "drop_bit 16 s \<noteq> 0")
    case True
    then show ?thesis
      using 1 [OF True] by (simp add: fold_loop.simps [of s] unat_round ones_round)
  next
    case False
    then show ?thesis
      by (simp add: fold_loop.simps [of s] drop_16_zero_iff ones_small)
  qed
qed

lemma unat_complement: "unat (NOT x :: u16) = 65535 - unat x"
proof -
  have "NOT x = - 1 - x"
    by (simp add: not_eq_complement)
  moreover have "unat (- 1 - x :: u16) = unat (- 1 :: u16) - unat x"
    by (rule unat_sub) simp
  ultimately show ?thesis
    by (simp add: unsigned_minus_1_eq_mask mask_eq_exp_minus_1)
qed

lemma unat_checksum_fold: "unat (checksum_fold s) = 65535 - ones (unat s)"
proof -
  have "(ucast (NOT y) :: u16) = NOT (ucast y)" for y :: u32
    by (rule bit_word_eqI) (simp add: bit_ucast_iff bit_not_iff)
  moreover have "unat (ucast (fold_loop s) :: u16) = ones (unat s)"
    using ones_le [of "unat s"]
    by (simp add: unat_fold_loop [symmetric] unsigned_ucast_eq take_bit_eq_mod)
  ultimately show ?thesis
    by (simp add: checksum_fold_def unat_complement)
qed

lemma unat_ucast_32 [simp]: "unat (ucast (w :: u16) :: u32) = unat w"
  using unat_u16 [of w] by (simp add: unsigned_ucast_eq take_bit_eq_mod)

lemma add_words_wsum: "add_words s xs = s + word_of_nat (wsum xs)"
proof (induction s xs rule: add_words.induct)
  case (1 s a b r)
  have "(ucast (be16 a b) :: u32) = word_of_nat (256 * unat a + unat b)"
    unfolding word_unat_eq_iff unat_of_nat using unat_u8 [of a] unat_u8 [of b] by simp
  then show ?case
    using 1 by (simp add: ac_simps)
next
  case (2 s a)
  have "(push_bit 8 (ucast a) :: u32) = word_of_nat (256 * unat a)"
    by (simp add: push_bit_eq_mult mult.commute)
  then show ?case
    by simp
qed simp

lemma wsum_le: "wsum xs \<le> 65535 * ((length xs + 1) div 2)"
proof (induction xs rule: wsum.induct)
  case (1 a b r)
  then show ?case
    using unat_u8 [of a] unat_u8 [of b] by simp
next
  case (2 a)
  then show ?case
    using unat_u8 [of a] by simp
qed simp

lemma wsum_append: "even (length xs) \<Longrightarrow> wsum (xs @ ys) = wsum xs + wsum ys"
  by (induction xs rule: wsum.induct) simp_all

lemma unat_checksum_add:
  "length xs \<le> 131072 \<Longrightarrow> unat (checksum_add tgt xs) = wsum xs"
proof -
  assume "length xs \<le> 131072"
  then have "(length xs + 1) div 2 \<le> 65536"
    by linarith
  then have "65535 * ((length xs + 1) div 2) \<le> 65535 * 65536"
    by simp
  then have "wsum xs < 2 ^ 32"
    using wsum_le [of xs] by simp
  then show ?thesis
    by (simp add: checksum_add_scalar_eq checksum_add_scalar_def add_words_wsum unat_of_nat)
qed

lemma unat_checksum:
  "length xs \<le> 131072 \<Longrightarrow> unat (checksum tgt xs) = 65535 - ones (wsum xs)"
  by (simp add: checksum_def unat_checksum_fold unat_checksum_add)

lemma wsum_field:
  assumes "even (length xs)"
  shows "wsum (xs @ to_be16 w @ ys) = wsum xs + unat w + wsum ys"
proof -
  obtain a b where "to_be16 w = [a, b]" "be16 a b = w"
    using to_be16_bytes by blast
  then show ?thesis
    using unat_be16 [of a b] assms by (simp add: wsum_append)
qed

lemma wsum_pair:
  "even (length xs) \<Longrightarrow> wsum (xs @ a # b # ys) = wsum xs + unat (be16 a b) + wsum ys"
  by (simp add: wsum_append)

text \<open>The sum the incremental update folds, and the update as an equation modulo 65535.\<close>

lemma unat_incremental:
  "unat (incremental_checksum_update c m m')
     = 65535 - ones ((65535 - unat c) + (65535 - unat m) + unat m')"
proof -
  have "unat (ucast (NOT c) + ucast (NOT m) + ucast m' :: u32)
      = (65535 - unat c) + (65535 - unat m) + unat m'"
    using unat_u16 [of m'] by (simp add: unat_word_ariths unat_complement)
  then show ?thesis
    by (simp add: incremental_checksum_update_def unat_checksum_fold)
qed

lemma incremental_mod:
  "int (unat (incremental_checksum_update c m m')) mod 65535
     = (int (unat c) + int (unat m) - int (unat m')) mod 65535"
proof -
  let ?S = "(65535 - unat c) + (65535 - unat m) + unat m'"
  have "int (ones ?S) mod 65535 = int ?S mod 65535"
    using arg_cong [OF ones_mod [of ?S], of int] by (simp only: zmod_int of_nat_numeral)
  then have "65535 dvd (int (ones ?S) - int ?S)"
    by (simp add: mod_eq_dvd_iff)
  then have "65535 dvd - (int (ones ?S) - int ?S) - 65535"
    by (intro dvd_diff) (simp_all only: dvd_minus_iff dvd_refl)
  moreover have "int (unat (incremental_checksum_update c m m')) - (int (unat c) + int (unat m) - int (unat m'))
      = - (int (ones ?S) - int ?S) - 65535"
    using unat_u16 [of c] unat_u16 [of m] ones_le [of ?S]
    by (simp add: unat_incremental of_nat_diff)
  ultimately show ?thesis
    by (simp only: mod_eq_dvd_iff)
qed

subsection \<open>Properties\<close>

text \<open>
  C14: On every target and for every buffer, the vectorised sum is the scalar one: the NEON and the
  SSSE3 paths, with their chunks, accumulators and odd tails, compute the same 32-bit sum and so
  the same checksum as the scalar loop.
\<close>

theorem simd_is_scalar:
  "checksum_add tgt data = checksum_add_scalar data
   \<and> checksum_add_fast tgt data = checksum_add_scalar data
   \<and> checksum tgt data = checksum_simd tgt data"
  by (simp add: checksum_add_scalar_eq checksum_add_fast_scalar checksum_def checksum_simd_def)

text \<open>
  The folding loop ends after at most two rounds on every 32-bit sum, and what it computes is
  the complement of the sum reduced with end-around carry.
\<close>

theorem fold_in_two_rounds:
  "fold_loop s = (let r = (\<lambda>s. (s AND 0xFFFF) + drop_bit 16 s) in r (r s))
   \<and> unat (checksum_fold s) = 65535 - ones (unat s)"
proof -
  let ?r = "\<lambda>s :: u32. (s AND 0xFFFF) + drop_bit 16 s"
  let ?n = "unat s"
  have n: "?n div 65536 < 65536"
    using unat_u32 [of s] by (simp add: less_mult_imp_div_less)
  have "(?n mod 65536 + ?n div 65536) mod 65536 + (?n mod 65536 + ?n div 65536) div 65536 < 65536"
  proof (cases "?n mod 65536 + ?n div 65536 < 65536")
    case False
    then obtain d where d: "?n mod 65536 + ?n div 65536 = 65536 + d"
      by (metis le_iff_add not_less)
    then have "d < 65535"
      using n mod_less_divisor [of 65536 ?n] by linarith
    then show ?thesis
      by (simp add: d)
  qed simp
  then have "unat (?r (?r s)) < 65536"
    by (simp only: unat_round)
  moreover have "ones (unat (?r (?r s))) = ones ?n"
    by (simp only: unat_round ones_round)
  ultimately have "unat (?r (?r s)) = unat (fold_loop s)"
    by (simp add: unat_fold_loop ones_small)
  then show ?thesis
    by (simp add: word_unat_eq_iff unat_checksum_fold)
qed

text \<open>
  C15: Updating a checksum for one changed 16-bit word gives the checksum of the changed buffer,
  for every buffer up to 131072 bytes, except that a buffer that became all zero gets 0 where a
  recomputation gives 0xFFFF.
\<close>

theorem incremental_is_recompute:
  assumes "even (length xs)" "length xs + length ys \<le> 131070"
  shows "incremental_checksum_update (checksum tgt (xs @ a # b # ys)) (be16 a b) (be16 a' b')
    = (if wsum (xs @ a' # b' # ys) = 0 then 0 else checksum tgt (xs @ a' # b' # ys))"
proof -
  let ?m = "unat (be16 a b)" and ?m' = "unat (be16 a' b')" and ?R = "wsum xs + wsum ys"
  have old: "65535 - unat (checksum tgt (xs @ a # b # ys)) = ones (?R + ?m)"
    using assms ones_le [of "?R + ?m"] by (simp add: unat_checksum wsum_pair ac_simps del: unat_be16)
  let ?S = "ones (?R + ?m) + (65535 - ?m) + ?m'"
  have new: "unat (incremental_checksum_update (checksum tgt (xs @ a # b # ys)) (be16 a b) (be16 a' b'))
      = 65535 - ones ?S"
    by (simp add: unat_incremental old del: unat_be16)
  have m: "?m \<le> 65535"
    using unat_u16 [of "be16 a b"] by simp
  have S: "?S mod 65535 = (?R + ?m') mod 65535"
  proof -
    have "?S mod 65535 = ((?R + ?m) + (65535 - ?m) + ?m') mod 65535"
      using ones_mod [of "?R + ?m"] by (metis (no_types, opaque_lifting) mod_add_left_eq)
    also have "\<dots> = (?R + ?m' + 65535) mod 65535"
      using m by (simp add: ac_simps del: unat_be16)
    finally show ?thesis
      by simp
  qed
  have "?S \<noteq> 0"
    using m ones_0_iff [of "?R + ?m"] by (cases "?m = 65535") auto
  show ?thesis
  proof (cases "?R + ?m' = 0")
    case True
    then have "ones ?S = 65535"
      using S \<open>?S \<noteq> 0\<close> by (simp add: ones_def)
    then show ?thesis
      using True assms(1) by (simp add: word_unat_eq_iff new wsum_pair del: unat_be16)
  next
    case False
    then have "ones ?S = ones (?R + ?m')"
      using S \<open>?S \<noteq> 0\<close> by (intro ones_cong) auto
    moreover have "unat (checksum tgt (xs @ a' # b' # ys)) = 65535 - ones (?R + ?m')"
      using assms by (simp add: unat_checksum wsum_pair ac_simps del: unat_be16)
    ultimately show ?thesis
      using False assms(1) by (auto simp: word_unat_eq_iff new wsum_pair simp del: unat_be16)
  qed
qed

theorem incremental_is_recompute_witness:
  "incremental_checksum_update (checksum OtherArch ([] @ 0 # 1 # [2, 3])) (be16 0 1) (be16 0 5)
    = (if wsum ([] @ 0 # 5 # [2, 3]) = 0 then 0 else checksum OtherArch ([] @ 0 # 5 # [2, 3]))"
  by (rule incremental_is_recompute) simp_all

text \<open>
  A buffer that carries its own checksum in a zeroed 16-bit field checks: the checksum over
  the filled-in buffer is zero, which is the test a receiver makes.
\<close>

theorem filled_in_checksum_verifies:
  assumes "even (length xs)" "length xs + length ys \<le> 131070"
  shows "checksum tgt (xs @ to_be16 (checksum tgt (xs @ 0 # 0 # ys)) @ ys) = 0"
proof -
  let ?T = "wsum xs + wsum ys"
  have l: "length (to_be16 w) = 2" for w
    by (simp add: to_be16_def)
  have c: "unat (checksum tgt (xs @ 0 # 0 # ys)) = 65535 - ones ?T"
    using assms by (simp add: unat_checksum wsum_append)
  have "ones (?T + (65535 - ones ?T)) = 65535"
  proof -
    have "(?T + (65535 - ones ?T)) mod 65535 = (ones ?T + (65535 - ones ?T)) mod 65535"
      using ones_mod [of ?T] by (metis mod_add_left_eq)
    then have "(?T + (65535 - ones ?T)) mod 65535 = 0"
      using ones_le [of ?T] by simp
    moreover have "?T + (65535 - ones ?T) \<noteq> 0"
      using ones_0_iff [of ?T] by (cases "?T = 0") auto
    ultimately show ?thesis
      by (simp add: ones_def)
  qed
  then show ?thesis
    using assms by (simp add: word_unat_eq_iff unat_checksum l wsum_field c ac_simps)
qed

theorem filled_in_checksum_verifies_witness:
  "checksum Aarch64Little ([69, 0] @ to_be16 (checksum Aarch64Little ([69, 0] @ 0 # 0 # [7])) @ [7]) = 0"
  by (rule filled_in_checksum_verifies) simp_all

end
