(* ===== verification/Conntrack.thy ===== *)
theory Conntrack
  imports Packet_Checksum "HOL-Library.AList"
begin

unbundle bit_operations_syntax

section \<open>Connection tracking\<close>

text \<open>
  The connection table of \<open>src/common/arcbox-conntrack/src/conntrack.rs\<close>.  A hash map is an
  association list with distinct keys.  An entry is shared (\<open>Arc\<close>) between the table and the fast
  cache and its counters change through either, so entries live in a heap and an \<open>Arc\<close> is an
  index into it.  Every operation that reads the clock takes the second it reads as an argument.
  Arithmetic wraps, as it does in a release build; an operation that panics there returns
  \<open>None\<close>.
\<close>

subsection \<open>Keys and entries\<close>

datatype ConnState = New | Established | FinWait | Closing | TimedOut

record ConnTrackKey =
  key_src_ip :: ipv4
  key_dst_ip :: ipv4
  key_src_port :: u16
  key_dst_port :: u16
  key_protocol :: u8

definition key_new :: "ipv4 \<Rightarrow> ipv4 \<Rightarrow> u16 \<Rightarrow> u16 \<Rightarrow> u8 \<Rightarrow> ConnTrackKey" where
  "key_new sip dip sp dp p =
     \<lparr>key_src_ip = sip, key_dst_ip = dip, key_src_port = sp, key_dst_port = dp, key_protocol = p\<rparr>"

definition key_reverse :: "ConnTrackKey \<Rightarrow> ConnTrackKey" where
  "key_reverse k =
     \<lparr>key_src_ip = key_dst_ip k, key_dst_ip = key_src_ip k, key_src_port = key_dst_port k,
      key_dst_port = key_src_port k, key_protocol = key_protocol k\<rparr>"

definition fnv :: "u64 \<Rightarrow> u64 \<Rightarrow> u64" where
  "fnv hash v = (hash XOR v) * 0x100000001b3"

definition fast_hash :: "ConnTrackKey \<Rightarrow> u64" where
  "fast_hash k =
     (let hash = 0xcbf29ce484222325;
          hash = foldl (\<lambda>hash byte. fnv hash (ucast byte)) hash (to_be32 (key_src_ip k));
          hash = foldl (\<lambda>hash byte. fnv hash (ucast byte)) hash (to_be32 (key_dst_ip k));
          hash = fnv hash (ucast (key_src_port k));
          hash = fnv hash (ucast (key_dst_port k));
          hash = fnv hash (ucast (key_protocol k))
      in hash)"

type_synonym socket_addr = "ipv4 \<times> u16"

record ConnTrackEntry =
  en_orig_src :: socket_addr
  en_orig_dst :: socket_addr
  en_nat_src :: socket_addr
  en_nat_dst :: socket_addr
  en_state :: ConnState
  en_protocol :: u8
  en_flags :: u8
  en_last_seen :: u32
  en_packets :: u64
  en_bytes :: u64
  en_created_at :: u32

definition FLAG_SNAT :: u8 where
  "FLAG_SNAT = push_bit 0 1"

definition FLAG_DNAT :: u8 where
  "FLAG_DNAT = push_bit 1 1"

definition FLAG_REPLY_SEEN :: u8 where
  "FLAG_REPLY_SEEN = push_bit 2 1"

definition new_snat :: "u32 \<Rightarrow> socket_addr \<Rightarrow> socket_addr \<Rightarrow> socket_addr \<Rightarrow> u8 \<Rightarrow> ConnTrackEntry" where
  "new_snat now orig_src orig_dst nat_src protocol =
     \<lparr>en_orig_src = orig_src, en_orig_dst = orig_dst, en_nat_src = nat_src, en_nat_dst = orig_dst,
      en_state = ConnState.New, en_protocol = protocol, en_flags = FLAG_SNAT, en_last_seen = now,
      en_packets = 0, en_bytes = 0, en_created_at = now\<rparr>"

definition touch_entry :: "u32 \<Rightarrow> ConnTrackEntry \<Rightarrow> ConnTrackEntry" where
  "touch_entry now e = e\<lparr>en_last_seen := now\<rparr>"

definition record_packet :: "u32 \<Rightarrow> u64 \<Rightarrow> ConnTrackEntry \<Rightarrow> ConnTrackEntry" where
  "record_packet now bytes e =
     touch_entry now (e\<lparr>en_packets := en_packets e + 1, en_bytes := en_bytes e + bytes\<rparr>)"

definition is_expired :: "u32 \<Rightarrow> u32 \<Rightarrow> ConnTrackEntry \<Rightarrow> bool" where
  "is_expired now timeout_secs e =
     ((if now < en_last_seen e then 0 else now - en_last_seen e) > timeout_secs)"

definition has_snat :: "ConnTrackEntry \<Rightarrow> bool" where
  "has_snat e = (en_flags e AND FLAG_SNAT \<noteq> 0)"

definition has_dnat :: "ConnTrackEntry \<Rightarrow> bool" where
  "has_dnat e = (en_flags e AND FLAG_DNAT \<noteq> 0)"

definition reply_seen :: "ConnTrackEntry \<Rightarrow> bool" where
  "reply_seen e = (en_flags e AND FLAG_REPLY_SEEN \<noteq> 0)"

definition mark_reply_seen :: "ConnTrackEntry \<Rightarrow> ConnTrackEntry" where
  "mark_reply_seen e =
     e\<lparr>en_flags := en_flags e OR FLAG_REPLY_SEEN, en_state := ConnState.Established\<rparr>"

type_synonym arc = nat

record FastCacheEntry =
  fc_key_hash :: u64
  fc_key :: ConnTrackKey
  fc_entry :: arc
  fc_hits :: u32

definition fast_cache_entry :: "ConnTrackKey \<Rightarrow> arc \<Rightarrow> FastCacheEntry" where
  "fast_cache_entry k e = \<lparr>fc_key_hash = fast_hash k, fc_key = k, fc_entry = e, fc_hits = 0\<rparr>"

subsection \<open>Ports\<close>

record PortAllocator =
  pa_current :: u32
  pa_start :: u16
  pa_end :: u16

definition port_allocator :: "u16 \<Rightarrow> u16 \<Rightarrow> PortAllocator" where
  "port_allocator start end' = \<lparr>pa_current = ucast start, pa_start = start, pa_end = end'\<rparr>"

definition port_range :: "PortAllocator \<Rightarrow> u32" where
  "port_range p = ucast (pa_end p - pa_start p + 1)"

text \<open>The remainder by an empty range panics.\<close>

definition allocate_port :: "PortAllocator \<Rightarrow> (u16 \<times> PortAllocator) option" where
  "allocate_port p =
     (let range = port_range p;
          port = pa_current p
      in if range = 0 then None
         else Some (pa_start p + ucast ((port - ucast (pa_start p)) mod range),
                    p\<lparr>pa_current := port + 1\<rparr>))"

subsection \<open>The table\<close>

record ConnTrackStats =
  st_lookups :: u64
  st_fast_hits :: u64
  st_slow_lookups :: u64
  st_created :: u64
  st_expired :: u64

record ConnTrackTable =
  ct_heap :: "ConnTrackEntry list"
  ct_entries :: "(ConnTrackKey \<times> arc) list"
  ct_reverse :: "(ConnTrackKey \<times> ConnTrackKey) list"
  ct_fast_cache :: "FastCacheEntry option list"
  ct_fast_cache_mask :: u64
  ct_port_alloc :: PortAllocator
  ct_external_ip :: ipv4
  ct_timeout_secs :: u32
  ct_stats :: ConnTrackStats

text \<open>\<open>usize::next_power_of_two\<close>: double from one until the number is reached.\<close>

function power_from :: "nat \<Rightarrow> nat \<Rightarrow> nat" where
  "power_from p n = (if p = 0 \<or> n \<le> p then p else power_from (2 * p) n)"
  by pat_completeness auto
termination by (relation "measure (\<lambda>(p, n). n - p)") auto

declare power_from.simps [simp del]

definition next_power_of_two :: "nat \<Rightarrow> nat" where
  "next_power_of_two n = power_from 1 n"

definition table_new :: "ipv4 \<Rightarrow> u16 \<Rightarrow> u16 \<Rightarrow> nat \<Rightarrow> u32 \<Rightarrow> ConnTrackTable" where
  "table_new external_ip port_start port_end fast_cache_size timeout_secs =
     (let size = next_power_of_two fast_cache_size
      in \<lparr>ct_heap = [], ct_entries = [], ct_reverse = [], ct_fast_cache = replicate size None,
          ct_fast_cache_mask = word_of_nat (size - 1),
          ct_port_alloc = port_allocator port_start port_end, ct_external_ip = external_ip,
          ct_timeout_secs = timeout_secs,
          ct_stats = \<lparr>st_lookups = 0, st_fast_hits = 0, st_slow_lookups = 0, st_created = 0,
                      st_expired = 0\<rparr>\<rparr>)"

definition count_lookup :: "ConnTrackTable \<Rightarrow> ConnTrackTable" where
  "count_lookup t = t\<lparr>ct_stats := (ct_stats t)\<lparr>st_lookups := st_lookups (ct_stats t) + 1\<rparr>\<rparr>"

definition count_fast :: "ConnTrackTable \<Rightarrow> ConnTrackTable" where
  "count_fast t = t\<lparr>ct_stats := (ct_stats t)\<lparr>st_fast_hits := st_fast_hits (ct_stats t) + 1\<rparr>\<rparr>"

definition count_slow :: "ConnTrackTable \<Rightarrow> ConnTrackTable" where
  "count_slow t = t\<lparr>ct_stats := (ct_stats t)\<lparr>st_slow_lookups := st_slow_lookups (ct_stats t) + 1\<rparr>\<rparr>"

definition cache_idx :: "ConnTrackTable \<Rightarrow> ConnTrackKey \<Rightarrow> nat" where
  "cache_idx t k = unat (fast_hash k AND ct_fast_cache_mask t)"

definition cache_put :: "ConnTrackKey \<Rightarrow> arc \<Rightarrow> ConnTrackTable \<Rightarrow> ConnTrackTable" where
  "cache_put k e t =
     t\<lparr>ct_fast_cache := (ct_fast_cache t)[cache_idx t k := Some (fast_cache_entry k e)]\<rparr>"

definition table_lookup :: "ConnTrackKey \<Rightarrow> ConnTrackTable \<Rightarrow> arc option \<times> ConnTrackTable" where
  "table_lookup k t =
     (let t = count_lookup t;
          hash = fast_hash k;
          slow = (let t = count_slow t
                  in case map_of (ct_entries t) k of
                       Some e \<Rightarrow> (Some e, cache_put k e t)
                     | None \<Rightarrow> (None, t))
      in case ct_fast_cache t ! cache_idx t k of
           Some c \<Rightarrow>
             (if fc_key_hash c = hash \<and> fc_key c = k then (Some (fc_entry c), count_fast t) else slow)
         | None \<Rightarrow> slow)"

definition lookup_reverse :: "ConnTrackKey \<Rightarrow> ConnTrackTable \<Rightarrow> arc option \<times> ConnTrackTable" where
  "lookup_reverse nat_key t =
     (case map_of (ct_reverse t) nat_key of
        None \<Rightarrow> (None, t)
      | Some orig_key \<Rightarrow> table_lookup orig_key t)"

definition nat_key_of :: "ConnTrackTable \<Rightarrow> ConnTrackKey \<Rightarrow> u16 \<Rightarrow> ConnTrackKey" where
  "nat_key_of t k nat_port =
     key_new (key_dst_ip k) (ct_external_ip t) (key_dst_port k) nat_port (key_protocol k)"

definition get_or_create ::
  "u32 \<Rightarrow> ConnTrackKey \<Rightarrow> ConnTrackTable \<Rightarrow> (arc \<times> ConnTrackTable) option" where
  "get_or_create now k t =
     (if map_of (ct_entries t) k \<noteq> None then
        (case table_lookup k t of (Some e, t) \<Rightarrow> Some (e, t) | (None, t) \<Rightarrow> None)
      else
        (case allocate_port (ct_port_alloc t) of
           None \<Rightarrow> None
         | Some (nat_port, pa) \<Rightarrow>
             (let t = t\<lparr>ct_port_alloc := pa\<rparr>;
                  nat_src = (ct_external_ip t, nat_port);
                  e = length (ct_heap t);
                  t = t\<lparr>ct_heap := ct_heap t @
                          [new_snat now (key_src_ip k, key_src_port k) (key_dst_ip k, key_dst_port k)
                             nat_src (key_protocol k)]\<rparr>;
                  t = t\<lparr>ct_reverse := AList.update (nat_key_of t k nat_port) k (ct_reverse t)\<rparr>;
                  t = t\<lparr>ct_entries := AList.update k e (ct_entries t)\<rparr>;
                  t = t\<lparr>ct_stats := (ct_stats t)\<lparr>st_created := st_created (ct_stats t) + 1\<rparr>\<rparr>
              in Some (e, cache_put k e t))))"

definition table_remove :: "ConnTrackKey \<Rightarrow> ConnTrackTable \<Rightarrow> ConnTrackTable" where
  "table_remove k t =
     (case map_of (ct_entries t) k of
        None \<Rightarrow> t
      | Some e \<Rightarrow>
          (let t = t\<lparr>ct_entries := AList.delete k (ct_entries t)\<rparr>;
               reverse_key = nat_key_of t k (snd (en_nat_src (ct_heap t ! e)));
               t = t\<lparr>ct_reverse := AList.delete reverse_key (ct_reverse t)\<rparr>
           in case ct_fast_cache t ! cache_idx t k of
                Some c \<Rightarrow>
                  (if fc_key c = k
                   then t\<lparr>ct_fast_cache := (ct_fast_cache t)[cache_idx t k := None]\<rparr> else t)
              | None \<Rightarrow> t))"

definition expire_old :: "u32 \<Rightarrow> ConnTrackTable \<Rightarrow> nat \<times> ConnTrackTable" where
  "expire_old now t =
     (let timeout = ct_timeout_secs t;
          expired_keys = map fst (filter (\<lambda>(k, e). is_expired now timeout (ct_heap t ! e)) (ct_entries t));
          count = length expired_keys;
          t = foldl (\<lambda>t k. table_remove k t) t expired_keys
      in (count, t\<lparr>ct_stats := (ct_stats t)\<lparr>st_expired := st_expired (ct_stats t) + word_of_nat count\<rparr>\<rparr>))"

definition table_len :: "ConnTrackTable \<Rightarrow> nat" where
  "table_len t = length (ct_entries t)"

definition table_is_empty :: "ConnTrackTable \<Rightarrow> bool" where
  "table_is_empty t = (ct_entries t = [])"

definition table_clear :: "ConnTrackTable \<Rightarrow> ConnTrackTable" where
  "table_clear t =
     t\<lparr>ct_entries := [], ct_reverse := [], ct_fast_cache := map (\<lambda>_. None) (ct_fast_cache t)\<rparr>"

text \<open>The counters of a shared entry, reached through any \<open>Arc\<close> of it.\<close>

definition record_shared :: "u32 \<Rightarrow> u64 \<Rightarrow> arc \<Rightarrow> ConnTrackTable \<Rightarrow> ConnTrackTable" where
  "record_shared now bytes e t = t\<lparr>ct_heap := (ct_heap t)[e := record_packet now bytes (ct_heap t ! e)]\<rparr>"

subsection \<open>Sequences of operations\<close>

datatype TableOp =
    Lookup ConnTrackKey
  | LookupReverse ConnTrackKey
  | GetOrCreate u32 ConnTrackKey
  | Remove ConnTrackKey
  | ExpireOld u32
  | Clear
  | RecordPacket u32 u64 arc

fun table_op :: "TableOp \<Rightarrow> ConnTrackTable \<Rightarrow> ConnTrackTable option" where
  "table_op (TableOp.Lookup k) t = Some (snd (table_lookup k t))"
| "table_op (TableOp.LookupReverse k) t = Some (snd (lookup_reverse k t))"
| "table_op (TableOp.GetOrCreate now k) t = map_option snd (get_or_create now k t)"
| "table_op (TableOp.Remove k) t = Some (table_remove k t)"
| "table_op (TableOp.ExpireOld now) t = Some (snd (expire_old now t))"
| "table_op TableOp.Clear t = Some (table_clear t)"
| "table_op (TableOp.RecordPacket now bytes e) t = Some (record_shared now bytes e t)"

definition table_start :: "ConnTrackTable \<Rightarrow> bool" where
  "table_start t =
     (\<exists>ip lo hi size timeout. size \<le> 2 ^ 63 \<and> t = table_new ip lo hi size timeout)"

definition table_move :: "ConnTrackTable \<Rightarrow> TableOp \<Rightarrow> ConnTrackTable \<Rightarrow> bool" where
  "table_move t op t' = (table_op op t = Some t')"

subsection \<open>The cache answers what the table holds\<close>

text \<open>Every cached entry sits in the slot of its key and is the one the table has for it.\<close>

definition slot_ok :: "ConnTrackTable \<Rightarrow> nat \<Rightarrow> FastCacheEntry \<Rightarrow> bool" where
  "slot_ok t i c =
     (i = cache_idx t (fc_key c) \<and> fc_key_hash c = fast_hash (fc_key c)
      \<and> map_of (ct_entries t) (fc_key c) = Some (fc_entry c))"

definition cache_ok :: "ConnTrackTable \<Rightarrow> bool" where
  "cache_ok t =
     (unat (ct_fast_cache_mask t) < length (ct_fast_cache t)
      \<and> (\<forall>i c. i < length (ct_fast_cache t) \<longrightarrow> ct_fast_cache t ! i = Some c \<longrightarrow> slot_ok t i c))"

lemma cache_idx_less: "cache_ok t \<Longrightarrow> cache_idx t k < length (ct_fast_cache t)"
proof -
  assume "cache_ok t"
  moreover have "fast_hash k AND ct_fast_cache_mask t \<le> ct_fast_cache_mask t"
    by (rule word_and_le1)
  ultimately show ?thesis
    by (simp add: cache_idx_def cache_ok_def word_le_nat_alt)
qed

lemma cache_okD:
  "cache_ok t \<Longrightarrow> ct_fast_cache t ! cache_idx t k = Some c \<Longrightarrow>
     fc_key_hash c = fast_hash (fc_key c) \<and> map_of (ct_entries t) (fc_key c) = Some (fc_entry c)"
  using cache_idx_less [of t k] by (auto simp: cache_ok_def slot_ok_def)

named_theorems table_frame \<open>what the table operations leave alone\<close>

lemma count_frame [table_frame, simp]:
  "ct_entries (count_lookup t) = ct_entries t" "ct_entries (count_fast t) = ct_entries t"
  "ct_entries (count_slow t) = ct_entries t" "ct_reverse (count_lookup t) = ct_reverse t"
  "ct_reverse (count_fast t) = ct_reverse t" "ct_reverse (count_slow t) = ct_reverse t"
  "ct_heap (count_lookup t) = ct_heap t" "ct_heap (count_fast t) = ct_heap t"
  "ct_heap (count_slow t) = ct_heap t" "ct_port_alloc (count_lookup t) = ct_port_alloc t"
  "ct_port_alloc (count_fast t) = ct_port_alloc t" "ct_port_alloc (count_slow t) = ct_port_alloc t"
  "ct_external_ip (count_lookup t) = ct_external_ip t" "ct_external_ip (count_fast t) = ct_external_ip t"
  "ct_external_ip (count_slow t) = ct_external_ip t"
  "ct_fast_cache (count_lookup t) = ct_fast_cache t" "ct_fast_cache (count_fast t) = ct_fast_cache t"
  "ct_fast_cache (count_slow t) = ct_fast_cache t"
  "ct_fast_cache_mask (count_lookup t) = ct_fast_cache_mask t"
  "ct_fast_cache_mask (count_fast t) = ct_fast_cache_mask t"
  "ct_fast_cache_mask (count_slow t) = ct_fast_cache_mask t"
  by (simp_all add: count_lookup_def count_fast_def count_slow_def)

lemma cache_put_frame [table_frame, simp]:
  "ct_entries (cache_put k e t) = ct_entries t" "ct_reverse (cache_put k e t) = ct_reverse t"
  "ct_heap (cache_put k e t) = ct_heap t" "ct_port_alloc (cache_put k e t) = ct_port_alloc t"
  "ct_external_ip (cache_put k e t) = ct_external_ip t"
  "ct_fast_cache_mask (cache_put k e t) = ct_fast_cache_mask t"
  by (simp_all add: cache_put_def)

lemma cache_ok_cong:
  "ct_entries t' = ct_entries t \<Longrightarrow> ct_fast_cache t' = ct_fast_cache t \<Longrightarrow>
     ct_fast_cache_mask t' = ct_fast_cache_mask t \<Longrightarrow> cache_ok t' = cache_ok t"
  by (simp add: cache_ok_def slot_ok_def cache_idx_def)

lemma cache_put_nth:
  "i < length (ct_fast_cache t) \<Longrightarrow>
     ct_fast_cache (cache_put k e t) ! i
       = (if i = cache_idx t k then Some (fast_cache_entry k e) else ct_fast_cache t ! i)"
  by (simp add: cache_put_def nth_list_update)

lemma cache_put_idx [simp]: "cache_idx (cache_put k e t) k' = cache_idx t k'"
  by (simp add: cache_idx_def)

lemma cache_put_ok:
  assumes "cache_ok t" "map_of (ct_entries t) k = Some e"
  shows "cache_ok (cache_put k e t)"
proof -
  have l: "length (ct_fast_cache (cache_put k e t)) = length (ct_fast_cache t)"
    by (simp add: cache_put_def)
  show ?thesis
    using assms
    by (auto simp: cache_ok_def slot_ok_def l cache_put_nth fast_cache_entry_def split: if_splits)
qed

lemma lookup_result:
  assumes "cache_ok t"
  shows "fst (table_lookup k t) = map_of (ct_entries t) k"
  using cache_okD [OF assms, of k]
  by (auto simp: table_lookup_def Let_def cache_idx_def split: option.splits)

lemma lookup_frame [table_frame]:
  "ct_entries (snd (table_lookup k t)) = ct_entries t"
  "ct_reverse (snd (table_lookup k t)) = ct_reverse t"
  "ct_heap (snd (table_lookup k t)) = ct_heap t"
  "ct_port_alloc (snd (table_lookup k t)) = ct_port_alloc t"
  "ct_external_ip (snd (table_lookup k t)) = ct_external_ip t"
  by (simp_all add: table_lookup_def Let_def split: option.splits)

lemma lookup_cache_ok:
  assumes "cache_ok t"
  shows "cache_ok (snd (table_lookup k t))"
proof -
  have 1: "cache_ok (count_lookup t)" "cache_ok (count_slow (count_lookup t))"
    "cache_ok (count_fast (count_lookup t))"
    by (auto intro: cache_ok_cong [THEN iffD2, OF _ _ _ assms])
  then show ?thesis
    by (auto simp: table_lookup_def Let_def cache_put_ok split: option.splits)
qed

lemma lookup_reverse_cache_ok: "cache_ok t \<Longrightarrow> cache_ok (snd (lookup_reverse k t))"
  by (auto simp: lookup_reverse_def lookup_cache_ok split: option.splits)

text \<open>A new key is in no slot, so adding it to the table keeps the cached ones right.\<close>

lemma cache_ok_new:
  assumes "cache_ok t" "map_of (ct_entries t) k = None"
    and "ct_entries t' = AList.update k e (ct_entries t)" "ct_fast_cache t' = ct_fast_cache t"
    and "ct_fast_cache_mask t' = ct_fast_cache_mask t"
  shows "cache_ok t'"
  using assms by (auto simp: cache_ok_def slot_ok_def cache_idx_def update_conv')

lemma get_or_create_cache_ok:
  assumes "cache_ok t" "get_or_create now k t = Some (e, t')"
  shows "cache_ok t'"
proof (cases "map_of (ct_entries t) k")
  case None
  then show ?thesis
    using assms(2)
    by (auto simp: get_or_create_def Let_def update_conv' split: option.splits
        intro!: cache_put_ok cache_ok_new [OF assms(1) None])
next
  case (Some e)
  then show ?thesis
    using assms lookup_cache_ok [OF assms(1), of k]
    by (auto simp: get_or_create_def split: prod.splits option.splits)
qed

lemma remove_cache:
  assumes "map_of (ct_entries t) k = Some e" "cache_ok t"
  shows "ct_fast_cache (table_remove k t)
    = (if map_option fc_key (ct_fast_cache t ! cache_idx t k) = Some k
       then (ct_fast_cache t)[cache_idx t k := None] else ct_fast_cache t)"
  using assms(1)
  by (cases "ct_fast_cache t ! cache_idx t k") (simp_all add: table_remove_def Let_def cache_idx_def)

lemma remove_entries:
  "map_of (ct_entries (table_remove k t)) = (map_of (ct_entries t))(k := None)"
  "ct_fast_cache_mask (table_remove k t) = ct_fast_cache_mask t"
  "ct_external_ip (table_remove k t) = ct_external_ip t"
  "ct_port_alloc (table_remove k t) = ct_port_alloc t"
  "ct_heap (table_remove k t) = ct_heap t"
  by (auto simp: table_remove_def Let_def delete_conv' split: option.splits)

lemma remove_cache_ok:
  assumes ok: "cache_ok t"
  shows "cache_ok (table_remove k t)"
proof (cases "map_of (ct_entries t) k")
  case (Some e)
  have "slot_ok (table_remove k t) i c"
    if i: "i < length (ct_fast_cache t)" "ct_fast_cache (table_remove k t) ! i = Some c" for i c
  proof -
    have c: "ct_fast_cache t ! i = Some c" "i = cache_idx t k \<longrightarrow> fc_key c \<noteq> k"
      using i by (auto simp: remove_cache [OF Some ok] nth_list_update cache_idx_less [OF ok] split: if_splits)
    then have s: "slot_ok t i c"
      using ok i(1) by (auto simp: cache_ok_def)
    then have "fc_key c \<noteq> k"
      using c(2) by (auto simp: slot_ok_def)
    then show ?thesis
      using s by (simp add: slot_ok_def remove_entries cache_idx_def)
  qed
  moreover have "length (ct_fast_cache (table_remove k t)) = length (ct_fast_cache t)"
    by (simp add: remove_cache [OF Some ok])
  ultimately show ?thesis
    using ok by (simp add: cache_ok_def remove_entries)
qed (simp add: table_remove_def ok)

lemma expire_cache_ok:
  assumes "cache_ok t"
  shows "cache_ok (snd (expire_old now t))"
proof -
  have "cache_ok (foldl (\<lambda>t k. table_remove k t) t ks)" for ks
    using assms by (induction ks arbitrary: t) (simp_all add: remove_cache_ok)
  then show ?thesis
    by (simp add: expire_old_def Let_def cache_ok_def slot_ok_def cache_idx_def)
qed

lemma power_from_ge: "0 < p \<Longrightarrow> 0 < power_from p n"
  by (induction p n rule: power_from.induct) (subst power_from.simps, simp)

lemma power_from_le: "p = 2 ^ i \<Longrightarrow> i \<le> m \<Longrightarrow> n \<le> 2 ^ m \<Longrightarrow> power_from p n \<le> 2 ^ m"
proof (induction p n arbitrary: i rule: power_from.induct)
  case (1 p n)
  show ?case
  proof (cases "p = 0 \<or> n \<le> p")
    case False
    then have "i < m"
      using 1 by (metis le_antisym le_trans linorder_not_le nat_less_le)
    then show ?thesis
      using 1(1) [OF False, of "Suc i"] 1(2, 4) False by (simp add: power_from.simps [of "2 ^ i" n])
  qed (use 1 in \<open>simp add: power_from.simps [of "2 ^ i" n]\<close>)
qed

lemma start_cache_ok: "table_start t \<Longrightarrow> cache_ok t"
proof -
  assume "table_start t"
  then obtain ip lo hi size timeout where t: "t = table_new ip lo hi size timeout" "size \<le> 2 ^ 63"
    by (auto simp: table_start_def)
  let ?n = "next_power_of_two size"
  have n: "0 < ?n" "?n \<le> 2 ^ 63"
    using power_from_ge [of 1 size] power_from_le [of 1 0 63 size] t(2)
    by (simp_all add: next_power_of_two_def)
  then have "unat (word_of_nat (?n - 1) :: u64) < ?n"
    unfolding unat_of_nat by (simp add: le_less_trans)
  then have "unat (ct_fast_cache_mask t) < length (ct_fast_cache t)"
    by (simp only: t(1) table_new_def Let_def ConnTrackTable.select_convs length_replicate)
  moreover have "ct_fast_cache t ! i \<noteq> Some c" if "i < length (ct_fast_cache t)" for i c
    using that by (simp add: t(1) table_new_def Let_def)
  ultimately show ?thesis
    by (auto simp: cache_ok_def)
qed

interpretation cache_inv: invariant_of table_start table_move cache_ok
proof
  show "table_start s \<Longrightarrow> cache_ok s" for s
    by (rule start_cache_ok)
  show "cache_ok t" if s: "cache_ok s" and m: "table_move s op t" for s op t
  proof (cases op)
    case Clear
    then show ?thesis
      using s m by (auto simp: table_move_def table_clear_def cache_ok_def slot_ok_def)
  next
    case (RecordPacket now bytes e)
    then show ?thesis
      using s m by (auto simp: table_move_def record_shared_def
          intro: cache_ok_cong [THEN iffD2, OF _ _ _ s])
  qed (use s m in \<open>auto simp: table_move_def lookup_cache_ok lookup_reverse_cache_ok
      remove_cache_ok expire_cache_ok intro: get_or_create_cache_ok\<close>)
qed

subsection \<open>Entries describe their connection\<close>

definition entry_fits :: "ConnTrackTable \<Rightarrow> ConnTrackKey \<Rightarrow> ConnTrackEntry \<Rightarrow> bool" where
  "entry_fits t k e =
     (en_orig_src e = (key_src_ip k, key_src_port k) \<and> en_orig_dst e = (key_dst_ip k, key_dst_port k)
      \<and> fst (en_nat_src e) = ct_external_ip t \<and> en_protocol e = key_protocol k)"

definition entries_ok :: "ConnTrackTable \<Rightarrow> bool" where
  "entries_ok t =
     (\<forall>k e. map_of (ct_entries t) k = Some e \<longrightarrow> e < length (ct_heap t) \<and> entry_fits t k (ct_heap t ! e))"

text \<open>The port a tracked connection goes out on.\<close>

definition nat_port :: "ConnTrackTable \<Rightarrow> ConnTrackKey \<Rightarrow> u16 option" where
  "nat_port t k = map_option (\<lambda>e. snd (en_nat_src (ct_heap t ! e))) (map_of (ct_entries t) k)"

text \<open>How many ports were handed out, and how many there are.\<close>

definition allocated :: "ConnTrackTable \<Rightarrow> nat" where
  "allocated t = unat (pa_current (ct_port_alloc t) - ucast (pa_start (ct_port_alloc t)))"

definition capacity :: "ConnTrackTable \<Rightarrow> nat" where
  "capacity t = unat (pa_end (ct_port_alloc t)) - unat (pa_start (ct_port_alloc t)) + 1"

definition range_ok :: "ConnTrackTable \<Rightarrow> bool" where
  "range_ok t =
     (pa_start (ct_port_alloc t) \<le> pa_end (ct_port_alloc t)
      \<and> unat (pa_end (ct_port_alloc t)) - unat (pa_start (ct_port_alloc t)) < 65535)"

definition routes_ok :: "ConnTrackTable \<Rightarrow> bool" where
  "routes_ok t =
     (range_ok t \<and> allocated t \<le> capacity t
      \<and> (\<forall>k p. nat_port t k = Some p \<longrightarrow>
           unat (pa_start (ct_port_alloc t)) \<le> unat p
           \<and> unat p < unat (pa_start (ct_port_alloc t)) + allocated t)
      \<and> (\<forall>k k' p. nat_port t k = Some p \<longrightarrow> nat_port t k' = Some p \<longrightarrow> k = k')
      \<and> (\<forall>nk k. map_of (ct_reverse t) nk = Some k \<longleftrightarrow>
           (\<exists>p. nat_port t k = Some p \<and> nk = nat_key_of t k p)))"

lemma routes_bound:
  "routes_ok t \<Longrightarrow> nat_port t k = Some p \<Longrightarrow>
     unat (pa_start (ct_port_alloc t)) \<le> unat p
     \<and> unat p < unat (pa_start (ct_port_alloc t)) + allocated t"
  by (simp add: routes_ok_def)

lemma routes_inj: "routes_ok t \<Longrightarrow> nat_port t k = Some p \<Longrightarrow> nat_port t k' = Some p \<Longrightarrow> k = k'"
  unfolding routes_ok_def by blast

lemma routes_rev:
  "routes_ok t \<Longrightarrow> map_of (ct_reverse t) nk = Some k \<longleftrightarrow>
     (\<exists>p. nat_port t k = Some p \<and> nk = nat_key_of t k p)"
  by (simp add: routes_ok_def)

lemma routes_range: "routes_ok t \<Longrightarrow> range_ok t \<and> allocated t \<le> capacity t"
  by (simp add: routes_ok_def)

lemma unat_port_range:
  assumes "range_ok t"
  shows "unat (port_range (ct_port_alloc t)) = capacity t" "capacity t \<le> 65535"
proof -
  let ?s = "pa_start (ct_port_alloc t)" and ?e = "pa_end (ct_port_alloc t)"
  have "unat (?e - ?s) = unat ?e - unat ?s"
    using assms by (simp add: range_ok_def unat_sub)
  moreover have "unat ?e - unat ?s < 65535"
    using assms by (simp add: range_ok_def)
  ultimately show "unat (port_range (ct_port_alloc t)) = capacity t" "capacity t \<le> 65535"
    by (simp_all add: port_range_def capacity_def unat_word_ariths)
qed

lemma allocate_port_ok:
  assumes "range_ok t" "allocated t < capacity t"
  obtains p pa where "allocate_port (ct_port_alloc t) = Some (p, pa)"
    "unat p = unat (pa_start (ct_port_alloc t)) + allocated t"
    "pa_start pa = pa_start (ct_port_alloc t)" "pa_end pa = pa_end (ct_port_alloc t)"
    "unat (pa_current pa - ucast (pa_start pa)) = allocated t + 1"
proof -
  let ?P = "ct_port_alloc t"
  let ?d = "pa_current ?P - ucast (pa_start ?P) :: u32"
  note R = unat_port_range [OF assms(1)]
  have "port_range ?P \<noteq> 0"
    using R assms(2) by (metis less_nat_zero_code unsigned_0)
  have "unat (?d mod port_range ?P) = allocated t"
    using R(1) assms(2) by (simp add: unat_mod_distrib allocated_def)
  moreover have "unat (pa_start ?P) + allocated t < 65536"
    using assms unat_u16 [of "pa_end ?P"]
    unfolding capacity_def range_ok_def word_le_nat_alt by linarith
  ultimately have "unat (pa_start ?P + ucast (?d mod port_range ?P)) = unat (pa_start ?P) + allocated t"
    by (simp add: unat_word_ariths ucast_u16_unat)
  moreover have "unat (pa_current ?P + 1 - ucast (pa_start ?P)) = allocated t + 1"
  proof -
    have "pa_current ?P + 1 - ucast (pa_start ?P) = ?d + 1"
      by simp
    moreover have "unat (?d + 1) = unat ?d + 1"
      using R(2) assms(2) by (simp add: unat_word_ariths allocated_def)
    ultimately show ?thesis
      by (simp only: allocated_def)
  qed
  ultimately show thesis
    using \<open>port_range ?P \<noteq> 0\<close>
    by (intro that [of "pa_start ?P + ucast (?d mod port_range ?P)" "?P\<lparr>pa_current := pa_current ?P + 1\<rparr>"])
      (simp_all add: allocate_port_def Let_def)
qed

text \<open>What creating a connection does to the parts the routes depend on.\<close>

lemma get_or_create_new:
  assumes "map_of (ct_entries t) k = None" "allocate_port (ct_port_alloc t) = Some (p, pa)"
  obtains t' where "get_or_create now k t = Some (length (ct_heap t), t')"
    "map_of (ct_entries t') = (map_of (ct_entries t))(k \<mapsto> length (ct_heap t))"
    "ct_heap t' = ct_heap t @ [new_snat now (key_src_ip k, key_src_port k)
        (key_dst_ip k, key_dst_port k) (ct_external_ip t, p) (key_protocol k)]"
    "map_of (ct_reverse t') = (map_of (ct_reverse t))(nat_key_of t k p \<mapsto> k)"
    "ct_port_alloc t' = pa" "ct_external_ip t' = ct_external_ip t"
  using assms by (auto simp: get_or_create_def Let_def update_conv' nat_key_of_def)

lemma get_or_create_old:
  assumes "cache_ok t" "map_of (ct_entries t) k = Some e"
  shows "get_or_create now k t = Some (e, snd (table_lookup k t))"
  using lookup_result [OF assms(1), of k] assms(2)
  by (cases "table_lookup k t") (simp add: get_or_create_def)

lemma entries_ok_cong:
  "ct_entries t' = ct_entries t \<Longrightarrow> ct_heap t' = ct_heap t \<Longrightarrow> ct_external_ip t' = ct_external_ip t \<Longrightarrow>
     entries_ok t' = entries_ok t"
  by (simp add: entries_ok_def entry_fits_def)

lemma routes_ok_cong:
  assumes "nat_port t' = nat_port t" "ct_reverse t' = ct_reverse t"
    and "ct_port_alloc t' = ct_port_alloc t" "ct_external_ip t' = ct_external_ip t"
  shows "routes_ok t' = routes_ok t"
  using assms by (simp add: routes_ok_def allocated_def capacity_def range_ok_def nat_key_of_def)

lemma nat_port_new:
  assumes "entries_ok t" "map_of (ct_entries t') = (map_of (ct_entries t))(k \<mapsto> length (ct_heap t))"
    and "ct_heap t' = ct_heap t @ [x]"
  shows "nat_port t' = (nat_port t)(k \<mapsto> snd (en_nat_src x))"
proof
  fix k'
  show "nat_port t' k' = ((nat_port t)(k \<mapsto> snd (en_nat_src x))) k'"
    using assms by (cases "map_of (ct_entries t) k'") (auto simp: nat_port_def entries_ok_def nth_append)
qed

lemma get_or_create_entries_ok:
  assumes "entries_ok t" "map_of (ct_entries t) k = None" "get_or_create now k t = Some (e, t')"
  shows "entries_ok t'"
proof -
  obtain p pa where p: "allocate_port (ct_port_alloc t) = Some (p, pa)"
    using assms(2, 3) by (auto simp: get_or_create_def split: option.splits)
  obtain t'' where n: "get_or_create now k t = Some (length (ct_heap t), t'')"
    "map_of (ct_entries t'') = (map_of (ct_entries t))(k \<mapsto> length (ct_heap t))"
    "ct_heap t'' = ct_heap t @ [new_snat now (key_src_ip k, key_src_port k)
        (key_dst_ip k, key_dst_port k) (ct_external_ip t, p) (key_protocol k)]"
    "ct_external_ip t'' = ct_external_ip t"
    using get_or_create_new [OF assms(2) p] by blast
  have "t'' = t'"
    using n(1) assms(3) by simp
  have "e' < length (ct_heap t') \<and> entry_fits t' k' (ct_heap t' ! e')"
    if "map_of (ct_entries t') k' = Some e'" for k' e'
  proof (cases "k' = k")
    case True
    then show ?thesis
      using that n(2-4) \<open>t'' = t'\<close> by (auto simp: entry_fits_def new_snat_def nth_append)
  next
    case False
    then have "e' < length (ct_heap t) \<and> entry_fits t k' (ct_heap t ! e')"
      using that n(2) \<open>t'' = t'\<close> assms(1) by (simp add: entries_ok_def)
    then show ?thesis
      using n(3, 4) \<open>t'' = t'\<close> by (simp add: entry_fits_def nth_append)
  qed
  then show ?thesis
    by (simp add: entries_ok_def)
qed

lemma get_or_create_routes_ok:
  assumes ok: "entries_ok t" "routes_ok t" and k: "map_of (ct_entries t) k = None"
    and c: "get_or_create now k t = Some (e, t')" and room: "allocated t < capacity t"
  shows "routes_ok t' \<and> allocated t' = allocated t + 1 \<and> capacity t' = capacity t"
proof -
  have r: "range_ok t"
    using ok(2) by (simp add: routes_ok_def)
  obtain p pa where p: "allocate_port (ct_port_alloc t) = Some (p, pa)"
    "unat p = unat (pa_start (ct_port_alloc t)) + allocated t"
    "pa_start pa = pa_start (ct_port_alloc t)" "pa_end pa = pa_end (ct_port_alloc t)"
    "unat (pa_current pa - ucast (pa_start pa)) = allocated t + 1"
    using allocate_port_ok [OF r room] by blast
  obtain t'' where n: "get_or_create now k t = Some (length (ct_heap t), t'')"
    "map_of (ct_entries t'') = (map_of (ct_entries t))(k \<mapsto> length (ct_heap t))"
    "ct_heap t'' = ct_heap t @ [new_snat now (key_src_ip k, key_src_port k)
        (key_dst_ip k, key_dst_port k) (ct_external_ip t, p) (key_protocol k)]"
    "map_of (ct_reverse t'') = (map_of (ct_reverse t))(nat_key_of t k p \<mapsto> k)"
    "ct_port_alloc t'' = pa" "ct_external_ip t'' = ct_external_ip t"
    using get_or_create_new [OF k p(1)] by blast
  have t: "t'' = t'"
    using n(1) c by simp
  have np: "nat_port t' = (nat_port t)(k \<mapsto> p)"
    using nat_port_new [OF ok(1) n(2, 3)] by (simp add: new_snat_def t)
  have fresh: "nat_port t k' \<noteq> Some p" for k'
    using routes_bound [OF ok(2)] p(2) by fastforce
  have al: "allocated t' = allocated t + 1" "capacity t' = capacity t" "range_ok t'"
    "pa_start (ct_port_alloc t') = pa_start (ct_port_alloc t)"
    using n(5) p(3-5) r by (simp_all add: allocated_def capacity_def range_ok_def t)
  have nk: "nat_key_of t' k' p' = nat_key_of t k' p'" for k' p'
    using n(6) by (simp add: nat_key_of_def t)
  have none: "nat_port t k = None"
    using k by (simp add: nat_port_def)
  have same: "nat_key_of t k' p' = nat_key_of t k p \<Longrightarrow> p' = p" for k' p'
    by (simp add: nat_key_of_def key_new_def)
  have rev: "map_of (ct_reverse t') nk' = Some k' \<longleftrightarrow>
      (\<exists>q. nat_port t' k' = Some q \<and> nk' = nat_key_of t' k' q)" for nk' k'
  proof (cases "nk' = nat_key_of t k p")
    case True
    then show ?thesis
      using n(4) fresh [of k'] same [of k'] by (auto simp: t np nk)
  next
    case False
    then have "map_of (ct_reverse t') nk' = Some k' \<longleftrightarrow>
        (\<exists>q. nat_port t k' = Some q \<and> nk' = nat_key_of t k' q)"
      using n(4) routes_rev [OF ok(2)] by (simp add: t)
    then show ?thesis
      using False none by (auto simp: np nk)
  qed
  have b: "\<forall>k' q. nat_port t' k' = Some q \<longrightarrow>
      unat (pa_start (ct_port_alloc t')) \<le> unat q
      \<and> unat q < unat (pa_start (ct_port_alloc t')) + allocated t'"
  proof (intro allI impI)
    fix k' q
    assume "nat_port t' k' = Some q"
    then show "unat (pa_start (ct_port_alloc t')) \<le> unat q
        \<and> unat q < unat (pa_start (ct_port_alloc t')) + allocated t'"
      using routes_bound [OF ok(2), of k' q] p(2) al(1, 4) by (simp add: np split: if_splits)
  qed
  have i: "\<forall>k1 k2 q. nat_port t' k1 = Some q \<longrightarrow> nat_port t' k2 = Some q \<longrightarrow> k1 = k2"
    using routes_inj [OF ok(2)] fresh by (auto simp: np)
  show ?thesis
    using al room b i rev by (simp add: routes_ok_def [of t'])
qed

lemma remove_reverse:
  "ct_reverse (table_remove k t) =
     (case nat_port t k of None \<Rightarrow> ct_reverse t
      | Some p \<Rightarrow> AList.delete (nat_key_of t k p) (ct_reverse t))"
  by (auto simp: table_remove_def nat_port_def Let_def nat_key_of_def split: option.splits)

lemma remove_nat_port: "nat_port (table_remove k t) = (nat_port t)(k := None)"
  by (auto simp: nat_port_def remove_entries)

lemma remove_routes_ok:
  assumes "routes_ok t"
  shows "routes_ok (table_remove k t)"
proof -
  let ?t = "table_remove k t"
  have nk: "nat_key_of ?t k' p = nat_key_of t k' p" for k' p
    by (simp add: nat_key_of_def remove_entries)
  have r: "map_of (ct_reverse t) nk' = Some k' \<longleftrightarrow>
      (\<exists>q. nat_port t k' = Some q \<and> nk' = nat_key_of t k' q)" for nk' k'
    by (rule routes_rev [OF assms])
  have inj: "nat_port t k1 = Some q \<Longrightarrow> nat_port t k2 = Some q \<Longrightarrow> k1 = k2" for k1 k2 q
    by (rule routes_inj [OF assms])
  have same: "nat_key_of t k' p' = nat_key_of t k p \<Longrightarrow> p' = p" for k' p' p
    by (simp add: nat_key_of_def key_new_def)
  have "map_of (ct_reverse ?t) nk' = Some k' \<longleftrightarrow>
      (\<exists>q. nat_port ?t k' = Some q \<and> nk' = nat_key_of ?t k' q)" for nk' k'
  proof (cases "nat_port t k")
    case None
    then show ?thesis
      using r [of nk' k'] by (auto simp: remove_reverse remove_nat_port nk)
  next
    case (Some p)
    have d: "map_of (ct_reverse ?t) nk' = (if nk' = nat_key_of t k p then None else map_of (ct_reverse t) nk')"
      by (simp only: remove_reverse Some option.case delete_conv' fun_upd_apply)
    show ?thesis
    proof (cases "nk' = nat_key_of t k p")
      case True
      have "\<not> (nat_port ?t k' = Some q \<and> nk' = nat_key_of t k' q)" for q
      proof
        assume a: "nat_port ?t k' = Some q \<and> nk' = nat_key_of t k' q"
        then have "q = p"
          using True by (intro same [of k']) simp
        then show False
          using a inj [OF Some, of k'] by (simp add: remove_nat_port split: if_splits)
      qed
      then show ?thesis
        using True d by (simp add: nk)
    next
      case False
      then show ?thesis
        using r [of nk' k'] d Some by (cases "k' = k") (auto simp: remove_nat_port nk)
    qed
  qed
  moreover have "range_ok ?t \<and> allocated ?t \<le> capacity ?t"
    using routes_range [OF assms] by (simp add: remove_entries allocated_def capacity_def range_ok_def)
  moreover have "unat (pa_start (ct_port_alloc ?t)) \<le> unat q
      \<and> unat q < unat (pa_start (ct_port_alloc ?t)) + allocated ?t" if "nat_port ?t k' = Some q" for k' q
    using routes_bound [OF assms, of k' q] that
    by (simp add: remove_nat_port remove_entries allocated_def split: if_splits)
  moreover have "k1 = k2" if "nat_port ?t k1 = Some q" "nat_port ?t k2 = Some q" for k1 k2 q
    using inj that by (simp add: remove_nat_port split: if_splits)
  ultimately show ?thesis
    unfolding routes_ok_def [of ?t] by blast
qed

lemma remove_entries_ok: "entries_ok t \<Longrightarrow> entries_ok (table_remove k t)"
  by (auto simp: entries_ok_def entry_fits_def remove_entries split: if_splits)

lemma remove_all_ok:
  assumes "entries_ok t" "routes_ok t"
  shows "entries_ok (foldl (\<lambda>t k. table_remove k t) t ks) \<and> routes_ok (foldl (\<lambda>t k. table_remove k t) t ks)"
  using assms by (induction ks arbitrary: t) (simp_all add: remove_entries_ok remove_routes_ok)

subsection \<open>Tables within their port range\<close>

text \<open>
  A table whose port range is neither empty nor the full sixteen bits, over operations that stay
  within the range: no more connections were created than there are ports.
\<close>

definition routed_start :: "ConnTrackTable \<Rightarrow> bool" where
  "routed_start t = (table_start t \<and> range_ok t)"

definition routed_move :: "ConnTrackTable \<Rightarrow> TableOp \<Rightarrow> ConnTrackTable \<Rightarrow> bool" where
  "routed_move t op t' = (table_move t op t' \<and> allocated t' \<le> capacity t')"

definition tracked_ok :: "ConnTrackTable \<Rightarrow> bool" where
  "tracked_ok t = (cache_ok t \<and> entries_ok t \<and> routes_ok t)"

lemma tracked_okD: "tracked_ok t \<Longrightarrow> cache_ok t" "tracked_ok t \<Longrightarrow> entries_ok t" "tracked_ok t \<Longrightarrow> routes_ok t"
  by (simp_all add: tracked_ok_def)

lemma allocated_new:
  assumes "map_of (ct_entries t) k = None" "get_or_create now k t = Some (e, t')" "allocated t \<le> 65535"
  shows "allocated t' = allocated t + 1" "capacity t' = capacity t"
proof -
  let ?P = "ct_port_alloc t"
  let ?d = "pa_current ?P - ucast (pa_start ?P) :: u32"
  have P: "ct_port_alloc t' = ?P\<lparr>pa_current := pa_current ?P + 1\<rparr>"
    using assms(1, 2)
    by (auto simp: get_or_create_def allocate_port_def Let_def split: option.splits if_splits)
  have "unat (?d + 1) = unat ?d + 1"
    using assms(3) by (simp add: unat_word_ariths allocated_def)
  moreover have "pa_current ?P + 1 - ucast (pa_start ?P) = ?d + 1"
    by simp
  ultimately have "unat (pa_current ?P + 1 - ucast (pa_start ?P)) = unat ?d + 1"
    by (simp only:)
  then show "allocated t' = allocated t + 1" "capacity t' = capacity t"
    by (simp_all add: allocated_def capacity_def P)
qed

lemma lookup_ok:
  assumes "entries_ok t" "routes_ok t"
  shows "entries_ok (snd (table_lookup k t))" "routes_ok (snd (table_lookup k t))"
proof -
  have "nat_port (snd (table_lookup k t)) = nat_port t"
    by (rule ext) (simp add: nat_port_def lookup_frame)
  then show "entries_ok (snd (table_lookup k t))" "routes_ok (snd (table_lookup k t))"
    using assms by (simp_all add: entries_ok_cong [of "snd (table_lookup k t)" t]
        routes_ok_cong [of "snd (table_lookup k t)" t] lookup_frame)
qed

lemma get_or_create_ok:
  assumes t: "tracked_ok t" and c: "get_or_create now k t = Some (e, t')" "allocated t' \<le> capacity t'"
  shows "tracked_ok t'"
proof (cases "map_of (ct_entries t) k")
  case None
  have r: "range_ok t" "allocated t \<le> capacity t"
    using routes_range [OF tracked_okD(3) [OF t]] by auto
  have "allocated t \<le> 65535"
    using r unat_port_range(2) [OF r(1)] by simp
  from allocated_new [OF None c(1) this] have "allocated t < capacity t"
    using c(2) by simp
  then show ?thesis
    using tracked_okD [OF t] get_or_create_cache_ok [OF _ c(1)] get_or_create_entries_ok [OF _ None c(1)]
      get_or_create_routes_ok [OF _ _ None c(1)] by (simp add: tracked_ok_def)
next
  case (Some x)
  then have "t' = snd (table_lookup k t)"
    using get_or_create_old [OF tracked_okD(1) [OF t] Some] c(1) by simp
  then show ?thesis
    using tracked_okD [OF t] by (simp add: tracked_ok_def lookup_ok lookup_cache_ok)
qed

lemma record_shared_ok:
  assumes "entries_ok t" "routes_ok t"
  shows "entries_ok (record_shared now bytes e t)" "routes_ok (record_shared now bytes e t)"
proof -
  let ?t = "record_shared now bytes e t"
  have h: "en_nat_src (ct_heap ?t ! i) = en_nat_src (ct_heap t ! i)
      \<and> en_orig_src (ct_heap ?t ! i) = en_orig_src (ct_heap t ! i)
      \<and> en_orig_dst (ct_heap ?t ! i) = en_orig_dst (ct_heap t ! i)
      \<and> en_protocol (ct_heap ?t ! i) = en_protocol (ct_heap t ! i)" for i
    by (cases "e < length (ct_heap t)")
      (auto simp: record_shared_def record_packet_def touch_entry_def nth_list_update list_update_beyond not_less)
  have f: "ct_entries ?t = ct_entries t" "ct_reverse ?t = ct_reverse t"
    "ct_port_alloc ?t = ct_port_alloc t" "ct_external_ip ?t = ct_external_ip t"
    "length (ct_heap ?t) = length (ct_heap t)"
    by (simp_all add: record_shared_def)
  have "nat_port ?t = nat_port t"
    by (rule ext) (simp add: nat_port_def f h)
  then show "routes_ok ?t"
    using assms(2) by (simp add: routes_ok_cong [of ?t t] f)
  show "entries_ok ?t"
    using assms(1) by (simp add: entries_ok_def entry_fits_def f h)
qed

lemma expire_ok:
  assumes "entries_ok t" "routes_ok t"
  shows "entries_ok (snd (expire_old now t))" "routes_ok (snd (expire_old now t))"
proof -
  obtain ks s where e: "snd (expire_old now t) = foldl (\<lambda>t k. table_remove k t) t ks\<lparr>ct_stats := s\<rparr>"
    by (simp add: expire_old_def Let_def)
  let ?u = "foldl (\<lambda>t k. table_remove k t) t ks"
  have "nat_port (?u\<lparr>ct_stats := s\<rparr>) = nat_port ?u"
    by (rule ext) (simp add: nat_port_def)
  then show "entries_ok (snd (expire_old now t))" "routes_ok (snd (expire_old now t))"
    using remove_all_ok [OF assms, of ks]
    by (simp_all add: e entries_ok_cong [of "?u\<lparr>ct_stats := s\<rparr>" ?u] routes_ok_cong [of "?u\<lparr>ct_stats := s\<rparr>" ?u])
qed

lemma clear_ok:
  assumes "routes_ok t"
  shows "entries_ok (table_clear t)" "routes_ok (table_clear t)"
proof -
  have "nat_port (table_clear t) = Map.empty"
    by (rule ext) (simp add: nat_port_def table_clear_def)
  then show "routes_ok (table_clear t)"
    using routes_range [OF assms]
    by (simp add: routes_ok_def range_ok_def allocated_def capacity_def table_clear_def)
  show "entries_ok (table_clear t)"
    by (simp add: entries_ok_def table_clear_def)
qed

lemma routed_start_ok: "routed_start t \<Longrightarrow> tracked_ok t"
proof -
  assume s: "routed_start t"
  then obtain ip lo hi size timeout where t: "t = table_new ip lo hi size timeout"
    by (auto simp: routed_start_def table_start_def)
  have e: "ct_entries t = []" "ct_reverse t = []" "allocated t = 0"
    by (simp_all add: t table_new_def Let_def allocated_def port_allocator_def)
  have "nat_port t = Map.empty"
    by (rule ext) (simp add: nat_port_def e)
  then show ?thesis
    using s start_cache_ok [of t] e
    by (simp add: tracked_ok_def routed_start_def entries_ok_def routes_ok_def)
qed

interpretation tracked_inv: invariant_of routed_start routed_move tracked_ok
proof
  show "routed_start s \<Longrightarrow> tracked_ok s" for s
    by (rule routed_start_ok)
  show "tracked_ok t" if s: "tracked_ok s" and m: "routed_move s op t" for s op t
  proof -
    note D = tracked_okD [OF s]
    have c: "cache_ok t"
      using cache_inv.holds_move [OF D(1)] m by (auto simp: routed_move_def)
    show ?thesis
    proof (cases op)
      case (LookupReverse k)
      then show ?thesis
        using s m c D by (cases "map_of (ct_reverse s) k")
          (auto simp: routed_move_def table_move_def lookup_reverse_def tracked_ok_def lookup_ok)
    next
      case (GetOrCreate now k)
      then show ?thesis
        using get_or_create_ok [OF s] m by (auto simp: routed_move_def table_move_def)
    qed (use m c D in \<open>auto simp: routed_move_def table_move_def tracked_ok_def lookup_ok
        remove_entries_ok remove_routes_ok expire_ok clear_ok record_shared_ok\<close>)
  qed
qed

subsection \<open>The contract of a flow table\<close>

text \<open>
  What the packet path asks of the table: making a flow keeps the others and their ports, and the
  key a reply carries leads back to the flow.  A client of the contract knows that the reply to a
  packet it just sent comes home and that no two live flows can be confused.
\<close>

locale flow_table =
  fixes ok :: "'t \<Rightarrow> bool"
    and port_of :: "'t \<Rightarrow> 'k \<Rightarrow> 'p option"
    and make :: "'k \<Rightarrow> 't \<Rightarrow> 't option"
    and reply_key :: "'t \<Rightarrow> 'k \<Rightarrow> 'p \<Rightarrow> 'r"
    and home :: "'t \<Rightarrow> 'r \<Rightarrow> 'k option"
  assumes make_tracks: "ok t \<Longrightarrow> make k t = Some t' \<Longrightarrow> port_of t' k \<noteq> None"
    and make_keeps: "ok t \<Longrightarrow> make k t = Some t' \<Longrightarrow> port_of t k' = Some p \<Longrightarrow> port_of t' k' = Some p"
    and reply_back: "ok t \<Longrightarrow> port_of t k = Some p \<Longrightarrow> home t (reply_key t k p) = Some k"
begin

lemma reply_comes_home:
  assumes "ok t" "make k t = Some t'" "ok t'"
  shows "\<exists>p. port_of t' k = Some p \<and> home t' (reply_key t' k p) = Some k"
  using make_tracks [OF assms(1, 2)] reply_back [OF assms(3)] by auto

lemma earlier_flows_come_home:
  assumes "ok t" "make k t = Some t'" "ok t'" "port_of t k' = Some p"
  shows "home t' (reply_key t' k' p) = Some k'"
  using make_keeps [OF assms(1, 2, 4)] reply_back [OF assms(3)] by auto

lemma no_confusion:
  assumes "ok t" "port_of t k = Some p" "port_of t k' = Some p'" "reply_key t k p = reply_key t k' p'"
  shows "k = k'"
  using reply_back [OF assms(1, 2)] reply_back [OF assms(1, 3)] assms(4) by simp

end

definition flow_back :: "ConnTrackTable \<Rightarrow> ConnTrackKey \<Rightarrow> ConnTrackKey option" where
  "flow_back t nk = map_of (ct_reverse t) nk"

lemma make_flow:
  assumes "tracked_ok t" "get_or_create now k t = Some (e, t')"
  shows "map_of (ct_entries t') k = Some e" "ct_external_ip t' = ct_external_ip t"
    and "nat_port t k' = Some p \<Longrightarrow> nat_port t' k' = Some p"
proof -
  note D = tracked_okD [OF assms(1)]
  have "map_of (ct_entries t') k = Some e \<and> ct_external_ip t' = ct_external_ip t
    \<and> (\<forall>k' p. nat_port t k' = Some p \<longrightarrow> nat_port t' k' = Some p)"
  proof (cases "map_of (ct_entries t) k")
    case None
    obtain p pa where p: "allocate_port (ct_port_alloc t) = Some (p, pa)"
      using None assms(2) by (auto simp: get_or_create_def split: option.splits)
    obtain t'' where n: "get_or_create now k t = Some (length (ct_heap t), t'')"
      "map_of (ct_entries t'') = (map_of (ct_entries t))(k \<mapsto> length (ct_heap t))"
      "ct_heap t'' = ct_heap t @ [new_snat now (key_src_ip k, key_src_port k)
          (key_dst_ip k, key_dst_port k) (ct_external_ip t, p) (key_protocol k)]"
      "ct_external_ip t'' = ct_external_ip t"
      using get_or_create_new [OF None p] by blast
    have "nat_port t'' = (nat_port t)(k \<mapsto> p)"
      using nat_port_new [OF D(2) n(2, 3)] by (simp add: new_snat_def)
    then show ?thesis
      using n assms(2) None by (auto simp: nat_port_def [of t k])
  next
    case (Some x)
    then have "t' = snd (table_lookup k t)" "e = x"
      using get_or_create_old [OF D(1) Some] assms(2) by auto
    then show ?thesis
      using Some by (simp add: nat_port_def lookup_frame)
  qed
  then show "map_of (ct_entries t') k = Some e" "ct_external_ip t' = ct_external_ip t"
    and "nat_port t k' = Some p \<Longrightarrow> nat_port t' k' = Some p"
    by auto
qed

interpretation conntrack: flow_table tracked_ok nat_port
  "\<lambda>k t. map_option snd (get_or_create now k t)" nat_key_of flow_back
  for now
proof
  show "nat_port t' k \<noteq> None"
    if "tracked_ok t" "map_option snd (get_or_create now k t) = Some t'" for t k t'
    using that make_flow(1) [OF that(1)] by (auto simp: nat_port_def)
  show "nat_port t' k' = Some p"
    if "tracked_ok t" "map_option snd (get_or_create now k t) = Some t'" "nat_port t k' = Some p"
    for t k t' k' p
    using that make_flow(3) [OF that(1)] by auto
  show "flow_back t (nat_key_of t k p) = Some k" if "tracked_ok t" "nat_port t k = Some p" for t k p
    using that routes_rev [OF tracked_okD(3) [OF that(1)]] by (auto simp: flow_back_def)
qed

lemma lookup_reverse_live:
  assumes "tracked_ok t"
  shows "fst (lookup_reverse nk t) = Some e \<longleftrightarrow>
    (\<exists>k p. map_of (ct_entries t) k = Some e \<and> nat_port t k = Some p \<and> nk = nat_key_of t k p)"
proof -
  note D = tracked_okD [OF assms]
  show ?thesis
  proof (cases "map_of (ct_reverse t) nk")
    case None
    then show ?thesis
      using routes_rev [OF D(3), of nk] by (auto simp: lookup_reverse_def)
  next
    case (Some a)
    then have "fst (lookup_reverse nk t) = map_of (ct_entries t) a"
      by (simp add: lookup_reverse_def lookup_result [OF D(1)])
    moreover have "k = a \<longleftrightarrow> (\<exists>p. nat_port t k = Some p \<and> nk = nat_key_of t k p)" for k
      using routes_rev [OF D(3), of nk k] Some by auto
    ultimately show ?thesis
      by metis
  qed
qed

lemma get_or_create_defined:
  assumes "tracked_ok t"
  shows "\<exists>e t'. get_or_create now k t = Some (e, t')"
proof (cases "map_of (ct_entries t) k")
  case None
  have "range_ok t"
    using routes_range [OF tracked_okD(3) [OF assms]] by simp
  then have "0 < unat (port_range (ct_port_alloc t))"
    using unat_port_range(1) by (simp add: capacity_def)
  then have "port_range (ct_port_alloc t) \<noteq> 0"
    by (metis less_irrefl unsigned_0)
  then show ?thesis
    using None by (simp add: get_or_create_def allocate_port_def Let_def)
next
  case (Some e)
  then show ?thesis
    using get_or_create_old [OF tracked_okD(1) [OF assms] Some] by simp
qed

subsection \<open>Properties\<close>

text \<open>
  C13: The fast cache is transparent.  After any sequence of table operations a lookup returns
  exactly what the hash map holds, hit or miss, without an out-of-range slot, and leaves the map,
  the reverse map and the entries as they were.
\<close>

theorem cache_is_transparent:
  assumes "reach table_start table_move t"
  shows "fst (table_lookup k t) = map_of (ct_entries t) k
    \<and> cache_idx t k < length (ct_fast_cache t)
    \<and> (let t' = snd (table_lookup k t) in
        ct_entries t' = ct_entries t \<and> ct_reverse t' = ct_reverse t \<and> ct_heap t' = ct_heap t)"
  using lookup_result [OF cache_inv.holds_reach [OF assms]]
    cache_idx_less [OF cache_inv.holds_reach [OF assms]]
  by (simp add: lookup_frame)

definition sample_key :: "u16 \<Rightarrow> ConnTrackKey" where
  "sample_key sp = key_new 0xC0A84002 0x08080808 sp 443 6"

definition sample_table :: ConnTrackTable where
  "sample_table = table_new 0x0A000001 49152 49152 2 300"

lemma sample_start: "routed_start sample_table"
  unfolding routed_start_def
proof
  show "table_start sample_table"
    unfolding table_start_def sample_table_def
    by (intro exI [of _ "0x0A000001 :: ipv4"] exI [of _ "49152 :: u16"] exI [of _ 2]
        exI [of _ "300 :: u32"]) simp
  show "range_ok sample_table"
    by (simp add: sample_table_def table_new_def Let_def range_ok_def port_allocator_def)
qed

theorem cache_is_transparent_witness:
  "fst (table_lookup (sample_key 5000) sample_table)
     = map_of (ct_entries sample_table) (sample_key 5000)"
  using cache_is_transparent [of sample_table "sample_key 5000"] sample_start
  by (simp add: routed_start_def reach_start)

text \<open>
  C33: Ports are reused without a check.  Once every port of the range was handed out, the next
  connection gets the first port again even while the connection that holds it is alive; when both
  go to the same destination, the replies of the older one are looked up as the newer one's, with
  the newer one's source address.
\<close>

theorem port_reuse_misroutes:
  assumes r: "reach routed_start routed_move t" and full: "allocated t = capacity t"
    and k: "nat_port t k = Some (pa_start (ct_port_alloc t))" and k': "map_of (ct_entries t) k' = None"
    and same: "key_dst_ip k' = key_dst_ip k" "key_dst_port k' = key_dst_port k"
      "key_protocol k' = key_protocol k"
  shows "\<exists>e' t'. get_or_create now k' t = Some (e', t') \<and> nat_port t' k = nat_port t' k'
    \<and> fst (lookup_reverse (nat_key_of t' k (pa_start (ct_port_alloc t))) t') = Some e'
    \<and> en_orig_src (ct_heap t' ! e') = (key_src_ip k', key_src_port k')"
proof -
  let ?P = "ct_port_alloc t" and ?p = "pa_start (ct_port_alloc t)"
  have ok: "tracked_ok t"
    by (rule tracked_inv.holds_reach [OF r])
  note D = tracked_okD [OF ok]
  have R: "unat (port_range ?P) = capacity t"
    using routes_range [OF D(3)] unat_port_range(1) by simp
  have "port_range ?P \<noteq> 0"
    using R by (auto simp: capacity_def)
  moreover have "(pa_current ?P - ucast ?p) mod port_range ?P = 0"
    unfolding word_unat_eq_iff unat_mod_distrib using R full by (simp add: allocated_def)
  ultimately obtain pa where p: "allocate_port ?P = Some (?p, pa)"
    by (simp add: allocate_port_def Let_def)
  obtain t' where n: "get_or_create now k' t = Some (length (ct_heap t), t')"
    "map_of (ct_entries t') = (map_of (ct_entries t))(k' \<mapsto> length (ct_heap t))"
    "ct_heap t' = ct_heap t @ [new_snat now (key_src_ip k', key_src_port k')
        (key_dst_ip k', key_dst_port k') (ct_external_ip t, ?p) (key_protocol k')]"
    "map_of (ct_reverse t') = (map_of (ct_reverse t))(nat_key_of t k' ?p \<mapsto> k')"
    "ct_external_ip t' = ct_external_ip t"
    using get_or_create_new [OF k' p] by blast
  have c: "cache_ok t'"
    by (rule get_or_create_cache_ok [OF D(1) n(1)])
  have np: "nat_port t' = (nat_port t)(k' \<mapsto> ?p)"
    using nat_port_new [OF D(2) n(2, 3)] by (simp add: new_snat_def)
  have "nat_key_of t' k ?p = nat_key_of t k' ?p"
    using same n(5) by (simp add: nat_key_of_def)
  then have "fst (lookup_reverse (nat_key_of t' k ?p) t') = Some (length (ct_heap t))"
    using n(2, 4) by (simp add: lookup_reverse_def lookup_result [OF c])
  moreover have "nat_port t' k = nat_port t' k'"
    using k by (simp add: np)
  moreover have "en_orig_src (ct_heap t' ! length (ct_heap t)) = (key_src_ip k', key_src_port k')"
    by (simp add: n(3) new_snat_def)
  ultimately show ?thesis
    using n(1) by blast
qed

lemma sample_used:
  obtains t where "reach routed_start routed_move t" "allocated t = 1" "capacity t = 1"
    "nat_port t (sample_key 5000) = Some 49152" "pa_start (ct_port_alloc t) = 49152"
    "map_of (ct_entries t) (sample_key 6000) = None"
proof -
  let ?t = sample_table and ?k = "sample_key 5000"
  have ok: "tracked_ok ?t"
    by (rule routed_start_ok [OF sample_start])
  have s: "ct_entries ?t = []" "ct_heap ?t = []" "ct_port_alloc ?t = port_allocator 49152 49152"
    by (simp_all add: sample_table_def table_new_def Let_def)
  have a: "allocate_port (ct_port_alloc ?t) = Some (49152, (port_allocator 49152 49152)\<lparr>pa_current := 49153\<rparr>)"
    by (simp add: s allocate_port_def port_range_def port_allocator_def Let_def)
  obtain t where n: "get_or_create 0 ?k ?t = Some (length (ct_heap ?t), t)"
    "map_of (ct_entries t) = (map_of (ct_entries ?t))(?k \<mapsto> length (ct_heap ?t))"
    "ct_heap t = ct_heap ?t @ [new_snat 0 (key_src_ip ?k, key_src_port ?k)
        (key_dst_ip ?k, key_dst_port ?k) (ct_external_ip ?t, 49152) (key_protocol ?k)]"
    "ct_port_alloc t = (port_allocator 49152 49152)\<lparr>pa_current := 49153\<rparr>"
    using get_or_create_new [OF _ a, of ?k 0] by (auto simp: s)
  have c: "allocated t = 1" "capacity t = 1" "pa_start (ct_port_alloc t) = 49152"
    by (simp_all add: allocated_def capacity_def n(4) port_allocator_def)
  have "routed_move ?t (TableOp.GetOrCreate 0 ?k) t"
    using n(1) c by (simp add: routed_move_def table_move_def)
  moreover have "reach routed_start routed_move ?t"
    by (rule reach_start) (rule sample_start)
  ultimately have "reach routed_start routed_move t"
    by (rule reach_move [rotated])
  moreover have "nat_port t ?k = Some 49152"
    by (simp add: nat_port_def n(2, 3) s new_snat_def)
  moreover have "map_of (ct_entries t) (sample_key 6000) = None"
    by (simp add: n(2) s sample_key_def key_new_def)
  ultimately show thesis
    using c that by blast
qed

theorem port_reuse_misroutes_witness:
  "\<exists>t e' t'. get_or_create 1 (sample_key 6000) t = Some (e', t')
    \<and> nat_port t' (sample_key 5000) = nat_port t' (sample_key 6000)
    \<and> fst (lookup_reverse (nat_key_of t' (sample_key 5000) (pa_start (ct_port_alloc t))) t') = Some e'
    \<and> en_orig_src (ct_heap t' ! e') = (key_src_ip (sample_key 6000), key_src_port (sample_key 6000))"
proof -
  obtain t where t: "reach routed_start routed_move t" "allocated t = 1" "capacity t = 1"
    "nat_port t (sample_key 5000) = Some 49152" "pa_start (ct_port_alloc t) = 49152"
    "map_of (ct_entries t) (sample_key 6000) = None"
    by (rule sample_used)
  have "\<exists>e' t'. get_or_create 1 (sample_key 6000) t = Some (e', t')
    \<and> nat_port t' (sample_key 5000) = nat_port t' (sample_key 6000)
    \<and> fst (lookup_reverse (nat_key_of t' (sample_key 5000) (pa_start (ct_port_alloc t))) t') = Some e'
    \<and> en_orig_src (ct_heap t' ! e') = (key_src_ip (sample_key 6000), key_src_port (sample_key 6000))"
    using t by (intro port_reuse_misroutes) (simp_all add: sample_key_def key_new_def)
  then show ?thesis
    by blast
qed

end
