(* ===== verification/Nat_Engine.thy ===== *)
theory Nat_Engine
  imports Conntrack
begin

unbundle bit_operations_syntax

section \<open>Packet translation\<close>

text \<open>
  The NAT engine of \<open>src/common/arcbox-conntrack/src/translate.rs\<close> and its configuration in
  \<open>lib.rs\<close>.  A packet is the list of its bytes and is rewritten in place: the source fields of an
  outbound packet, the destination fields of an inbound one, and both checksums.  \<open>None\<close> is a
  panic.
\<close>

subsection \<open>Configuration\<close>

record NatEngineConfig =
  cf_external_ip :: ipv4
  cf_port_range_start :: u16
  cf_port_range_end :: u16
  cf_conntrack_size :: nat
  cf_connection_timeout_secs :: u32
  cf_enable_fast_cache :: bool
  cf_fast_cache_size :: nat

definition default_config :: NatEngineConfig where
  "default_config =
     \<lparr>cf_external_ip = ip4 192 168 64 1, cf_port_range_start = 49152, cf_port_range_end = 65535,
      cf_conntrack_size = 65536, cf_connection_timeout_secs = 300, cf_enable_fast_cache = True,
      cf_fast_cache_size = 256\<rparr>"

definition config_new :: "ipv4 \<Rightarrow> NatEngineConfig" where
  "config_new external_ip = default_config\<lparr>cf_external_ip := external_ip\<rparr>"

definition with_port_range :: "u16 \<Rightarrow> u16 \<Rightarrow> NatEngineConfig \<Rightarrow> NatEngineConfig" where
  "with_port_range lo hi c = c\<lparr>cf_port_range_start := lo, cf_port_range_end := hi\<rparr>"

definition with_timeout :: "u32 \<Rightarrow> NatEngineConfig \<Rightarrow> NatEngineConfig" where
  "with_timeout secs c = c\<lparr>cf_connection_timeout_secs := secs\<rparr>"

definition without_fast_cache :: "NatEngineConfig \<Rightarrow> NatEngineConfig" where
  "without_fast_cache c = c\<lparr>cf_enable_fast_cache := False\<rparr>"

subsection \<open>The engine\<close>

datatype NatDirection = Outbound | Inbound

datatype NatResult = Translated | PassThrough | Dropped

datatype TranslateError = PacketTooShort | InvalidIpHeader | UnsupportedProtocol | ConnTrackFull

fun translate_error_text :: "TranslateError \<Rightarrow> string" where
  "translate_error_text PacketTooShort = ''packet too short''"
| "translate_error_text InvalidIpHeader = ''invalid IP header''"
| "translate_error_text UnsupportedProtocol = ''unsupported protocol''"
| "translate_error_text ConnTrackFull = ''connection tracking table full''"

record NatEngine =
  ne_conntrack :: ConnTrackTable
  ne_external_ip :: ipv4
  ne_internal_prefix :: ipv4
  ne_internal_mask :: u32

definition engine_new :: "NatEngineConfig \<Rightarrow> NatEngine" where
  "engine_new config =
     \<lparr>ne_conntrack = table_new (cf_external_ip config) (cf_port_range_start config)
        (cf_port_range_end config) (cf_fast_cache_size config) (cf_connection_timeout_secs config),
      ne_external_ip = cf_external_ip config, ne_internal_prefix = ip4 192 168 64 0,
      ne_internal_mask = 0xFFFFFF00\<rparr>"

definition with_external_ip :: "ipv4 \<Rightarrow> NatEngine" where
  "with_external_ip external_ip = engine_new (config_new external_ip)"

text \<open>A shift by the full width is masked to the low five bits of the amount.\<close>

definition set_internal_network :: "ipv4 \<Rightarrow> u8 \<Rightarrow> NatEngine \<Rightarrow> NatEngine" where
  "set_internal_network prefix prefix_len ne =
     ne\<lparr>ne_internal_prefix := prefix,
        ne_internal_mask :=
          (if prefix_len \<ge> 32 then 0xFFFFFFFF
           else NOT (push_bit (unat (32 - prefix_len) mod 32) 1 - 1))\<rparr>"

definition is_internal :: "NatEngine \<Rightarrow> ipv4 \<Rightarrow> bool" where
  "is_internal ne ip = (ip AND ne_internal_mask ne = ne_internal_prefix ne AND ne_internal_mask ne)"

definition checksum_offset :: "u8 \<Rightarrow> nat \<Rightarrow> nat" where
  "checksum_offset protocol l4_offset = (if protocol = 6 then l4_offset + 16 else l4_offset + 6)"

text \<open>
  The rewriting both directions share: address, header checksum, port, and the transport checksum
  where the packet reaches that far and, for UDP, has one.
\<close>

definition rewrite_fields ::
  "nat \<Rightarrow> nat \<Rightarrow> u8 list \<Rightarrow> nat \<Rightarrow> nat \<Rightarrow> ipv4 \<Rightarrow> u16 \<Rightarrow> ipv4 \<Rightarrow> u16 \<Rightarrow> u8 \<Rightarrow> u8 list" where
  "rewrite_fields ip_at port_at pkt ip_offset l4_offset old_ip old_port new_ip new_port protocol =
     (let pkt = put ip_at (to_be32 new_ip) pkt;
          old_ip_checksum = get16 pkt (ip_offset + 10);
          new_ip_checksum = update_checksum_for_ip old_ip_checksum old_ip new_ip;
          pkt = put (ip_offset + 10) (to_be16 new_ip_checksum) pkt;
          pkt = put port_at (to_be16 new_port) pkt;
          at = checksum_offset protocol l4_offset
      in if at + 2 \<le> length pkt then
           (let old_l4_checksum = get16 pkt at
            in if protocol \<noteq> 17 \<or> old_l4_checksum \<noteq> 0 then
                 put at (to_be16 (update_checksum_for_nat old_l4_checksum old_ip old_port new_ip new_port)) pkt
               else pkt)
         else pkt)"

type_synonym translation = "((NatResult, TranslateError) result \<times> u8 list \<times> NatEngine) option"

definition translate_outbound ::
  "u32 \<Rightarrow> u8 list \<Rightarrow> nat \<Rightarrow> nat \<Rightarrow> ipv4 \<Rightarrow> ipv4 \<Rightarrow> u16 \<Rightarrow> u16 \<Rightarrow> u8 \<Rightarrow> NatEngine \<Rightarrow> translation" where
  "translate_outbound now pkt ip_offset l4_offset src_ip dst_ip src_port dst_port protocol ne =
     (if \<not> is_internal ne src_ip then Some (Ok PassThrough, pkt, ne)
      else
        (case get_or_create now (key_new src_ip dst_ip src_port dst_port protocol) (ne_conntrack ne) of
           None \<Rightarrow> None
         | Some (e, t) \<Rightarrow>
             (let entry = ct_heap t ! e;
                  nat_ip = fst (en_nat_src entry);
                  nat_port = snd (en_nat_src entry);
                  pkt = rewrite_fields (ip_offset + 12) l4_offset pkt ip_offset l4_offset
                          src_ip src_port nat_ip nat_port protocol;
                  t = record_shared now (word_of_nat (length pkt)) e t
              in Some (Ok Translated, pkt, ne\<lparr>ne_conntrack := t\<rparr>))))"

definition translate_inbound ::
  "u32 \<Rightarrow> u8 list \<Rightarrow> nat \<Rightarrow> nat \<Rightarrow> ipv4 \<Rightarrow> ipv4 \<Rightarrow> u16 \<Rightarrow> u16 \<Rightarrow> u8 \<Rightarrow> NatEngine \<Rightarrow> translation" where
  "translate_inbound now pkt ip_offset l4_offset src_ip dst_ip src_port dst_port protocol ne =
     (if dst_ip \<noteq> ne_external_ip ne then Some (Ok PassThrough, pkt, ne)
      else
        (case lookup_reverse (key_new src_ip dst_ip src_port dst_port protocol) (ne_conntrack ne) of
           (None, t) \<Rightarrow> Some (Ok Dropped, pkt, ne\<lparr>ne_conntrack := t\<rparr>)
         | (Some e, t) \<Rightarrow>
             (let entry = ct_heap t ! e;
                  orig_ip = fst (en_orig_src entry);
                  orig_port = snd (en_orig_src entry);
                  pkt = rewrite_fields (ip_offset + 16) (l4_offset + 2) pkt ip_offset l4_offset
                          dst_ip dst_port orig_ip orig_port protocol;
                  t = record_shared now (word_of_nat (length pkt)) e t
              in Some (Ok Translated, pkt, ne\<lparr>ne_conntrack := t\<rparr>))))"

definition header_len :: "u8 list \<Rightarrow> nat" where
  "header_len pkt = unat ((pkt ! 14 AND 0x0F) * 4)"

definition translate :: "u32 \<Rightarrow> u8 list \<Rightarrow> NatDirection \<Rightarrow> NatEngine \<Rightarrow> translation" where
  "translate now pkt direction ne =
     (if length pkt < 42 then Some (Err PacketTooShort, pkt, ne)
      else if get16 pkt 12 \<noteq> 0x0800 then Some (Ok PassThrough, pkt, ne)
      else
        (let ip_offset = 14;
             version_ihl = pkt ! ip_offset
         in if drop_bit 4 version_ihl \<noteq> 4 then Some (Err InvalidIpHeader, pkt, ne)
            else
              (let ihl = header_len pkt
               in if ihl < 20 \<or> ip_offset + ihl > length pkt then Some (Err InvalidIpHeader, pkt, ne)
                  else
                    (let protocol = pkt ! (ip_offset + 9)
                     in if protocol \<noteq> 6 \<and> protocol \<noteq> 17 then Some (Ok PassThrough, pkt, ne)
                        else
                          (let src_ip = get_ip pkt (ip_offset + 12);
                               dst_ip = get_ip pkt (ip_offset + 16);
                               l4_offset = ip_offset + ihl
                           in if l4_offset + 4 > length pkt then Some (Err PacketTooShort, pkt, ne)
                              else
                                (let src_port = get16 pkt l4_offset;
                                     dst_port = get16 pkt (l4_offset + 2)
                                 in case direction of
                                      Outbound \<Rightarrow>
                                        translate_outbound now pkt ip_offset l4_offset src_ip dst_ip
                                          src_port dst_port protocol ne
                                    | Inbound \<Rightarrow>
                                        translate_inbound now pkt ip_offset l4_offset src_ip dst_ip
                                          src_port dst_port protocol ne))))))"

definition expire_connections :: "u32 \<Rightarrow> NatEngine \<Rightarrow> nat \<times> NatEngine" where
  "expire_connections now ne =
     (let (n, t) = expire_old now (ne_conntrack ne) in (n, ne\<lparr>ne_conntrack := t\<rparr>))"

definition connection_count :: "NatEngine \<Rightarrow> nat" where
  "connection_count ne = table_len (ne_conntrack ne)"

subsection \<open>Sums over parts of a packet\<close>

definition ip_words :: "ipv4 \<Rightarrow> nat" where
  "ip_words ip = unat (ucast (drop_bit 16 ip) :: u16) + unat (ucast ip :: u16)"

lemma wsum_to_be16 [simp]: "wsum (to_be16 w) = unat w"
  using wsum_field [of "[]" w "[]"] by simp

lemma wsum_to_be32 [simp]: "wsum (to_be32 ip) = ip_words ip"
  by (simp add: to_be32_def wsum_append ip_words_def)

lemma wsum_part_16: "i + 2 \<le> length pkt \<Longrightarrow> wsum (part i (i + 2) pkt) = unat (get16 pkt i)"
  by (subst part_pair) (simp_all add: get16_def)

lemma wsum_part_ip: "i + 4 \<le> length pkt \<Longrightarrow> wsum (part i (i + 4) pkt) = ip_words (get_ip pkt i)"
  by (simp add: part_four get_ip_def ip_words_def ip4_def be32_halves)

lemma wsum_put:
  assumes "lo \<le> i" "i + length bs \<le> hi" "hi \<le> length xs" "even (i - lo)" "even (length bs)"
  shows "int (wsum (part lo hi (put i bs xs)))
    = int (wsum (part lo hi xs)) - int (wsum (part i (i + length bs) xs)) + int (wsum bs)"
proof -
  let ?j = "i + length bs"
  have split: "wsum (part lo hi ys) = wsum (part lo i ys) + wsum (part i ?j ys) + wsum (part ?j hi ys)"
    if "length ys = length xs" for ys
  proof -
    have "part lo hi ys = part lo i ys @ part i ?j ys @ part ?j hi ys"
      using assms part_append [of lo i hi ys] part_append [of i ?j hi ys] by simp
    then show ?thesis
      using assms that by (simp add: wsum_append length_part)
  qed
  have "i + length bs \<le> length xs"
    using assms by simp
  then show ?thesis
    using split [of xs] split [of "put i bs xs"] assms
    by (simp add: part_put_outside part_put_self)
qed

lemma update_ip_mod:
  "int (unat (update_checksum_for_ip c old new)) mod 65535
     = (int (unat c) + int (ip_words old) - int (ip_words new)) mod 65535"
proof -
  let ?h = "\<lambda>ip :: u32. ucast (drop_bit 16 ip) :: u16" and ?l = "\<lambda>ip :: u32. ucast ip :: u16"
  let ?c = "incremental_checksum_update c (?h old) (?h new)"
  have "int (unat (update_checksum_for_ip c old new)) mod 65535
      = (int (unat ?c) + (int (unat (?l old)) - int (unat (?l new)))) mod 65535"
    by (simp only: update_checksum_for_ip_def incremental_checksum_update_32_def Let_def incremental_mod
        add_diff_eq)
  also have "\<dots> = (int (unat ?c) mod 65535 + (int (unat (?l old)) - int (unat (?l new)))) mod 65535"
    by (simp only: mod_add_left_eq)
  also have "\<dots> = ((int (unat c) + int (unat (?h old)) - int (unat (?h new)))
      + (int (unat (?l old)) - int (unat (?l new)))) mod 65535"
    by (simp only: incremental_mod mod_add_left_eq)
  also have "\<dots> = (int (unat c) + int (ip_words old) - int (ip_words new)) mod 65535"
    by (simp add: ip_words_def algebra_simps)
  finally show ?thesis .
qed

lemma update_nat_mod:
  "int (unat (update_checksum_for_nat c old old_port new new_port)) mod 65535
     = (int (unat c) + int (ip_words old) + int (unat old_port)
        - int (ip_words new) - int (unat new_port)) mod 65535"
proof -
  let ?c = "update_checksum_for_ip c old new"
  have "int (unat (update_checksum_for_nat c old old_port new new_port)) mod 65535
      = (int (unat ?c) + (int (unat old_port) - int (unat new_port))) mod 65535"
    by (simp only: update_checksum_for_nat_def update_checksum_for_port_def Let_def incremental_mod
        add_diff_eq)
  also have "\<dots> = (int (unat ?c) mod 65535 + (int (unat old_port) - int (unat new_port))) mod 65535"
    by (simp only: mod_add_left_eq)
  also have "\<dots> = ((int (unat c) + int (ip_words old) - int (ip_words new))
      + (int (unat old_port) - int (unat new_port))) mod 65535"
    by (simp only: update_ip_mod mod_add_left_eq)
  finally show ?thesis
    by (simp add: algebra_simps)
qed

subsection \<open>Valid checksums\<close>

text \<open>The tests a receiver makes on the header and on the segment that ends before byte \<open>n\<close>.\<close>

definition header_valid :: "Target \<Rightarrow> u8 list \<Rightarrow> bool" where
  "header_valid tgt pkt = (checksum tgt (part 14 (14 + header_len pkt) pkt) = 0)"

definition segment_valid :: "Target \<Rightarrow> nat \<Rightarrow> u8 list \<Rightarrow> bool" where
  "segment_valid tgt n pkt =
     (checksum_fold (pseudo_sum tgt (get_ip pkt 26) (get_ip pkt 30) (ucast (pkt ! 23))
        (part (14 + header_len pkt) n pkt)) = 0)"

definition has_checksum :: "nat \<Rightarrow> u8 list \<Rightarrow> bool" where
  "has_checksum n pkt =
     (let at = checksum_offset (pkt ! 23) (14 + header_len pkt)
      in at + 2 \<le> n \<and> n \<le> length pkt \<and> (pkt ! 23 = 17 \<longrightarrow> get16 pkt at \<noteq> 0))"

lemma header_len_less: "header_len pkt \<le> 60" "even (header_len pkt)"
proof -
  have "pkt ! 14 AND 0x0F \<le> 0x0F"
    by (rule word_and_le1)
  then have n: "unat (pkt ! 14 AND 0x0F) \<le> 15"
    by (simp add: word_le_nat_alt)
  then have "header_len pkt = unat (pkt ! 14 AND 0x0F) * 4"
    by (simp add: header_len_def unat_word_ariths)
  then show "header_len pkt \<le> 60" "even (header_len pkt)"
    using n by simp_all
qed

lemma fold_zero_iff: "checksum_fold s = 0 \<longleftrightarrow> unat s \<noteq> 0 \<and> int (unat s) mod 65535 = 0"
proof -
  have "checksum_fold s = 0 \<longleftrightarrow> ones (unat s) = 65535"
    using ones_le [of "unat s"] by (simp add: word_unat_eq_iff unat_checksum_fold)
  also have "\<dots> \<longleftrightarrow> unat s \<noteq> 0 \<and> unat s mod 65535 = 0"
    using mod_less_divisor [of 65535 "unat s"] by (auto simp: ones_def)
  also have "unat s mod 65535 = 0 \<longleftrightarrow> int (unat s) mod 65535 = 0"
  proof -
    have "int (unat s) mod 65535 = int (unat s mod 65535)"
      by (simp only: zmod_int of_nat_numeral)
    then show ?thesis
      by (simp only: of_nat_eq_0_iff)
  qed
  finally show ?thesis .
qed

lemma header_valid_iff:
  assumes "14 + header_len pkt \<le> length pkt"
  shows "header_valid tgt pkt \<longleftrightarrow>
    wsum (part 14 (14 + header_len pkt) pkt) \<noteq> 0
    \<and> int (wsum (part 14 (14 + header_len pkt) pkt)) mod 65535 = 0"
proof -
  have "length (part 14 (14 + header_len pkt) pkt) \<le> 131072"
    using assms header_len_less(1) [of pkt] by (simp add: length_part)
  then show ?thesis
    by (simp only: header_valid_def checksum_def fold_zero_iff unat_checksum_add)
qed

lemma unat_pseudo_sum:
  assumes "length seg \<le> 65535"
  shows "unat (pseudo_sum tgt src dst (ucast (p :: u8)) seg)
    = ip_words src + ip_words dst + unat p + length seg + wsum seg"
proof -
  have "(length seg + 1) div 2 \<le> 32768"
    using assms by linarith
  then have w: "wsum seg \<le> 65535 * 32768"
    using wsum_le [of seg] by simp
  have e: "pseudo_sum tgt src dst (ucast p) seg
      = word_of_nat (ip_words src + ip_words dst + unat p + length seg + wsum seg)"
    by (simp add: pseudo_sum_def ip_words_def checksum_add_scalar_eq checksum_add_scalar_def
        add_words_wsum)
  note b = unat_u16 [of "ucast (drop_bit 16 src)"] unat_u16 [of "ucast src"]
    unat_u16 [of "ucast (drop_bit 16 dst)"] unat_u16 [of "ucast dst"] unat_u8 [of p]
  have "ip_words src + ip_words dst + unat p + length seg + wsum seg < 2 ^ 32"
    using w b assms by (simp add: ip_words_def)
  then show ?thesis
    unfolding e unat_of_nat by simp
qed

subsection \<open>What a translation changes\<close>

text \<open>A place where a translation writes: the address, its port, and where the segment starts.\<close>

definition rewrites_at :: "nat \<Rightarrow> nat \<Rightarrow> u8 list \<Rightarrow> bool" where
  "rewrites_at ip_at port_at pkt =
     (let l4 = 14 + header_len pkt
      in 42 \<le> length pkt \<and> 20 \<le> header_len pkt \<and> l4 + 4 \<le> length pkt
         \<and> drop_bit 4 (pkt ! 14) = 4 \<and> pkt ! 23 \<in> {6, 17}
         \<and> (ip_at = 26 \<and> port_at = l4 \<or> ip_at = 30 \<and> port_at = l4 + 2))"

abbreviation rewritten :: "nat \<Rightarrow> nat \<Rightarrow> u8 list \<Rightarrow> ipv4 \<Rightarrow> u16 \<Rightarrow> u8 list" where
  "rewritten ip_at port_at pkt new_ip new_port \<equiv>
     rewrite_fields ip_at port_at pkt 14 (14 + header_len pkt) (get_ip pkt ip_at) (get16 pkt port_at)
       new_ip new_port (pkt ! 23)"

lemma translate_rewrites:
  assumes "translate now pkt dir ne = Some (Ok Translated, pkt', ne')"
  obtains ip_at port_at new_ip new_port where "rewrites_at ip_at port_at pkt"
    "pkt' = rewritten ip_at port_at pkt new_ip new_port"
    "(ip_at, port_at) = (case dir of Outbound \<Rightarrow> (26, 14 + header_len pkt) | Inbound \<Rightarrow> (30, 14 + header_len pkt + 2))"
proof -
  note a = assms [unfolded translate_def Let_def]
  have g: "42 \<le> length pkt" "drop_bit 4 (pkt ! 14) = 4" "20 \<le> header_len pkt"
    "14 + header_len pkt + 4 \<le> length pkt" "pkt ! 23 \<in> {6, 17}"
    using a by (auto split: if_splits simp: not_less)
  show thesis
  proof (cases dir)
    case Outbound
    then have "translate_outbound now pkt 14 (14 + header_len pkt) (get_ip pkt 26) (get_ip pkt 30)
        (get16 pkt (14 + header_len pkt)) (get16 pkt (14 + header_len pkt + 2)) (pkt ! 23) ne
        = Some (Ok Translated, pkt', ne')"
      using a by (auto split: if_splits)
    then obtain ip p where "pkt' = rewritten 26 (14 + header_len pkt) pkt ip p"
      by (auto simp: translate_outbound_def Let_def split: if_splits option.splits)
    then show thesis
      using g Outbound by (intro that [of 26 "14 + header_len pkt"]) (auto simp: rewrites_at_def Let_def)
  next
    case Inbound
    then have "translate_inbound now pkt 14 (14 + header_len pkt) (get_ip pkt 26) (get_ip pkt 30)
        (get16 pkt (14 + header_len pkt)) (get16 pkt (14 + header_len pkt + 2)) (pkt ! 23) ne
        = Some (Ok Translated, pkt', ne')"
      using a by (auto split: if_splits)
    then obtain ip p where "pkt' = rewritten 30 (14 + header_len pkt + 2) pkt ip p"
      by (auto simp: translate_inbound_def Let_def split: if_splits option.splits prod.splits)
    then show thesis
      using g Inbound by (intro that [of 30 "14 + header_len pkt + 2"]) (auto simp: rewrites_at_def Let_def)
  qed
qed

text \<open>The packet after the address, the header checksum and the port were written.\<close>

definition readdressed :: "nat \<Rightarrow> nat \<Rightarrow> u8 list \<Rightarrow> ipv4 \<Rightarrow> u16 \<Rightarrow> u8 list" where
  "readdressed ip_at port_at pkt new_ip new_port =
     put port_at (to_be16 new_port)
       (put 24 (to_be16 (update_checksum_for_ip (get16 pkt 24) (get_ip pkt ip_at) new_ip))
          (put ip_at (to_be32 new_ip) pkt))"

definition l4_at :: "u8 list \<Rightarrow> nat" where
  "l4_at pkt = checksum_offset (pkt ! 23) (14 + header_len pkt)"

definition l4_checksum :: "nat \<Rightarrow> nat \<Rightarrow> u8 list \<Rightarrow> ipv4 \<Rightarrow> u16 \<Rightarrow> u16" where
  "l4_checksum ip_at port_at pkt new_ip new_port =
     update_checksum_for_nat (get16 pkt (l4_at pkt)) (get_ip pkt ip_at) (get16 pkt port_at) new_ip new_port"

lemma rewrites_atD:
  assumes "rewrites_at ip_at port_at pkt"
  shows "ip_at = 26 \<or> ip_at = 30" "14 + header_len pkt \<le> port_at" "port_at + 2 \<le> l4_at pkt"
    "34 \<le> 14 + header_len pkt" "port_at + 2 \<le> length pkt" "even port_at" "even (l4_at pkt)"
    "14 + header_len pkt + 4 \<le> length pkt"
  using assms header_len_less(2) [of pkt]
  by (auto simp: rewrites_at_def Let_def l4_at_def checksum_offset_def)

lemma length_readdressed:
  assumes "rewrites_at ip_at port_at pkt"
  shows "length (readdressed ip_at port_at pkt new_ip new_port) = length pkt"
  using rewrites_atD [OF assms] by (auto simp: readdressed_def)

lemma rewritten_eq:
  assumes "rewrites_at ip_at port_at pkt"
  shows "rewritten ip_at port_at pkt new_ip new_port =
    (let p = readdressed ip_at port_at pkt new_ip new_port
     in if l4_at pkt + 2 \<le> length pkt \<and> (pkt ! 23 \<noteq> 17 \<or> get16 pkt (l4_at pkt) \<noteq> 0)
        then put (l4_at pkt) (to_be16 (l4_checksum ip_at port_at pkt new_ip new_port)) p else p)"
proof -
  note D = rewrites_atD [OF assms]
  have 1: "get16 (put ip_at (to_be32 new_ip) pkt) 24 = get16 pkt 24"
    using D by (intro get16_put_other) auto
  have 2: "get16 (readdressed ip_at port_at pkt new_ip new_port) (l4_at pkt) = get16 pkt (l4_at pkt)"
    if "l4_at pkt + 2 \<le> length pkt"
    using D that by (auto simp: readdressed_def get16_put_other)
  show ?thesis
    using 1 2 length_readdressed [OF assms, of new_ip new_port]
    by (auto simp: rewrite_fields_def Let_def readdressed_def l4_checksum_def l4_at_def)
qed

lemma readdressed_nth:
  assumes "rewrites_at ip_at port_at pkt" "j < length pkt"
    and "j \<notin> {24, 25} \<union> {ip_at ..< ip_at + 4} \<union> {port_at, port_at + 1}"
  shows "readdressed ip_at port_at pkt new_ip new_port ! j = pkt ! j"
  using rewrites_atD [OF assms(1)] assms(2, 3) by (auto simp: readdressed_def nth_put)

lemma rewritten_nth:
  assumes "rewrites_at ip_at port_at pkt" "j < length pkt"
    and "j \<notin> {24, 25} \<union> {ip_at ..< ip_at + 4} \<union> {port_at, port_at + 1} \<union> {l4_at pkt, l4_at pkt + 1}"
  shows "rewritten ip_at port_at pkt new_ip new_port ! j = pkt ! j"
  using assms readdressed_nth [OF assms(1, 2), of new_ip new_port] length_readdressed [OF assms(1)]
  by (auto simp: rewritten_eq [OF assms(1)] Let_def nth_put)

lemma length_rewritten:
  assumes "rewrites_at ip_at port_at pkt"
  shows "length (rewritten ip_at port_at pkt new_ip new_port) = length pkt"
  using length_readdressed [OF assms] by (auto simp: rewritten_eq [OF assms] Let_def)

lemma rewritten_shape:
  assumes "rewrites_at ip_at port_at pkt"
  shows "header_len (rewritten ip_at port_at pkt new_ip new_port) = header_len pkt"
    "rewritten ip_at port_at pkt new_ip new_port ! 14 = pkt ! 14"
    "rewritten ip_at port_at pkt new_ip new_port ! 23 = pkt ! 23"
proof -
  note D = rewrites_atD [OF assms]
  show "rewritten ip_at port_at pkt new_ip new_port ! 14 = pkt ! 14"
    "rewritten ip_at port_at pkt new_ip new_port ! 23 = pkt ! 23"
    using D by (auto intro!: rewritten_nth [OF assms])
  then show "header_len (rewritten ip_at port_at pkt new_ip new_port) = header_len pkt"
    by (simp add: header_len_def)
qed

text \<open>The sums after the rewriting, against those before.\<close>

lemma header_sum_rewritten:
  assumes "rewrites_at ip_at port_at pkt"
  shows "int (wsum (part 14 (14 + header_len pkt) (rewritten ip_at port_at pkt new_ip new_port)))
    = int (wsum (part 14 (14 + header_len pkt) pkt))
      - int (ip_words (get_ip pkt ip_at)) + int (ip_words new_ip)
      - int (unat (get16 pkt 24))
      + int (unat (update_checksum_for_ip (get16 pkt 24) (get_ip pkt ip_at) new_ip))"
proof -
  note D = rewrites_atD [OF assms]
  let ?l4 = "14 + header_len pkt"
  let ?p1 = "put ip_at (to_be32 new_ip) pkt"
  let ?c = "to_be16 (update_checksum_for_ip (get16 pkt 24) (get_ip pkt ip_at) new_ip)"
  let ?p2 = "put 24 ?c ?p1"
  have l: "length ?p1 = length pkt" "length ?p2 = length pkt"
    using D by auto
  have ev: "even (ip_at - 14)"
    using D(1) by auto
  have "part 14 ?l4 (readdressed ip_at port_at pkt new_ip new_port) = part 14 ?l4 ?p2"
    unfolding readdressed_def using D l by (intro part_put_outside) auto
  moreover have "part 14 ?l4 (rewritten ip_at port_at pkt new_ip new_port)
      = part 14 ?l4 (readdressed ip_at port_at pkt new_ip new_port)"
    using D length_readdressed [OF assms, of new_ip new_port]
    by (auto simp: rewritten_eq [OF assms] Let_def part_put_outside)
  moreover have "int (wsum (part 14 ?l4 ?p2)) = int (wsum (part 14 ?l4 ?p1))
      - int (wsum (part 24 (24 + 2) ?p1)) + int (wsum ?c)"
    using wsum_put [of 14 24 ?c ?l4 ?p1] D l by simp
  moreover have "wsum (part 24 (24 + 2) ?p1) = unat (get16 pkt 24)"
    using D l get16_put_other [of ip_at "to_be32 new_ip" pkt 24] by (subst wsum_part_16) auto
  moreover have "int (wsum (part 14 ?l4 ?p1)) = int (wsum (part 14 ?l4 pkt))
      - int (wsum (part ip_at (ip_at + 4) pkt)) + int (ip_words new_ip)"
    using wsum_put [of 14 ip_at "to_be32 new_ip" ?l4 pkt] D ev by auto
  moreover have "wsum (part ip_at (ip_at + 4) pkt) = ip_words (get_ip pkt ip_at)"
    using D by (intro wsum_part_ip) auto
  ultimately show ?thesis
    by simp
qed

lemma segment_sum_rewritten:
  assumes "rewrites_at ip_at port_at pkt" "has_checksum n pkt"
  shows "int (wsum (part (14 + header_len pkt) n (rewritten ip_at port_at pkt new_ip new_port)))
    = int (wsum (part (14 + header_len pkt) n pkt))
      - int (unat (get16 pkt port_at)) + int (unat new_port)
      - int (unat (get16 pkt (l4_at pkt)))
      + int (unat (l4_checksum ip_at port_at pkt new_ip new_port))"
proof -
  note D = rewrites_atD [OF assms(1)]
  have h: "l4_at pkt + 2 \<le> n" "n \<le> length pkt" "pkt ! 23 \<noteq> 17 \<or> get16 pkt (l4_at pkt) \<noteq> 0"
    using assms(2) by (auto simp: has_checksum_def l4_at_def Let_def)
  let ?l4 = "14 + header_len pkt" and ?at = "l4_at pkt"
  let ?p1 = "put ip_at (to_be32 new_ip) pkt"
  let ?p2 = "put 24 (to_be16 (update_checksum_for_ip (get16 pkt 24) (get_ip pkt ip_at) new_ip)) ?p1"
  let ?p3 = "readdressed ip_at port_at pkt new_ip new_port"
  let ?c = "l4_checksum ip_at port_at pkt new_ip new_port"
  have l: "length ?p1 = length pkt" "length ?p2 = length pkt" "length ?p3 = length pkt"
    using D length_readdressed [OF assms(1)] by auto
  have ev: "even ?l4"
    using header_len_less(2) by simp
  have "part ?l4 n ?p2 = part ?l4 n ?p1"
    using D h l by (intro part_put_outside) auto
  moreover have "part ?l4 n ?p1 = part ?l4 n pkt"
    using D h by (intro part_put_outside) auto
  moreover have "int (wsum (part ?l4 n ?p3)) = int (wsum (part ?l4 n ?p2))
      - int (wsum (part port_at (port_at + 2) ?p2)) + int (unat new_port)"
    using wsum_put [of ?l4 port_at "to_be16 new_port" n ?p2] D h l ev by (simp add: readdressed_def)
  moreover have "wsum (part port_at (port_at + 2) ?p2) = unat (get16 pkt port_at)"
    using D l by (subst wsum_part_16) (auto simp: get16_put_other)
  moreover have "rewritten ip_at port_at pkt new_ip new_port = put ?at (to_be16 ?c) ?p3"
    using h D by (simp add: rewritten_eq [OF assms(1)] Let_def)
  moreover have "int (wsum (part ?l4 n (put ?at (to_be16 ?c) ?p3))) = int (wsum (part ?l4 n ?p3))
      - int (wsum (part ?at (?at + 2) ?p3)) + int (unat ?c)"
    using wsum_put [of ?l4 ?at "to_be16 ?c" n ?p3] D h l ev by simp
  moreover have "wsum (part ?at (?at + 2) ?p3) = unat (get16 pkt ?at)"
    using D h l by (subst wsum_part_16) (auto simp: readdressed_def get16_put_other)
  ultimately show ?thesis
    by simp
qed

lemma rewritten_fields:
  assumes "rewrites_at ip_at port_at pkt"
  shows "get_ip (rewritten ip_at port_at pkt new_ip new_port) ip_at = new_ip"
    "get16 (rewritten ip_at port_at pkt new_ip new_port) port_at = new_port"
    "get_ip (rewritten ip_at port_at pkt new_ip new_port) (56 - ip_at) = get_ip pkt (56 - ip_at)"
    "get16 (rewritten ip_at port_at pkt new_ip new_port) (2 * (14 + header_len pkt) + 2 - port_at)
       = get16 pkt (2 * (14 + header_len pkt) + 2 - port_at)"
proof -
  note D = rewrites_atD [OF assms]
  let ?p1 = "put ip_at (to_be32 new_ip) pkt"
  let ?p2 = "put 24 (to_be16 (update_checksum_for_ip (get16 pkt 24) (get_ip pkt ip_at) new_ip)) ?p1"
  let ?p3 = "readdressed ip_at port_at pkt new_ip new_port"
  have l: "length ?p1 = length pkt" "length ?p2 = length pkt" "length ?p3 = length pkt"
    using D length_readdressed [OF assms] by auto
  have at: "14 + header_len pkt + 4 \<le> l4_at pkt"
    by (auto simp: l4_at_def checksum_offset_def)
  have ip: "get_ip (rewritten ip_at port_at pkt new_ip new_port) i = get_ip ?p3 i" if "i + 4 \<le> 34" for i
    using D l that by (auto simp: rewritten_eq [OF assms] Let_def get_ip_put_other)
  have pt: "get16 (rewritten ip_at port_at pkt new_ip new_port) i = get16 ?p3 i"
    if "i + 2 \<le> 14 + header_len pkt + 4" for i
    using D l that at by (auto simp: rewritten_eq [OF assms] Let_def get16_put_other)
  have o: "port_at = 14 + header_len pkt \<or> port_at = 14 + header_len pkt + 2"
    using assms by (auto simp: rewrites_at_def Let_def)
  show "get_ip (rewritten ip_at port_at pkt new_ip new_port) ip_at = new_ip"
    using D l ip [of ip_at] by (auto simp: readdressed_def get_ip_put_other get_ip_put_same)
  show "get16 (rewritten ip_at port_at pkt new_ip new_port) port_at = new_port"
    using D l pt [of port_at] o by (auto simp: readdressed_def get16_put_same)
  show "get_ip (rewritten ip_at port_at pkt new_ip new_port) (56 - ip_at) = get_ip pkt (56 - ip_at)"
    using D l ip [of "56 - ip_at"] by (auto simp: readdressed_def get_ip_put_other)
  show "get16 (rewritten ip_at port_at pkt new_ip new_port) (2 * (14 + header_len pkt) + 2 - port_at)
      = get16 pkt (2 * (14 + header_len pkt) + 2 - port_at)"
    using D l pt [of "2 * (14 + header_len pkt) + 2 - port_at"] o
    by (auto simp: readdressed_def get16_put_other)
qed

lemma header_valid_rewritten:
  assumes "rewrites_at ip_at port_at pkt" "header_valid tgt pkt"
  shows "header_valid tgt (rewritten ip_at port_at pkt new_ip new_port)"
proof -
  note D = rewrites_atD [OF assms(1)]
  let ?pkt = "rewritten ip_at port_at pkt new_ip new_port" and ?l4 = "14 + header_len pkt"
  let ?W = "int (wsum (part 14 ?l4 pkt))" and ?o = "int (ip_words (get_ip pkt ip_at))"
    and ?n = "int (ip_words new_ip)" and ?c = "int (unat (get16 pkt 24))"
    and ?c' = "int (unat (update_checksum_for_ip (get16 pkt 24) (get_ip pkt ip_at) new_ip))"
  have fits: "?l4 \<le> length pkt"
    using D by simp
  have "?W mod 65535 = 0"
    using assms(2) header_valid_iff [OF fits] by simp
  moreover have "?c' mod 65535 = (?c + ?o - ?n) mod 65535"
    by (rule update_ip_mod)
  ultimately have "65535 dvd ?W + (?c' - (?c + ?o - ?n))"
    by (simp only: mod_eq_dvd_iff mod_eq_0_iff_dvd dvd_add)
  then have "(?W - ?o + ?n - ?c + ?c') mod 65535 = 0"
    unfolding mod_eq_0_iff_dvd by (simp only: diff_conv_add_uminus minus_add_distrib minus_minus ac_simps)
  then have "int (wsum (part 14 ?l4 ?pkt)) mod 65535 = 0"
    by (simp only: header_sum_rewritten [OF assms(1)])
  moreover have "wsum (part 14 ?l4 ?pkt) \<noteq> 0"
  proof -
    have "part 14 (14 + 2) ?pkt = [pkt ! 14, ?pkt ! 15]"
      using D length_rewritten [OF assms(1)] rewritten_shape(2) [OF assms(1)]
      by (subst part_pair) (auto simp: eval_nat_numeral)
    moreover have "part 14 ?l4 ?pkt = part 14 (14 + 2) ?pkt @ part (14 + 2) ?l4 ?pkt"
      using D by (intro part_append) auto
    moreover have "pkt ! 14 \<noteq> 0"
      using assms(1) by (auto simp: rewrites_at_def Let_def)
    ultimately show ?thesis
      by (simp add: unat_eq_0)
  qed
  ultimately show ?thesis
    using fits header_valid_iff [of ?pkt] rewritten_shape(1) [OF assms(1)] length_rewritten [OF assms(1)]
    by simp
qed

lemma segment_valid_rewritten:
  assumes "rewrites_at ip_at port_at pkt" "has_checksum n pkt" "segment_valid tgt n pkt"
    and "length pkt \<le> 65535"
  shows "segment_valid tgt n (rewritten ip_at port_at pkt new_ip new_port)"
proof -
  note D = rewrites_atD [OF assms(1)]
  let ?pkt = "rewritten ip_at port_at pkt new_ip new_port" and ?l4 = "14 + header_len pkt"
  let ?tot = "\<lambda>q. ip_words (get_ip q 26) + ip_words (get_ip q 30) + unat (pkt ! 23)
    + length (part ?l4 n q) + wsum (part ?l4 n q)"
  have n: "n \<le> length pkt"
    using assms(2) by (auto simp: has_checksum_def Let_def)
  have len: "length (part ?l4 n pkt) = n - ?l4" "length (part ?l4 n ?pkt) = n - ?l4"
    using n length_rewritten [OF assms(1)] by (simp_all add: length_part)
  have v: "segment_valid tgt n q \<longleftrightarrow> ?tot q \<noteq> 0 \<and> int (?tot q) mod 65535 = 0"
    if "header_len q = header_len pkt" "q ! 23 = pkt ! 23" "length (part ?l4 n q) \<le> 65535" for q
    unfolding segment_valid_def fold_zero_iff that(1, 2) unat_pseudo_sum [OF that(3)] by blast
  let ?o = "int (ip_words (get_ip pkt ip_at))" and ?n = "int (ip_words new_ip)"
    and ?op = "int (unat (get16 pkt port_at))" and ?np = "int (unat new_port)"
    and ?c = "int (unat (get16 pkt (l4_at pkt)))"
    and ?c' = "int (unat (l4_checksum ip_at port_at pkt new_ip new_port))"
  have ips: "int (ip_words (get_ip ?pkt 26)) + int (ip_words (get_ip ?pkt 30))
      = int (ip_words (get_ip pkt 26)) + int (ip_words (get_ip pkt 30)) - ?o + ?n"
    using D(1) rewritten_fields(1, 3) [OF assms(1), of new_ip new_port] by auto
  have t: "int (?tot ?pkt) = int (?tot pkt) - ?o + ?n - ?op + ?np - ?c + ?c'"
    using ips segment_sum_rewritten [OF assms(1, 2), of new_ip new_port] len by simp
  have "?c' mod 65535 = (?c + ?o + ?op - ?n - ?np) mod 65535"
    unfolding l4_checksum_def by (rule update_nat_mod)
  moreover have "int (?tot pkt) mod 65535 = 0"
    using assms(3, 4) v [of pkt] len n by simp
  ultimately have "65535 dvd int (?tot pkt) + (?c' - (?c + ?o + ?op - ?n - ?np))"
    by (simp only: mod_eq_dvd_iff mod_eq_0_iff_dvd dvd_add)
  then have "int (?tot ?pkt) mod 65535 = 0"
    unfolding mod_eq_0_iff_dvd t
    by (simp only: diff_conv_add_uminus minus_add_distrib minus_minus ac_simps)
  moreover have "?tot ?pkt \<noteq> 0"
    using assms(1) by (auto simp: rewrites_at_def Let_def)
  ultimately show ?thesis
    using v [of ?pkt] rewritten_shape [OF assms(1)] len assms(4) n by simp
qed

text \<open>
  C11: Translation keeps packets valid.  For every engine state, in both directions: a translated
  packet has the length it had, a valid IPv4 header checksum stays valid, and so does a valid TCP
  or UDP checksum over the new addresses and ports, with and without IP options; and only the
  address, its port and the two checksums are written.
\<close>

theorem translation_keeps_checksums:
  assumes "translate now pkt dir ne = Some (Ok Translated, pkt', ne')" "length pkt \<le> 65535"
  shows "length pkt' = length pkt
    \<and> (header_valid tgt pkt \<longrightarrow> header_valid tgt pkt')
    \<and> (has_checksum n pkt \<and> segment_valid tgt n pkt \<longrightarrow> segment_valid tgt n pkt')
    \<and> (\<forall>j < length pkt. pkt' ! j \<noteq> pkt ! j \<longrightarrow>
        (let l4 = 14 + header_len pkt; at = checksum_offset (pkt ! 23) l4 in
           j \<in> {24, 25} \<union> {at, at + 1} \<union>
             (case dir of Outbound \<Rightarrow> {26..<30} \<union> {l4, l4 + 1} | Inbound \<Rightarrow> {30..<34} \<union> {l4 + 2, l4 + 3})))"
proof -
  obtain ip_at port_at new_ip new_port where r: "rewrites_at ip_at port_at pkt"
    and p: "pkt' = rewritten ip_at port_at pkt new_ip new_port"
    and d: "(ip_at, port_at) = (case dir of Outbound \<Rightarrow> (26, 14 + header_len pkt) | Inbound \<Rightarrow> (30, 14 + header_len pkt + 2))"
    by (rule translate_rewrites [OF assms(1)])
  have "j \<in> {24, 25} \<union> {ip_at ..< ip_at + 4} \<union> {port_at, port_at + 1} \<union> {l4_at pkt, l4_at pkt + 1}"
    if "j < length pkt" "pkt' ! j \<noteq> pkt ! j" for j
    using rewritten_nth [OF r that(1)] that(2) p by blast
  then show ?thesis
    using length_rewritten [OF r] header_valid_rewritten [OF r] segment_valid_rewritten [OF r _ _ assms(2)] d
    by (cases dir) (auto simp: p Let_def l4_at_def)
qed

subsection \<open>Runs of the engine\<close>

datatype EngineOp = Translate u32 "u8 list" NatDirection | ExpireConnections u32 | SetInternalNetwork ipv4 u8

fun engine_op :: "EngineOp \<Rightarrow> NatEngine \<Rightarrow> NatEngine option" where
  "engine_op (Translate now pkt dir) ne = map_option (\<lambda>(r, pkt', ne'). ne') (translate now pkt dir ne)"
| "engine_op (ExpireConnections now) ne = Some (snd (expire_connections now ne))"
| "engine_op (SetInternalNetwork prefix len) ne = Some (set_internal_network prefix len ne)"

text \<open>An engine with a usable port range, within which it stays.\<close>

definition engine_start :: "NatEngine \<Rightarrow> bool" where
  "engine_start ne =
     (\<exists>c. cf_fast_cache_size c \<le> 2 ^ 63 \<and> cf_port_range_start c \<le> cf_port_range_end c
        \<and> unat (cf_port_range_end c) - unat (cf_port_range_start c) < 65535 \<and> ne = engine_new c)"

definition engine_move :: "NatEngine \<Rightarrow> EngineOp \<Rightarrow> NatEngine \<Rightarrow> bool" where
  "engine_move ne op ne' =
     (engine_op op ne = Some ne' \<and> allocated (ne_conntrack ne') \<le> capacity (ne_conntrack ne'))"

definition engine_ok :: "NatEngine \<Rightarrow> bool" where
  "engine_ok ne = (tracked_ok (ne_conntrack ne) \<and> ct_external_ip (ne_conntrack ne) = ne_external_ip ne)"

lemma record_shared_frame [simp]:
  "ct_external_ip (record_shared now b e t) = ct_external_ip t"
  "ct_entries (record_shared now b e t) = ct_entries t"
  "ct_port_alloc (record_shared now b e t) = ct_port_alloc t"
  "allocated (record_shared now b e t) = allocated t" "capacity (record_shared now b e t) = capacity t"
  by (simp_all add: record_shared_def allocated_def capacity_def)

lemma record_shared_tracked: "tracked_ok t \<Longrightarrow> tracked_ok (record_shared now b e t)"
  using cache_ok_cong [of "record_shared now b e t" t]
  by (simp add: tracked_ok_def record_shared_ok) (simp add: record_shared_def)

lemma lookup_reverse_frame:
  "ct_external_ip (snd (lookup_reverse k t)) = ct_external_ip t"
  "ct_heap (snd (lookup_reverse k t)) = ct_heap t"
  by (simp_all add: lookup_reverse_def lookup_frame split: option.splits)

lemma lookup_reverse_tracked:
  assumes "tracked_ok t"
  shows "tracked_ok (snd (lookup_reverse k t))"
  using tracked_okD [OF assms]
  by (auto simp: lookup_reverse_def tracked_ok_def lookup_ok lookup_cache_ok split: option.splits)

lemma outbound_ok:
  assumes "engine_ok ne" "allocated (ne_conntrack ne') \<le> capacity (ne_conntrack ne')"
    and "translate_outbound now pkt io l4 sip dip sp dp pr ne = Some (r, pkt', ne')"
  shows "engine_ok ne'"
proof (cases "is_internal ne sip")
  case True
  then obtain e t where g: "get_or_create now (key_new sip dip sp dp pr) (ne_conntrack ne) = Some (e, t)"
    using assms(3) by (auto simp: translate_outbound_def split: option.splits)
  then obtain b where b: "ne' = ne\<lparr>ne_conntrack := record_shared now b e t\<rparr>"
    using assms(3) True by (auto simp: translate_outbound_def Let_def)
  have ok: "tracked_ok (ne_conntrack ne)"
    using assms(1) by (simp add: engine_ok_def)
  have "tracked_ok t"
    using get_or_create_ok [OF ok g] assms(2) by (simp add: b)
  then show ?thesis
    using assms(1) make_flow(2) [OF ok g] by (simp add: engine_ok_def b record_shared_tracked)
qed (use assms in \<open>auto simp: translate_outbound_def\<close>)

lemma inbound_ok:
  assumes "engine_ok ne"
    and "translate_inbound now pkt io l4 sip dip sp dp pr ne = Some (r, pkt', ne')"
  shows "engine_ok ne'"
proof -
  let ?k = "key_new sip dip sp dp pr"
  have ok: "tracked_ok (ne_conntrack ne)"
    using assms(1) by (simp add: engine_ok_def)
  have l: "tracked_ok (snd (lookup_reverse ?k (ne_conntrack ne)))"
    "ct_external_ip (snd (lookup_reverse ?k (ne_conntrack ne))) = ne_external_ip ne"
    using lookup_reverse_tracked [OF ok] lookup_reverse_frame(1) assms(1) by (simp_all add: engine_ok_def)
  show ?thesis
    using assms(2) l assms(1)
    by (cases "lookup_reverse ?k (ne_conntrack ne)"; cases "fst (lookup_reverse ?k (ne_conntrack ne))")
      (auto simp: translate_inbound_def Let_def engine_ok_def record_shared_tracked split: if_splits)
qed

lemma translate_ok:
  assumes "engine_ok ne" "allocated (ne_conntrack ne') \<le> capacity (ne_conntrack ne')"
    and "translate now pkt dir ne = Some (r, pkt', ne')"
  shows "engine_ok ne'"
  using assms(3) assms(1)
  by (auto simp: translate_def Let_def split: if_splits NatDirection.splits
      intro: outbound_ok [OF assms(1, 2)] inbound_ok [OF assms(1)])

interpretation engine_inv: invariant_of engine_start engine_move engine_ok
proof
  show "engine_ok s" if st: "engine_start s" for s
  proof -
    obtain c where c: "s = engine_new c" "cf_fast_cache_size c \<le> 2 ^ 63"
      "cf_port_range_start c \<le> cf_port_range_end c"
      "unat (cf_port_range_end c) - unat (cf_port_range_start c) < 65535"
      using st by (auto simp: engine_start_def)
    have "routed_start (ne_conntrack s)"
      unfolding routed_start_def
    proof
      show "table_start (ne_conntrack s)"
        using c(2) unfolding table_start_def c(1) engine_new_def NatEngine.select_convs by blast
      show "range_ok (ne_conntrack s)"
        using c by (simp add: engine_new_def table_new_def Let_def range_ok_def port_allocator_def)
    qed
    then show ?thesis
      using routed_start_ok
      by (simp add: engine_ok_def c(1) engine_new_def table_new_def Let_def)
  qed
  show "engine_ok t" if s: "engine_ok s" and m: "engine_move s op t" for s op t
  proof (cases op)
    case (Translate now pkt dir)
    then show ?thesis
      using m translate_ok [OF s] by (auto simp: engine_move_def)
  next
    case (ExpireConnections now)
    have "tracked_ok (snd (expire_old now (ne_conntrack s)))"
      using s by (auto simp: engine_ok_def tracked_ok_def expire_ok expire_cache_ok)
    moreover have "ct_external_ip (foldl (\<lambda>t k. table_remove k t) u ks) = ct_external_ip u" for u ks
      by (induction ks arbitrary: u) (simp_all add: remove_entries)
    then have "ct_external_ip (snd (expire_old now (ne_conntrack s))) = ct_external_ip (ne_conntrack s)"
      by (simp add: expire_old_def Let_def)
    ultimately show ?thesis
      using m s ExpireConnections
      by (auto simp: engine_move_def expire_connections_def case_prod_beta engine_ok_def)
  next
    case (SetInternalNetwork prefix len)
    then show ?thesis
      using m s by (auto simp: engine_move_def set_internal_network_def engine_ok_def)
  qed
qed

subsection \<open>Replies\<close>

text \<open>A packet the engine translates, and a reply to one.\<close>

definition natable :: "u8 list \<Rightarrow> bool" where
  "natable pkt =
     (42 \<le> length pkt \<and> get16 pkt 12 = 0x0800 \<and> drop_bit 4 (pkt ! 14) = 4 \<and> 20 \<le> header_len pkt
      \<and> 14 + header_len pkt + 4 \<le> length pkt \<and> (pkt ! 23 = 6 \<or> pkt ! 23 = 17))"

definition answers :: "u8 list \<Rightarrow> u8 list \<Rightarrow> bool" where
  "answers pkt r =
     (natable r \<and> r ! 23 = pkt ! 23 \<and> get_ip r 26 = get_ip pkt 30 \<and> get_ip r 30 = get_ip pkt 26
      \<and> get16 r (14 + header_len r) = get16 pkt (14 + header_len pkt + 2)
      \<and> get16 r (14 + header_len r + 2) = get16 pkt (14 + header_len pkt))"

definition key_of :: "u8 list \<Rightarrow> ConnTrackKey" where
  "key_of pkt = key_new (get_ip pkt 26) (get_ip pkt 30) (get16 pkt (14 + header_len pkt))
     (get16 pkt (14 + header_len pkt + 2)) (pkt ! 23)"

lemma natable_rewrites:
  "natable pkt \<Longrightarrow> rewrites_at 26 (14 + header_len pkt) pkt"
  "natable pkt \<Longrightarrow> rewrites_at 30 (14 + header_len pkt + 2) pkt"
  by (auto simp: natable_def rewrites_at_def Let_def)

lemma translate_natable:
  assumes "natable pkt"
  shows "translate now pkt Outbound ne = translate_outbound now pkt 14 (14 + header_len pkt)
      (get_ip pkt 26) (get_ip pkt 30) (get16 pkt (14 + header_len pkt))
      (get16 pkt (14 + header_len pkt + 2)) (pkt ! 23) ne"
    "translate now pkt Inbound ne = translate_inbound now pkt 14 (14 + header_len pkt)
      (get_ip pkt 26) (get_ip pkt 30) (get16 pkt (14 + header_len pkt))
      (get16 pkt (14 + header_len pkt + 2)) (pkt ! 23) ne"
  using assms by (auto simp: natable_def translate_def Let_def)

lemma translated_natable:
  assumes "translate now pkt dir ne = Some (Ok Translated, pkt', ne')"
  shows "natable pkt"
  using assms by (auto simp: translate_def natable_def Let_def split: if_splits)

lemma outbound_translated:
  assumes "engine_ok ne" "natable pkt" "is_internal ne (get_ip pkt 26)"
  obtains e t where "get_or_create now (key_of pkt) (ne_conntrack ne) = Some (e, t)"
    "map_of (ct_entries t) (key_of pkt) = Some e"
    "translate now pkt Outbound ne =
       Some (Ok Translated,
         rewritten 26 (14 + header_len pkt) pkt (ne_external_ip ne) (snd (en_nat_src (ct_heap t ! e))),
         ne\<lparr>ne_conntrack := record_shared now (word_of_nat (length pkt)) e t\<rparr>)"
proof -
  have ok: "tracked_ok (ne_conntrack ne)"
    using assms(1) by (simp add: engine_ok_def)
  obtain e t where g: "get_or_create now (key_of pkt) (ne_conntrack ne) = Some (e, t)"
    using get_or_create_defined [OF ok] by blast
  note m = make_flow [OF ok g]
  have "fst (en_nat_src (ct_heap t ! e)) = ne_external_ip ne"
  proof -
    have "entries_ok t"
    proof (cases "map_of (ct_entries (ne_conntrack ne)) (key_of pkt)")
      case None
      then show ?thesis
        using get_or_create_entries_ok [OF tracked_okD(2) [OF ok] _ g] by simp
    next
      case (Some x)
      then show ?thesis
        using get_or_create_old [OF tracked_okD(1) [OF ok] Some] g lookup_ok(1) [OF tracked_okD(2, 3) [OF ok]]
        by auto
    qed
    then show ?thesis
      using m(1, 2) assms(1) by (auto simp: entries_ok_def entry_fits_def engine_ok_def)
  qed
  then show thesis
    using assms(3) g m(1) length_rewritten [OF natable_rewrites(1) [OF assms(2)]]
    by (intro that [OF g m(1)])
      (simp add: translate_natable [OF assms(2)] translate_outbound_def key_of_def Let_def)
qed

lemma inbound_translated:
  assumes "engine_ok ne" "natable r" "get_ip r 30 = ne_external_ip ne"
    and "map_of (ct_entries (ne_conntrack ne)) k = Some e" "nat_port (ne_conntrack ne) k = Some p"
    and "key_of r = nat_key_of (ne_conntrack ne) k p"
  shows "\<exists>ne'. translate now r Inbound ne =
    Some (Ok Translated, rewritten 30 (14 + header_len r + 2) r (key_src_ip k) (key_src_port k), ne')"
proof -
  have ok: "tracked_ok (ne_conntrack ne)"
    using assms(1) by (simp add: engine_ok_def)
  have l: "fst (lookup_reverse (key_of r) (ne_conntrack ne)) = Some e"
    using lookup_reverse_live [OF ok] assms(4-6) by blast
  have f: "en_orig_src (ct_heap (ne_conntrack ne) ! e) = (key_src_ip k, key_src_port k)"
    using tracked_okD(2) [OF ok] assms(4) by (auto simp: entries_ok_def entry_fits_def)
  show ?thesis
    using l f assms(3) lookup_reverse_frame(2) [of "key_of r" "ne_conntrack ne"]
    by (cases "lookup_reverse (key_of r) (ne_conntrack ne)")
      (simp add: translate_natable [OF assms(2)] translate_inbound_def key_of_def Let_def)
qed

text \<open>
  C12: Replies come home.  In every engine state reached while the port range lasts, an outbound
  packet leaves with the external address and a port of the range, and any reply to it, on the
  very next step, is rewritten to the guest address and port the packet came from, its source
  untouched.
\<close>

theorem replies_come_home:
  assumes "reach engine_start engine_move ne"
    and "translate now pkt Outbound ne = Some (Ok Translated, pkt', ne')"
    and "allocated (ne_conntrack ne') \<le> capacity (ne_conntrack ne')" "answers pkt' r"
  shows "get_ip pkt' 26 = ne_external_ip ne
    \<and> pa_start (ct_port_alloc (ne_conntrack ne')) \<le> get16 pkt' (14 + header_len pkt')
    \<and> get16 pkt' (14 + header_len pkt') \<le> pa_end (ct_port_alloc (ne_conntrack ne'))
    \<and> (\<exists>r' ne''. translate now' r Inbound ne' = Some (Ok Translated, r', ne'')
        \<and> get_ip r' 30 = get_ip pkt 26
        \<and> get16 r' (14 + header_len r + 2) = get16 pkt (14 + header_len pkt)
        \<and> get_ip r' 26 = get_ip pkt 30
        \<and> get16 r' (14 + header_len r) = get16 pkt (14 + header_len pkt + 2))"
proof -
  have ok: "engine_ok ne"
    by (rule engine_inv.holds_reach [OF assms(1)])
  have nat: "natable pkt"
    by (rule translated_natable [OF assms(2)])
  have ok': "engine_ok ne'"
    by (rule translate_ok [OF ok assms(3, 2)])
  have int: "is_internal ne (get_ip pkt 26)"
    using assms(2) by (auto simp: translate_natable [OF nat] translate_outbound_def split: if_splits)
  let ?l4 = "14 + header_len pkt"
  note rw = natable_rewrites(1) [OF nat]
  obtain e t where g: "map_of (ct_entries t) (key_of pkt) = Some e"
    and tr: "translate now pkt Outbound ne = Some (Ok Translated,
      rewritten 26 ?l4 pkt (ne_external_ip ne) (snd (en_nat_src (ct_heap t ! e))),
      ne\<lparr>ne_conntrack := record_shared now (word_of_nat (length pkt)) e t\<rparr>)"
    by (rule outbound_translated [OF ok nat int])
  let ?p = "snd (en_nat_src (ct_heap t ! e))" and ?k = "key_of pkt"
  have pkt': "pkt' = rewritten 26 ?l4 pkt (ne_external_ip ne) ?p"
    and ne': "ne' = ne\<lparr>ne_conntrack := record_shared now (word_of_nat (length pkt)) e t\<rparr>"
    using tr assms(2) by simp_all
  have f: "get_ip pkt' 26 = ne_external_ip ne" "get16 pkt' ?l4 = ?p" "header_len pkt' = header_len pkt"
    "get_ip pkt' 30 = get_ip pkt 30" "get16 pkt' (?l4 + 2) = get16 pkt (?l4 + 2)" "pkt' ! 23 = pkt ! 23"
    using rewritten_fields [OF rw, of "ne_external_ip ne" ?p] rewritten_shape [OF rw]
    by (simp_all add: pkt' add.commute)
  have live: "map_of (ct_entries (ne_conntrack ne')) ?k = Some e"
    using g by (simp add: ne')
  have np: "nat_port (ne_conntrack ne') ?k = Some ?p"
    using live by (cases "e < length (ct_heap t)")
      (auto simp: nat_port_def ne' record_shared_def record_packet_def touch_entry_def
        list_update_beyond not_less)
  have T: "tracked_ok (ne_conntrack ne')"
    using ok' by (simp add: engine_ok_def)
  have R: "unat (pa_start (ct_port_alloc (ne_conntrack ne'))) \<le> unat ?p
      \<and> unat ?p < unat (pa_start (ct_port_alloc (ne_conntrack ne'))) + capacity (ne_conntrack ne')"
    using routes_bound [OF tracked_okD(3) [OF T] np] routes_range [OF tracked_okD(3) [OF T]] by linarith
  then have range: "pa_start (ct_port_alloc (ne_conntrack ne')) \<le> ?p" "?p \<le> pa_end (ct_port_alloc (ne_conntrack ne'))"
    using routes_range [OF tracked_okD(3) [OF T]]
    by (auto simp: word_le_nat_alt capacity_def range_ok_def)
  have a: "natable r" "r ! 23 = pkt ! 23" "get_ip r 26 = get_ip pkt 30" "get_ip r 30 = ne_external_ip ne"
    "get16 r (14 + header_len r) = get16 pkt (?l4 + 2)" "get16 r (14 + header_len r + 2) = ?p"
    using assms(4) f by (simp_all add: answers_def)
  have ext: "ne_external_ip ne' = ne_external_ip ne" "ct_external_ip (ne_conntrack ne') = ne_external_ip ne"
    using ok' by (simp_all add: ne' engine_ok_def)
  have "key_of r = nat_key_of (ne_conntrack ne') ?k ?p"
    using a ext by (simp add: key_of_def [of r] nat_key_of_def) (simp add: key_of_def key_new_def)
  then obtain ne'' where i: "translate now' r Inbound ne'
      = Some (Ok Translated, rewritten 30 (14 + header_len r + 2) r (key_src_ip ?k) (key_src_port ?k), ne'')"
    using inbound_translated [OF ok' a(1) _ live np] a(4) ext by auto
  let ?r = "rewritten 30 (14 + header_len r + 2) r (key_src_ip ?k) (key_src_port ?k)"
  note rf = rewritten_fields [OF natable_rewrites(2) [OF a(1)], of "key_src_ip ?k" "key_src_port ?k"]
  have "get_ip ?r 30 = get_ip pkt 26" "get16 ?r (14 + header_len r + 2) = get16 pkt ?l4"
    "get_ip ?r 26 = get_ip pkt 30" "get16 ?r (14 + header_len r) = get16 pkt (?l4 + 2)"
    using rf a(3, 5) by (simp_all add: key_of_def key_new_def add.commute)
  then show ?thesis
    using i f range by auto
qed

subsection \<open>Concrete packets\<close>

text \<open>The packet that answers another: addresses and ports exchanged.\<close>

definition reply_to :: "u8 list \<Rightarrow> u8 list" where
  "reply_to pkt =
     (let l4 = 14 + header_len pkt
      in put l4 (to_be16 (get16 pkt (l4 + 2))) (put (l4 + 2) (to_be16 (get16 pkt l4))
           (put 26 (to_be32 (get_ip pkt 30)) (put 30 (to_be32 (get_ip pkt 26)) pkt))))"

lemma reply_to_answers:
  assumes "natable pkt"
  shows "answers pkt (reply_to pkt)"
proof -
  let ?l4 = "14 + header_len pkt" and ?r = "reply_to pkt"
  let ?p1 = "put 30 (to_be32 (get_ip pkt 26)) pkt"
  let ?p2 = "put 26 (to_be32 (get_ip pkt 30)) ?p1"
  let ?p3 = "put (?l4 + 2) (to_be16 (get16 pkt ?l4)) ?p2"
  have g: "34 \<le> ?l4" "?l4 + 4 \<le> length pkt"
    using assms by (simp_all add: natable_def)
  have l: "length ?p1 = length pkt" "length ?p2 = length pkt" "length ?p3 = length pkt" "length ?r = length pkt"
    using g by (simp_all add: reply_to_def Let_def)
  have nth: "?r ! j = pkt ! j" if "j < 26" for j
    using that g l by (simp add: reply_to_def Let_def nth_put)
  have h: "header_len ?r = header_len pkt"
    by (simp add: header_len_def nth)
  have "get16 ?r 12 = get16 pkt 12"
    by (simp add: get16_def nth)
  then have n: "natable ?r"
    using assms nth h l by (simp add: natable_def)
  have "get_ip ?r 26 = get_ip pkt 30" "get_ip ?r 30 = get_ip pkt 26"
    "get16 ?r ?l4 = get16 pkt (?l4 + 2)" "get16 ?r (?l4 + 2) = get16 pkt ?l4"
    using g l by (simp_all add: reply_to_def Let_def get_ip_put_other get_ip_put_same
        get16_put_other get16_put_same)
  then show ?thesis
    using n nth h by (simp add: answers_def)
qed

lemma natable_translated:
  assumes "translate now pkt dir ne = Some (Ok Translated, pkt', ne')"
  shows "natable pkt'"
proof -
  obtain ip_at port_at ip p where r: "rewrites_at ip_at port_at pkt"
    and p: "pkt' = rewritten ip_at port_at pkt ip p"
    by (rule translate_rewrites [OF assms])
  have n: "natable pkt"
    by (rule translated_natable [OF assms])
  have "pkt' ! j = pkt ! j" if "j < 24" for j
    unfolding p by (rule rewritten_nth [OF r]) (use that n rewrites_atD [OF r] in \<open>auto simp: natable_def\<close>)
  then have "get16 pkt' 12 = get16 pkt 12"
    by (simp add: get16_def)
  then show ?thesis
    using n rewritten_shape [OF r] length_rewritten [OF r] by (simp add: natable_def p)
qed

definition sample_packet :: "u8 list" where
  "sample_packet = [0, 0, 0, 0, 0, 0, 0, 0, 0, 0, 0, 0, 8, 0]
     @ [69, 0, 0, 28, 0, 0, 0, 0, 64, 17, 0, 0, 192, 168, 64, 2, 8, 8, 8, 8]
     @ [78, 32, 37, 205, 0, 8, 123, 54]"

definition sample_engine :: NatEngine where
  "sample_engine = with_external_ip (ip4 10 0 0 1)"

lemma sample_packet_natable: "natable sample_packet" "header_len sample_packet = 20"
proof -
  show h: "header_len sample_packet = 20"
    by (simp add: header_len_def sample_packet_def)
  show "natable sample_packet"
    unfolding natable_def h by (simp add: sample_packet_def get16_def be16_def)
qed

lemma sample_packet_fields:
  "get_ip sample_packet 26 = ip4 192 168 64 2" "get_ip sample_packet 30 = ip4 8 8 8 8"
  "get16 sample_packet 34 = 20000" "get16 sample_packet 36 = 9677" "sample_packet ! 23 = 17"
  "get16 sample_packet 40 = 31542" "length sample_packet = 42"
  by (simp_all add: sample_packet_def get_ip_def get16_def be16_def)

lemma sample_engine_start: "engine_start sample_engine"
  unfolding engine_start_def sample_engine_def with_external_ip_def
  by (intro exI [of _ "config_new (ip4 10 0 0 1)"]) (simp add: config_new_def default_config_def)

lemma sample_engine_ok: "engine_ok sample_engine"
  by (rule engine_inv.holds_reach, rule reach_start, rule sample_engine_start)

lemma sample_internal: "is_internal sample_engine (get_ip sample_packet 26)"
  by (simp add: sample_packet_fields is_internal_def sample_engine_def with_external_ip_def
      engine_new_def ip4_def be32_def be16_def)

lemma sample_translated:
  obtains pkt' ne' where "translate now sample_packet Outbound sample_engine = Some (Ok Translated, pkt', ne')"
    "pkt' = rewritten 26 34 sample_packet (ip4 10 0 0 1) 49152"
    "allocated (ne_conntrack ne') \<le> capacity (ne_conntrack ne')"
proof -
  let ?t = "ne_conntrack sample_engine" and ?k = "key_of sample_packet"
  have s: "ct_entries ?t = []" "ct_heap ?t = []" "ct_port_alloc ?t = port_allocator 49152 65535"
    "ne_external_ip sample_engine = ip4 10 0 0 1"
    by (simp_all add: sample_engine_def with_external_ip_def engine_new_def config_new_def
        default_config_def table_new_def Let_def)
  have a: "allocate_port (ct_port_alloc ?t) = Some (49152, (port_allocator 49152 65535)\<lparr>pa_current := 49153\<rparr>)"
    by (simp add: s allocate_port_def port_range_def port_allocator_def Let_def)
  obtain t where n: "get_or_create now ?k ?t = Some (length (ct_heap ?t), t)"
    "ct_heap t = ct_heap ?t @ [new_snat now (key_src_ip ?k, key_src_port ?k)
        (key_dst_ip ?k, key_dst_port ?k) (ct_external_ip ?t, 49152) (key_protocol ?k)]"
    "ct_port_alloc t = (port_allocator 49152 65535)\<lparr>pa_current := 49153\<rparr>"
    using get_or_create_new [OF _ a, of ?k now] by (auto simp: s)
  obtain e u where u: "get_or_create now ?k ?t = Some (e, u)"
    "translate now sample_packet Outbound sample_engine = Some (Ok Translated,
       rewritten 26 (14 + header_len sample_packet) sample_packet (ne_external_ip sample_engine)
         (snd (en_nat_src (ct_heap u ! e))),
       sample_engine\<lparr>ne_conntrack := record_shared now (word_of_nat (length sample_packet)) e u\<rparr>)"
    by (rule outbound_translated [OF sample_engine_ok sample_packet_natable(1) sample_internal])
  have eu: "e = 0" "u = t"
    using u(1) n(1) s by simp_all
  show thesis
  proof (rule that [OF u(2)])
    show "rewritten 26 (14 + header_len sample_packet) sample_packet (ne_external_ip sample_engine)
        (snd (en_nat_src (ct_heap u ! e))) = rewritten 26 34 sample_packet (ip4 10 0 0 1) 49152"
      using s n(2) by (simp add: sample_packet_natable eu new_snat_def)
    show "allocated (ne_conntrack (sample_engine\<lparr>ne_conntrack := record_shared now (word_of_nat (length sample_packet)) e u\<rparr>))
        \<le> capacity (ne_conntrack (sample_engine\<lparr>ne_conntrack := record_shared now (word_of_nat (length sample_packet)) e u\<rparr>))"
      by (simp add: eu allocated_def capacity_def n(3) port_allocator_def)
  qed
qed

theorem translation_keeps_checksums_witness:
  "\<exists>pkt' ne'. translate 0 sample_packet Outbound sample_engine = Some (Ok Translated, pkt', ne')
    \<and> length pkt' = length sample_packet
    \<and> (has_checksum 42 sample_packet \<and> segment_valid OtherArch 42 sample_packet
        \<longrightarrow> segment_valid OtherArch 42 pkt')"
proof -
  obtain pkt' ne' where t: "translate 0 sample_packet Outbound sample_engine = Some (Ok Translated, pkt', ne')"
    by (rule sample_translated)
  have "length sample_packet \<le> 65535"
    by (simp add: sample_packet_fields)
  from translation_keeps_checksums [OF t this, of OtherArch 42] show ?thesis
    using t by blast
qed

theorem replies_come_home_witness:
  "\<exists>pkt' ne' r' ne''. translate 0 sample_packet Outbound sample_engine = Some (Ok Translated, pkt', ne')
    \<and> translate 1 (reply_to pkt') Inbound ne' = Some (Ok Translated, r', ne'')
    \<and> get_ip r' 30 = get_ip sample_packet 26"
proof -
  obtain pkt' ne' where t: "translate 0 sample_packet Outbound sample_engine = Some (Ok Translated, pkt', ne')"
    "allocated (ne_conntrack ne') \<le> capacity (ne_conntrack ne')"
    by (rule sample_translated)
  have r: "reach engine_start engine_move sample_engine"
    by (rule reach_start) (rule sample_engine_start)
  from replies_come_home [OF r t reply_to_answers [OF natable_translated [OF t(1)]], of 1]
  show ?thesis
    using t(1) by blast
qed

text \<open>
  C34: A UDP checksum can vanish.  A datagram with a valid, non-zero checksum is translated into one
  whose checksum field is zero, which means that it carries none: the update does not replace a
  computed zero by 0xFFFF as \<open>udp_checksum\<close> does.
\<close>

theorem udp_checksum_can_vanish:
  "\<exists>pkt ne pkt' ne'. translate 0 pkt Outbound ne = Some (Ok Translated, pkt', ne')
    \<and> pkt ! 23 = 17 \<and> segment_valid tgt (length pkt) pkt
    \<and> get16 pkt (checksum_offset 17 (14 + header_len pkt)) \<noteq> 0
    \<and> get16 pkt' (checksum_offset 17 (14 + header_len pkt)) = 0"
proof -
  note f = sample_packet_fields and h = sample_packet_natable(2)
  obtain pkt' ne' where t: "translate 0 sample_packet Outbound sample_engine = Some (Ok Translated, pkt', ne')"
    "pkt' = rewritten 26 34 sample_packet (ip4 10 0 0 1) 49152"
    by (rule sample_translated)
  have r: "rewrites_at 26 34 sample_packet"
    using natable_rewrites(1) [OF sample_packet_natable(1)] by (simp add: h)
  have at: "l4_at sample_packet = 40"
    by (simp add: l4_at_def checksum_offset_def h f)
  have "l4_checksum 26 34 sample_packet (ip4 10 0 0 1) 49152 = 0"
    unfolding l4_checksum_def at
    by (simp add: f update_checksum_for_nat_def update_checksum_for_ip_def update_checksum_for_port_def
        incremental_checksum_update_32_def Let_def ip4_def be32_halves word_unat_eq_iff unat_incremental
        ones_def)
  moreover have "get16 pkt' 40 = l4_checksum 26 34 sample_packet (ip4 10 0 0 1) 49152"
    using rewritten_eq [OF r, of "ip4 10 0 0 1" 49152] length_readdressed [OF r]
    by (simp add: t(2) at f h Let_def get16_put_same)
  moreover have "segment_valid tgt 42 sample_packet"
  proof -
    let ?seg = "[78, 32, 37, 205, 0, 8, 123, 54] :: u8 list"
    have seg: "part (14 + 20) 42 sample_packet = ?seg"
      by (simp add: part_def sample_packet_def)
    have "unat (pseudo_sum tgt (ip4 192 168 64 2) (ip4 8 8 8 8) (ucast (17 :: u8)) ?seg) = 131070"
      by (subst unat_pseudo_sum) (simp_all add: ip_words_def ip4_def be32_halves)
    then show ?thesis
      unfolding segment_valid_def h f seg fold_zero_iff by (simp only:) simp
  qed
  ultimately show ?thesis
    using t(1) f(5-7) by (intro exI [of _ sample_packet] exI [of _ sample_engine] exI [of _ pkt'] exI [of _ ne'])
      (simp add: h checksum_offset_def)
qed

text \<open>
  C35: Which addresses count as internal.  With a prefix of one to thirty-two bits exactly those
  that agree with the network in these bits; a prefix of length zero, which should admit every
  address, admits only the network address itself.
\<close>

theorem internal_network_exact:
  "is_internal (set_internal_network prefix len ne) ip \<longleftrightarrow>
     (if len = 0 \<or> 32 \<le> len then ip = prefix
      else drop_bit (32 - unat len) ip = drop_bit (32 - unat len) prefix)"
proof -
  have p: "a AND NOT (mask n) = push_bit n (drop_bit n a)" for a :: u32 and n
    by (rule bit_word_eqI) (auto simp: bit_and_iff bit_not_iff bit_mask_iff bit_push_bit_iff bit_drop_bit_eq)
  have d: "drop_bit n (a AND NOT (mask n)) = drop_bit n a" for a :: u32 and n
    by (rule bit_word_eqI) (auto simp: bit_and_iff bit_not_iff bit_mask_iff bit_drop_bit_eq dest: bit_imp_le_length)
  have top: "a AND NOT (mask n) = b AND NOT (mask n) \<longleftrightarrow> drop_bit n a = drop_bit n b"
    for a b :: u32 and n
    using p [of a n] p [of b n] d [of n a] d [of n b] by metis
  consider "len = 0" | "32 \<le> len" | "len \<noteq> 0" "len < 32"
    by fastforce
  then show ?thesis
  proof cases
    case 1
    then show ?thesis
      by (simp add: is_internal_def set_internal_network_def)
  next
    case 2
    have "(0xFFFFFFFF :: u32) = - 1"
      by simp
    then have "a AND 0xFFFFFFFF = a" for a :: u32
      by (simp only: and.right_neutral)
    then show ?thesis
      using 2 by (simp add: is_internal_def set_internal_network_def)
  next
    case 3
    then have u: "unat len \<noteq> 0" "unat len < 32"
      by (simp_all add: unat_eq_0 word_less_nat_alt)
    have "unat (32 - len) = 32 - unat len"
      using 3 by (simp add: unat_sub)
    then have "push_bit (unat (32 - len) mod 32) 1 - 1 = (mask (32 - unat len) :: u32)"
      using u by (simp add: mask_eq_exp_minus_1 push_bit_of_1)
    then show ?thesis
      using 3 top by (auto simp: is_internal_def set_internal_network_def not_le)
  qed
qed

end
