(* ===== verification/Dhcp_Packet.thy ===== *)
theory Dhcp_Packet
  imports Net_Bytes
begin

unbundle bit_operations_syntax

section \<open>DHCP configuration and messages\<close>

text \<open>
  The configuration and the wire format of \<open>src/virt/arcbox-dhcp/src/config.rs\<close> and
  \<open>packet.rs\<close>.  A \<open>String\<close> is the list of its UTF-8 bytes; a buffer is written by index from front
  to back, as the code writes it.
\<close>

subsection \<open>Configuration\<close>

record DhcpConfig =
  dc_server_ip :: ipv4
  dc_netmask :: ipv4
  dc_gateway :: ipv4
  dc_dns_servers :: "ipv4 list"
  dc_lease_duration :: duration
  dc_pool_start :: ipv4
  dc_pool_end :: ipv4
  dc_domain_name :: "u8 list option"

definition DEFAULT_LEASE_DURATION :: duration where
  "DEFAULT_LEASE_DURATION = nanos_of_secs (24 * 3600)"

definition saturating_add :: "u32 \<Rightarrow> u32 \<Rightarrow> u32" where
  "saturating_add a b = (if a + b < a then - 1 else a + b)"

definition saturating_sub :: "u32 \<Rightarrow> u32 \<Rightarrow> u32" where
  "saturating_sub a b = (if a < b then 0 else a - b)"

definition dhcp_config_new :: "ipv4 \<Rightarrow> ipv4 \<Rightarrow> DhcpConfig" where
  "dhcp_config_new server_ip netmask =
     (let network = server_ip AND netmask;
          broadcast = network OR NOT netmask;
          host_min = saturating_add network 1;
          host_max = saturating_sub broadcast 1;
          pool_start = (if host_min = server_ip then saturating_add host_min 1 else host_min);
          pool_end = min (saturating_add pool_start 252) host_max
      in \<lparr>dc_server_ip = server_ip, dc_netmask = netmask, dc_gateway = server_ip,
          dc_dns_servers = [server_ip], dc_lease_duration = DEFAULT_LEASE_DURATION,
          dc_pool_start = pool_start, dc_pool_end = pool_end, dc_domain_name = None\<rparr>)"

definition with_gateway :: "ipv4 \<Rightarrow> DhcpConfig \<Rightarrow> DhcpConfig" where
  "with_gateway gateway c = c\<lparr>dc_gateway := gateway\<rparr>"

definition with_dns_servers :: "ipv4 list \<Rightarrow> DhcpConfig \<Rightarrow> DhcpConfig" where
  "with_dns_servers servers c = c\<lparr>dc_dns_servers := servers\<rparr>"

definition with_lease_duration :: "duration \<Rightarrow> DhcpConfig \<Rightarrow> DhcpConfig" where
  "with_lease_duration d c = c\<lparr>dc_lease_duration := d\<rparr>"

definition with_pool_range :: "ipv4 \<Rightarrow> ipv4 \<Rightarrow> DhcpConfig \<Rightarrow> DhcpConfig" where
  "with_pool_range lo hi c = c\<lparr>dc_pool_start := lo, dc_pool_end := hi\<rparr>"

definition with_domain_name :: "u8 list \<Rightarrow> DhcpConfig \<Rightarrow> DhcpConfig" where
  "with_domain_name name c = c\<lparr>dc_domain_name := Some name\<rparr>"

datatype DhcpError = Protocol string | PoolExhausted

subsection \<open>Messages\<close>

datatype DhcpMessageType = Discover | Offer | Request | Decline | Ack | Nak | Release | Inform

fun message_code :: "DhcpMessageType \<Rightarrow> u8" where
  "message_code DhcpMessageType.Discover = 1"
| "message_code DhcpMessageType.Offer = 2"
| "message_code DhcpMessageType.Request = 3"
| "message_code DhcpMessageType.Decline = 4"
| "message_code DhcpMessageType.Ack = 5"
| "message_code DhcpMessageType.Nak = 6"
| "message_code DhcpMessageType.Release = 7"
| "message_code DhcpMessageType.Inform = 8"

definition message_of :: "u8 \<Rightarrow> DhcpMessageType option" where
  "message_of v =
     (if v = 1 then Some DhcpMessageType.Discover
      else if v = 2 then Some DhcpMessageType.Offer
      else if v = 3 then Some DhcpMessageType.Request
      else if v = 4 then Some DhcpMessageType.Decline
      else if v = 5 then Some DhcpMessageType.Ack
      else if v = 6 then Some DhcpMessageType.Nak
      else if v = 7 then Some DhcpMessageType.Release
      else if v = 8 then Some DhcpMessageType.Inform
      else None)"

record DhcpPacket =
  dp_op :: u8
  dp_htype :: u8
  dp_hlen :: u8
  dp_hops :: u8
  dp_xid :: u32
  dp_secs :: u16
  dp_flags :: u16
  dp_ciaddr :: ipv4
  dp_yiaddr :: ipv4
  dp_siaddr :: ipv4
  dp_giaddr :: ipv4
  dp_chaddr :: "u8 list"
  dp_message_type :: "DhcpMessageType option"
  dp_requested_ip :: "ipv4 option"
  dp_hostname :: "u8 list option"

definition MAGIC_COOKIE :: "u8 list" where
  "MAGIC_COOKIE = [99, 130, 83, 99]"

definition MIN_SIZE :: nat where
  "MIN_SIZE = 236"

definition packet_new :: DhcpPacket where
  "packet_new =
     \<lparr>dp_op = 0, dp_htype = 1, dp_hlen = 6, dp_hops = 0, dp_xid = 0, dp_secs = 0, dp_flags = 0,
      dp_ciaddr = 0, dp_yiaddr = 0, dp_siaddr = 0, dp_giaddr = 0, dp_chaddr = replicate 16 0,
      dp_message_type = None, dp_requested_ip = None, dp_hostname = None\<rparr>"

text \<open>\<open>String::from_utf8\<close>: the well-formed byte sequences of the Unicode standard.\<close>

definition cont :: "u8 \<Rightarrow> bool" where
  "cont b = (0x80 \<le> b \<and> b \<le> 0xBF)"

fun valid_utf8 :: "u8 list \<Rightarrow> bool" where
  "valid_utf8 [] = True"
| "valid_utf8 (a # r) =
     (if a \<le> 0x7F then valid_utf8 r
      else case r of [] \<Rightarrow> False
      | b # r \<Rightarrow>
        if 0xC2 \<le> a \<and> a \<le> 0xDF then cont b \<and> valid_utf8 r
        else case r of [] \<Rightarrow> False
        | c # r \<Rightarrow>
          if a = 0xE0 then 0xA0 \<le> b \<and> b \<le> 0xBF \<and> cont c \<and> valid_utf8 r
          else if 0xE1 \<le> a \<and> a \<le> 0xEC \<or> a = 0xEE \<or> a = 0xEF then cont b \<and> cont c \<and> valid_utf8 r
          else if a = 0xED then 0x80 \<le> b \<and> b \<le> 0x9F \<and> cont c \<and> valid_utf8 r
          else case r of [] \<Rightarrow> False
          | d # r \<Rightarrow>
            if a = 0xF0 then 0x90 \<le> b \<and> b \<le> 0xBF \<and> cont c \<and> cont d \<and> valid_utf8 r
            else if 0xF1 \<le> a \<and> a \<le> 0xF3 then cont b \<and> cont c \<and> cont d \<and> valid_utf8 r
            else if a = 0xF4 then 0x80 \<le> b \<and> b \<le> 0x8F \<and> cont c \<and> cont d \<and> valid_utf8 r
            else False)"

text \<open>
  The option loop, on what remains of the options.  An option that is cut off ends it.
\<close>

definition parse_option :: "u8 \<Rightarrow> u8 list \<Rightarrow> DhcpPacket \<Rightarrow> DhcpPacket" where
  "parse_option code option_data packet =
     (if code = 53 \<and> option_data \<noteq> [] then
        packet\<lparr>dp_message_type := message_of (option_data ! 0)\<rparr>
      else if code = 50 \<and> 4 \<le> length option_data then
        packet\<lparr>dp_requested_ip :=
          Some (ip4 (option_data ! 0) (option_data ! 1) (option_data ! 2) (option_data ! 3))\<rparr>
      else if code = 12 then
        packet\<lparr>dp_hostname := (if valid_utf8 option_data then Some option_data else None)\<rparr>
      else packet)"

function parse_options :: "DhcpPacket \<Rightarrow> u8 list \<Rightarrow> DhcpPacket" where
  "parse_options packet [] = packet"
| "parse_options packet (code # rest) =
     (if code = 255 then packet
      else if code = 0 then parse_options packet rest
      else case rest of [] \<Rightarrow> packet
      | len # body \<Rightarrow>
          if length body < unat len then packet
          else parse_options (parse_option code (take (unat len) body) packet) (drop (unat len) body))"
  by pat_completeness auto
termination by (relation "measure (\<lambda>(p, xs). length xs)") auto

definition parse :: "u8 list \<Rightarrow> (DhcpPacket, DhcpError) result" where
  "parse data =
     (if length data < MIN_SIZE then Err (Protocol ''packet too short'')
      else
        (let packet = packet_new
               \<lparr>dp_op := data ! 0, dp_htype := data ! 1, dp_hlen := data ! 2, dp_hops := data ! 3,
                dp_xid := be32 (data ! 4) (data ! 5) (data ! 6) (data ! 7),
                dp_secs := be16 (data ! 8) (data ! 9), dp_flags := be16 (data ! 10) (data ! 11),
                dp_ciaddr := get_ip data 12, dp_yiaddr := get_ip data 16,
                dp_siaddr := get_ip data 20, dp_giaddr := get_ip data 24,
                dp_chaddr := part 28 44 data\<rparr>;
             options_start = 236
         in if options_start + 4 < length data \<and> part options_start (options_start + 4) data = MAGIC_COOKIE
            then Ok (parse_options packet (drop (options_start + 4) data))
            else Ok packet))"

text \<open>Writing, with the offset of the next option.\<close>

definition put_option :: "u8 \<Rightarrow> u8 list \<Rightarrow> u8 list \<times> nat \<Rightarrow> u8 list \<times> nat" where
  "put_option code value st =
     (case st of (data, offset) \<Rightarrow>
        let data = put offset [code] data;
            data = put (offset + 1) [word_of_nat (length value)] data;
            data = put (offset + 2) value data
        in (data, offset + 2 + length value))"

definition lease_secs :: "DhcpConfig \<Rightarrow> u32" where
  "lease_secs config = word_of_nat (dc_lease_duration config div nanos_of_secs 1)"

definition put_dns :: "DhcpConfig \<Rightarrow> u8 list \<times> nat \<Rightarrow> u8 list \<times> nat" where
  "put_dns config st =
     (if dc_dns_servers config = [] then st
      else case st of (data, offset) \<Rightarrow>
        let count = min (length (dc_dns_servers config)) 63;
            needed = offset + 2 + count * 4 + 1;
            data = (if needed > length data then data @ replicate (needed - length data) 0 else data);
            data = put offset [6] data;
            data = put (offset + 1) [word_of_nat (count * 4)] data;
            offset = offset + 2
        in foldl (\<lambda>(data, offset) dns. (put offset (to_be32 dns) data, offset + 4)) (data, offset)
             (take count (dc_dns_servers config)))"

definition serialize_dhcp :: "DhcpConfig \<Rightarrow> DhcpPacket \<Rightarrow> u8 list" where
  "serialize_dhcp config p =
     (let data = replicate 576 0;
          data = put 0 [dp_op p] data;
          data = put 1 [dp_htype p] data;
          data = put 2 [dp_hlen p] data;
          data = put 3 [dp_hops p] data;
          data = put 4 (to_be32 (dp_xid p)) data;
          data = put 8 (to_be16 (dp_secs p)) data;
          data = put 10 (to_be16 (dp_flags p)) data;
          data = put 12 (to_be32 (dp_ciaddr p)) data;
          data = put 16 (to_be32 (dp_yiaddr p)) data;
          data = put 20 (to_be32 (dp_siaddr p)) data;
          data = put 24 (to_be32 (dp_giaddr p)) data;
          data = put 28 (dp_chaddr p) data;
          offset = 236;
          data = put offset MAGIC_COOKIE data;
          st = (data, offset + 4);
          st = (case dp_message_type p of
                  Some msg_type \<Rightarrow> put_option 53 [message_code msg_type] st
                | None \<Rightarrow> st);
          st = put_option 1 (to_be32 (dc_netmask config)) st;
          st = put_option 3 (to_be32 (dc_gateway config)) st;
          st = put_option 51 (to_be32 (lease_secs config)) st;
          st = put_option 54 (to_be32 (dc_server_ip config)) st;
          st = put_dns config st
      in case st of (data, offset) \<Rightarrow>
           let data = put offset [255] data in take (offset + 1) data)"

definition client_mac :: "DhcpPacket \<Rightarrow> u8 list" where
  "client_mac p = take 6 (dp_chaddr p)"

subsection \<open>What is written\<close>

lemma put_at: "n = length pre \<Longrightarrow> put n bs (pre @ rest) = (pre @ bs) @ drop (length bs) rest"
  by (simp add: put_append)

lemma take_whole: "n = length xs \<Longrightarrow> take n (xs @ ys) = xs"
  by simp

lemma put_option_append:
  "put_option code v (pre @ rest, length pre)
     = ((pre @ code # word_of_nat (length v) # v) @ drop (2 + length v) rest,
        length (pre @ code # word_of_nat (length v) # v))"
proof -
  let ?l = "word_of_nat (length v) :: u8"
  have "put (length pre) [code] (pre @ rest) = (pre @ [code]) @ drop 1 rest"
    by (subst put_at) simp_all
  moreover have "put (length pre + 1) [?l] ((pre @ [code]) @ drop 1 rest) = (pre @ [code, ?l]) @ drop 2 rest"
    by (subst put_at) (simp_all add: numeral_2_eq_2)
  moreover have "put (length pre + 2) v ((pre @ [code, ?l]) @ drop 2 rest)
      = (pre @ code # ?l # v) @ drop (2 + length v) rest"
    by (subst put_at) (simp_all add: add.commute)
  ultimately show ?thesis
    by (simp add: put_option_def Let_def)
qed

lemma put_addresses:
  "foldl (\<lambda>(data, offset) dns. (put offset (to_be32 dns) data, offset + 4)) (pre @ rest, length pre) ips
     = ((pre @ concat (map to_be32 ips)) @ drop (4 * length ips) rest,
        length (pre @ concat (map to_be32 ips)))"
proof (induction ips arbitrary: pre rest)
  case (Cons ip ips)
  have "put (length pre) (to_be32 ip) (pre @ rest) = (pre @ to_be32 ip) @ drop 4 rest"
    by (subst put_at) simp_all
  then show ?case
    using Cons.IH [of "pre @ to_be32 ip" "drop 4 rest"] by (simp add: add.commute)
qed simp

definition dns_option :: "DhcpConfig \<Rightarrow> u8 list" where
  "dns_option config =
     (let ips = take 63 (dc_dns_servers config)
      in if ips = [] then [] else 6 # word_of_nat (4 * length ips) # concat (map to_be32 ips))"

lemma put_dns_append:
  "\<exists>rest'. put_dns config (pre @ rest, length pre)
     = ((pre @ dns_option config) @ rest', length (pre @ dns_option config))"
proof (cases "dc_dns_servers config = []")
  case False
  let ?ips = "take (min (length (dc_dns_servers config)) 63) (dc_dns_servers config)"
  let ?l = "word_of_nat (min (length (dc_dns_servers config)) 63 * 4) :: u8"
  let ?needed = "length pre + 2 + min (length (dc_dns_servers config)) 63 * 4 + 1"
  have "\<exists>rest1. (if ?needed > length (pre @ rest)
      then (pre @ rest) @ replicate (?needed - length (pre @ rest)) 0 else pre @ rest) = pre @ rest1"
    by (cases "?needed > length (pre @ rest)") (simp_all only: if_True if_False append_assoc, blast+)
  then obtain rest1 where r: "(if ?needed > length (pre @ rest)
      then (pre @ rest) @ replicate (?needed - length (pre @ rest)) 0 else pre @ rest) = pre @ rest1"
    by blast
  have "put (length pre) [6] (pre @ rest1) = (pre @ [6]) @ drop 1 rest1"
    by (subst put_at) simp_all
  moreover have "put (length pre + 1) [?l] ((pre @ [6]) @ drop 1 rest1) = (pre @ [6, ?l]) @ drop 2 rest1"
    by (subst put_at) (simp_all add: numeral_2_eq_2)
  ultimately have "put_dns config (pre @ rest, length pre)
      = foldl (\<lambda>(data, offset) dns. (put offset (to_be32 dns) data, offset + 4))
          ((pre @ [6, ?l]) @ drop 2 rest1, length (pre @ [6, ?l])) ?ips"
    using False by (simp only: put_dns_def Let_def prod.case r if_False)
      (simp add: numeral_2_eq_2)
  moreover have "take 63 (dc_dns_servers config) = ?ips"
    by (simp add: min_def)
  moreover have "length ?ips = min (length (dc_dns_servers config)) 63"
    by simp
  ultimately show ?thesis
    using False put_addresses [of "pre @ [6, ?l]" "drop 2 rest1" ?ips]
    by (auto simp: dns_option_def Let_def mult.commute)
qed (auto simp: put_dns_def dns_option_def)

definition header_bytes :: "DhcpPacket \<Rightarrow> u8 list" where
  "header_bytes p =
     [dp_op p, dp_htype p, dp_hlen p, dp_hops p] @ to_be32 (dp_xid p) @ to_be16 (dp_secs p)
     @ to_be16 (dp_flags p) @ to_be32 (dp_ciaddr p) @ to_be32 (dp_yiaddr p) @ to_be32 (dp_siaddr p)
     @ to_be32 (dp_giaddr p) @ dp_chaddr p"

definition option_bytes :: "DhcpConfig \<Rightarrow> DhcpPacket \<Rightarrow> u8 list" where
  "option_bytes config p =
     (case dp_message_type p of Some t \<Rightarrow> [53, 1, message_code t] | None \<Rightarrow> [])
     @ [1, 4] @ to_be32 (dc_netmask config) @ [3, 4] @ to_be32 (dc_gateway config)
     @ [51, 4] @ to_be32 (lease_secs config) @ [54, 4] @ to_be32 (dc_server_ip config)
     @ dns_option config @ [255]"

lemma header_written:
  assumes "length (dp_chaddr p) = 16"
  shows "put 28 (dp_chaddr p) (put 24 (to_be32 (dp_giaddr p)) (put 20 (to_be32 (dp_siaddr p))
    (put 16 (to_be32 (dp_yiaddr p)) (put 12 (to_be32 (dp_ciaddr p)) (put 10 (to_be16 (dp_flags p))
    (put 8 (to_be16 (dp_secs p)) (put 4 (to_be32 (dp_xid p)) (put 3 [dp_hops p] (put 2 [dp_hlen p]
    (put 1 [dp_htype p] (put 0 [dp_op p] (replicate 576 0)))))))))))) = header_bytes p @ replicate 532 0"
proof -
  obtain x0 x1 x2 x3 where x: "to_be32 (dp_xid p) = [x0, x1, x2, x3]"
    using to_be32_bytes by blast
  obtain c0 c1 c2 c3 where c: "to_be32 (dp_ciaddr p) = [c0, c1, c2, c3]"
    using to_be32_bytes by blast
  obtain y0 y1 y2 y3 where y: "to_be32 (dp_yiaddr p) = [y0, y1, y2, y3]"
    using to_be32_bytes by blast
  obtain s0 s1 s2 s3 where s: "to_be32 (dp_siaddr p) = [s0, s1, s2, s3]"
    using to_be32_bytes by blast
  obtain g0 g1 g2 g3 where g: "to_be32 (dp_giaddr p) = [g0, g1, g2, g3]"
    using to_be32_bytes by blast
  obtain t0 t1 where t: "to_be16 (dp_secs p) = [t0, t1]"
    using to_be16_bytes by blast
  obtain f0 f1 where f: "to_be16 (dp_flags p) = [f0, f1]"
    using to_be16_bytes by blast
  show ?thesis
    using assms by (simp add: header_bytes_def x c y s g t f put_def)
qed

lemma length_header: "length (dp_chaddr p) = 16 \<Longrightarrow> length (header_bytes p) = 44"
  by (simp add: header_bytes_def)

lemma serialize_shape:
  assumes "length (dp_chaddr p) = 16"
  shows "serialize_dhcp config p = header_bytes p @ replicate 192 0 @ MAGIC_COOKIE @ option_bytes config p"
proof -
  let ?pre = "header_bytes p @ replicate 192 0 @ MAGIC_COOKIE"
  have l: "length ?pre = 240"
    using assms by (simp add: length_header MAGIC_COOKIE_def)
  have cookie: "put 236 MAGIC_COOKIE (header_bytes p @ replicate 532 0) = ?pre @ replicate 336 0"
  proof -
    have "replicate 532 (0 :: u8) = replicate 192 0 @ replicate 340 0"
      by (simp flip: replicate_add)
    then have "put 236 MAGIC_COOKIE (header_bytes p @ replicate 532 0)
        = put 236 MAGIC_COOKIE ((header_bytes p @ replicate 192 0) @ replicate 340 0)"
      by simp
    also have "\<dots> = ((header_bytes p @ replicate 192 0) @ MAGIC_COOKIE) @ drop (length MAGIC_COOKIE) (replicate 340 0)"
      using assms by (subst put_at) (simp_all add: length_header)
    finally show ?thesis
      by (simp add: MAGIC_COOKIE_def)
  qed
  define m where "m = (case dp_message_type p of Some t \<Rightarrow> [53, 1, message_code t] | None \<Rightarrow> [])"
  have m: "\<exists>rest. (case dp_message_type p of Some t \<Rightarrow> put_option 53 [message_code t] (?pre @ replicate 336 0, 240)
      | None \<Rightarrow> (?pre @ replicate 336 0, 240)) = ((?pre @ m) @ rest, length (?pre @ m))"
  proof (cases "dp_message_type p")
    case (Some t)
    then show ?thesis
      using put_option_append [of 53 "[message_code t]" ?pre "replicate 336 0", unfolded l]
      by (intro exI [of _ "replicate 333 0"]) (simp add: m_def)
  qed (use l in \<open>simp add: m_def\<close>)
  have opt: "\<exists>rest'. put_option code (to_be32 ip) (pre @ rest, length pre)
      = ((pre @ [code, 4] @ to_be32 ip) @ rest', length (pre @ [code, 4] @ to_be32 ip))" for code ip pre rest
    using put_option_append [of code "to_be32 ip" pre rest] by auto
  let ?o = "?pre @ m @ [1, 4] @ to_be32 (dc_netmask config) @ [3, 4] @ to_be32 (dc_gateway config)
     @ [51, 4] @ to_be32 (lease_secs config) @ [54, 4] @ to_be32 (dc_server_ip config)
     @ dns_option config"
  obtain rest where "serialize_dhcp config p = take (length ?o + 1) (put (length ?o) [255] (?o @ rest))"
  proof -
    obtain r0 where r0: "(case dp_message_type p of Some t \<Rightarrow> put_option 53 [message_code t] (?pre @ replicate 336 0, 240)
      | None \<Rightarrow> (?pre @ replicate 336 0, 240)) = ((?pre @ m) @ r0, length (?pre @ m))"
      using m by blast
    obtain r1 where r1: "put_option 1 (to_be32 (dc_netmask config)) ((?pre @ m) @ r0, length (?pre @ m))
      = (((?pre @ m) @ [1, 4] @ to_be32 (dc_netmask config)) @ r1, length ((?pre @ m) @ [1, 4] @ to_be32 (dc_netmask config)))"
      using opt by blast
    let ?p1 = "(?pre @ m) @ [1, 4] @ to_be32 (dc_netmask config)"
    obtain r2 where r2: "put_option 3 (to_be32 (dc_gateway config)) (?p1 @ r1, length ?p1)
      = ((?p1 @ [3, 4] @ to_be32 (dc_gateway config)) @ r2, length (?p1 @ [3, 4] @ to_be32 (dc_gateway config)))"
      using opt by blast
    let ?p2 = "?p1 @ [3, 4] @ to_be32 (dc_gateway config)"
    obtain r3 where r3: "put_option 51 (to_be32 (lease_secs config)) (?p2 @ r2, length ?p2)
      = ((?p2 @ [51, 4] @ to_be32 (lease_secs config)) @ r3, length (?p2 @ [51, 4] @ to_be32 (lease_secs config)))"
      using opt by blast
    let ?p3 = "?p2 @ [51, 4] @ to_be32 (lease_secs config)"
    obtain r4 where r4: "put_option 54 (to_be32 (dc_server_ip config)) (?p3 @ r3, length ?p3)
      = ((?p3 @ [54, 4] @ to_be32 (dc_server_ip config)) @ r4, length (?p3 @ [54, 4] @ to_be32 (dc_server_ip config)))"
      using opt by blast
    let ?p4 = "?p3 @ [54, 4] @ to_be32 (dc_server_ip config)"
    obtain r5 where r5: "put_dns config (?p4 @ r4, length ?p4)
      = ((?p4 @ dns_option config) @ r5, length (?p4 @ dns_option config))"
      using put_dns_append by blast
    have n240: "(236 :: nat) + 4 = 240"
      by simp
    have "serialize_dhcp config p = take (length (?p4 @ dns_option config) + 1)
        (put (length (?p4 @ dns_option config)) [255] ((?p4 @ dns_option config) @ r5))"
      unfolding serialize_dhcp_def Let_def header_written [OF assms] cookie
      by (simp only: n240 r0 r1 r2 r3 r4 r5 prod.case)
    then show thesis
      by (intro that [of r5]) simp
  qed
  also have "put (length ?o) [255] (?o @ rest) = (?o @ [255]) @ drop 1 rest"
    by (subst put_at) simp_all
  also have "take (length ?o + 1) ((?o @ [255]) @ drop 1 rest) = ?o @ [255]"
    by (rule take_whole) simp
  finally show ?thesis
    by (simp add: option_bytes_def m_def)
qed

subsection \<open>What is read back\<close>

lemma parse_one:
  assumes "code \<noteq> 0" "code \<noteq> 255" "unat len = length v"
  shows "parse_options p (code # len # v @ rest) = parse_options (parse_option code v p) rest"
  using assms by simp

lemma parse_skipped:
  assumes "code \<notin> {0, 255, 53, 50, 12}" "unat len = length v"
  shows "parse_options p (code # len # v @ rest) = parse_options p rest"
  using assms parse_one [of code len v p rest] by (simp add: parse_option_def)

lemma parse_dns: "parse_options p (dns_option config @ rest) = parse_options p rest"
proof (cases "take 63 (dc_dns_servers config) = []")
  case False
  let ?ips = "take 63 (dc_dns_servers config)"
  have l: "length (concat (map to_be32 ips)) = 4 * length ips" for ips
    by (induction ips) simp_all
  have "4 * length ?ips < 256"
    by simp
  then have "unat (word_of_nat (4 * length ?ips) :: u8) = length (concat (map to_be32 ?ips))"
    unfolding unat_of_nat l by simp
  from parse_skipped [OF _ this, of 6 p rest] show ?thesis
    using False by (simp add: dns_option_def Let_def del: parse_options.simps)
qed (simp add: dns_option_def)

lemma message_roundtrip: "message_of (message_code t) = Some t"
  by (cases t) (simp_all add: message_of_def)

lemma parse_written_options:
  "parse_options q (option_bytes config p)
     = (case dp_message_type p of Some t \<Rightarrow> q\<lparr>dp_message_type := Some t\<rparr> | None \<Rightarrow> q)"
proof -
  have s: "parse_options r (c # 4 # to_be32 ip @ rest) = parse_options r rest"
    if "c \<notin> {0, 255, 53, 50, 12}" for r c ip rest
    using that by (intro parse_skipped) simp_all
  have rest: "parse_options r ([1, 4] @ to_be32 (dc_netmask config) @ [3, 4] @ to_be32 (dc_gateway config)
     @ [51, 4] @ to_be32 (lease_secs config) @ [54, 4] @ to_be32 (dc_server_ip config)
     @ dns_option config @ [255]) = r" for r
    by (simp add: s parse_dns del: parse_options.simps) simp
  show ?thesis
  proof (cases "dp_message_type p")
    case None
    then show ?thesis
      using rest by (simp add: option_bytes_def del: parse_options.simps)
  next
    case (Some t)
    have "parse_options q (53 # 1 # [message_code t] @ xs)
        = parse_options (q\<lparr>dp_message_type := Some t\<rparr>) xs" for xs
      by (subst parse_one) (simp_all add: parse_option_def message_roundtrip)
    then show ?thesis
      using rest Some by (simp add: option_bytes_def del: parse_options.simps)
  qed
qed

lemma parse_serialized:
  assumes "length (dp_chaddr p) = 16"
  shows "parse (serialize_dhcp config p) = Ok (p\<lparr>dp_requested_ip := None, dp_hostname := None\<rparr>)"
proof -
  let ?d = "serialize_dhcp config p"
  note shape = serialize_shape [OF assms, of config]
  have l: "length (header_bytes p) = 44"
    by (rule length_header [OF assms])
  have drop: "drop 240 ?d = option_bytes config p" "part 236 240 ?d = MAGIC_COOKIE" "240 < length ?d"
    using l by (simp_all add: shape part_def MAGIC_COOKIE_def option_bytes_def)
  have nth: "?d ! i = header_bytes p ! i" if "i < 44" for i
    using that l by (simp add: shape nth_append)
  obtain x0 x1 x2 x3 where x: "to_be32 (dp_xid p) = [x0, x1, x2, x3]" "be32 x0 x1 x2 x3 = dp_xid p"
    using to_be32_bytes by blast
  obtain c0 c1 c2 c3 where c: "to_be32 (dp_ciaddr p) = [c0, c1, c2, c3]" "be32 c0 c1 c2 c3 = dp_ciaddr p"
    using to_be32_bytes by blast
  obtain y0 y1 y2 y3 where y: "to_be32 (dp_yiaddr p) = [y0, y1, y2, y3]" "be32 y0 y1 y2 y3 = dp_yiaddr p"
    using to_be32_bytes by blast
  obtain s0 s1 s2 s3 where s: "to_be32 (dp_siaddr p) = [s0, s1, s2, s3]" "be32 s0 s1 s2 s3 = dp_siaddr p"
    using to_be32_bytes by blast
  obtain g0 g1 g2 g3 where g: "to_be32 (dp_giaddr p) = [g0, g1, g2, g3]" "be32 g0 g1 g2 g3 = dp_giaddr p"
    using to_be32_bytes by blast
  obtain t0 t1 where t: "to_be16 (dp_secs p) = [t0, t1]" "be16 t0 t1 = dp_secs p"
    using to_be16_bytes by blast
  obtain f0 f1 where f: "to_be16 (dp_flags p) = [f0, f1]" "be16 f0 f1 = dp_flags p"
    using to_be16_bytes by blast
  have h: "header_bytes p = [dp_op p, dp_htype p, dp_hlen p, dp_hops p, x0, x1, x2, x3, t0, t1, f0, f1,
      c0, c1, c2, c3, y0, y1, y2, y3, s0, s1, s2, s3, g0, g1, g2, g3] @ dp_chaddr p"
    by (simp add: header_bytes_def x c y s g t f)
  have ch: "part 28 44 ?d = dp_chaddr p"
    using assms by (simp add: shape part_def h)
  have q: "\<lparr>dp_op = dp_op p, dp_htype = dp_htype p, dp_hlen = dp_hlen p, dp_hops = dp_hops p,
      dp_xid = dp_xid p, dp_secs = dp_secs p, dp_flags = dp_flags p, dp_ciaddr = dp_ciaddr p,
      dp_yiaddr = dp_yiaddr p, dp_siaddr = dp_siaddr p, dp_giaddr = dp_giaddr p,
      dp_chaddr = dp_chaddr p, dp_message_type = None, dp_requested_ip = None, dp_hostname = None\<rparr>
    = p\<lparr>dp_message_type := None, dp_requested_ip := None, dp_hostname := None\<rparr>"
    by (cases p) simp
  have "parse ?d = Ok (parse_options (p\<lparr>dp_message_type := None, dp_requested_ip := None, dp_hostname := None\<rparr>)
      (option_bytes config p))"
    using drop by (simp add: parse_def MIN_SIZE_def Let_def nth h get_ip_def ip4_def x c y s g t f ch packet_new_def q)
  then show ?thesis
    by (cases "dp_message_type p") (simp_all add: parse_written_options)
qed

text \<open>
  C16: Messages survive the wire.  Whatever the configuration, parsing what the server serialized
  gives the message back, field by field, apart from the requested address and the host name, which
  are never written; with up to 63 name servers, beyond the initial buffer where needed.
\<close>

theorem dhcp_roundtrip:
  assumes "length (dp_chaddr p) = 16"
  shows "parse (serialize_dhcp config p) = Ok (p\<lparr>dp_requested_ip := None, dp_hostname := None\<rparr>)"
  by (rule parse_serialized [OF assms])

theorem dhcp_roundtrip_witness:
  "parse (serialize_dhcp (dhcp_config_new (ip4 192 168 64 1) (ip4 255 255 255 0)) packet_new)
     = Ok (packet_new\<lparr>dp_requested_ip := None, dp_hostname := None\<rparr>)"
  by (rule dhcp_roundtrip) (simp add: packet_new_def)

end
