(* ===== verification/Dhcp_Server.thy ===== *)
theory Dhcp_Server
  imports Dhcp_Packet "HOL-Library.AList"
begin

section \<open>The DHCP server\<close>

text \<open>
  The address pool of \<open>src/virt/arcbox-dhcp/src/allocator.rs\<close> and the server of \<open>server.rs\<close>.
  Hash maps are association lists with distinct keys, a hash set is a list without repetitions.
  An operation that reads the clock takes the instant as an argument, in nanoseconds of the
  monotonic clock; a panic is \<open>None\<close>.
\<close>

subsection \<open>The address pool\<close>

record IpAllocator =
  ia_start :: u32
  ia_end :: u32
  ia_allocated :: "u32 list"
  ia_next :: u32

definition allocator_new :: "ipv4 \<Rightarrow> ipv4 \<Rightarrow> IpAllocator option" where
  "allocator_new lo hi =
     (if lo \<le> hi then Some \<lparr>ia_start = lo, ia_end = hi, ia_allocated = [], ia_next = lo\<rparr> else None)"

definition step_next :: "IpAllocator \<Rightarrow> IpAllocator" where
  "step_next a = a\<lparr>ia_next := (if ia_next a \<ge> ia_end a then ia_start a else ia_next a + 1)\<rparr>"

text \<open>The loop over the range, as many rounds as it has addresses.\<close>

fun allocate_loop :: "nat \<Rightarrow> IpAllocator \<Rightarrow> ipv4 option \<times> IpAllocator" where
  "allocate_loop 0 a = (None, a)"
| "allocate_loop (Suc n) a =
     (if ia_next a \<notin> set (ia_allocated a) then
        (let addr = ia_next a
         in (Some addr, step_next (a\<lparr>ia_allocated := List.insert addr (ia_allocated a)\<rparr>)))
      else allocate_loop n (step_next a))"

definition range_size :: "IpAllocator \<Rightarrow> nat" where
  "range_size a = unat (ia_end a) - unat (ia_start a) + 1"

definition allocate :: "IpAllocator \<Rightarrow> ipv4 option \<times> IpAllocator" where
  "allocate a = allocate_loop (range_size a) a"

definition allocate_specific :: "ipv4 \<Rightarrow> IpAllocator \<Rightarrow> bool \<times> IpAllocator" where
  "allocate_specific ip a =
     (if ip < ia_start a \<or> ip > ia_end a then (False, a)
      else if ip \<in> set (ia_allocated a) then (False, a)
      else (True, a\<lparr>ia_allocated := List.insert ip (ia_allocated a)\<rparr>))"

definition release_ip :: "ipv4 \<Rightarrow> IpAllocator \<Rightarrow> IpAllocator" where
  "release_ip ip a = a\<lparr>ia_allocated := removeAll ip (ia_allocated a)\<rparr>"

definition is_available :: "IpAllocator \<Rightarrow> ipv4 \<Rightarrow> bool" where
  "is_available a ip = (ip \<ge> ia_start a \<and> ip \<le> ia_end a \<and> ip \<notin> set (ia_allocated a))"

definition allocated_count :: "IpAllocator \<Rightarrow> nat" where
  "allocated_count a = length (ia_allocated a)"

definition available_count :: "IpAllocator \<Rightarrow> nat" where
  "available_count a = range_size a - length (ia_allocated a)"

subsection \<open>Leases\<close>

type_synonym mac = "u8 list"

record DhcpLease =
  dl_mac :: mac
  dl_ip :: ipv4
  dl_hostname :: "u8 list option"
  dl_lease_start :: nat
  dl_lease_duration :: duration

definition lease_expired :: "nat \<Rightarrow> DhcpLease \<Rightarrow> bool" where
  "lease_expired now l = (now - dl_lease_start l \<ge> dl_lease_duration l)"

definition time_remaining :: "nat \<Rightarrow> DhcpLease \<Rightarrow> duration" where
  "time_remaining now l =
     (let elapsed = now - dl_lease_start l
      in if elapsed \<ge> dl_lease_duration l then 0 else dl_lease_duration l - elapsed)"

record DhcpReply =
  dr_payload :: "u8 list"
  dr_destination :: ipv4

definition DECLINE_QUARANTINE :: duration where
  "DECLINE_QUARANTINE = nanos_of_secs (5 * 60)"

record DhcpServer =
  ds_config :: DhcpConfig
  ds_allocator :: IpAllocator
  ds_leases :: "(mac \<times> DhcpLease) list"
  ds_reservations :: "(mac \<times> ipv4) list"
  ds_declined_ips :: "(ipv4 \<times> nat) list"

definition server_new :: "DhcpConfig \<Rightarrow> DhcpServer option" where
  "server_new config =
     map_option (\<lambda>a. \<lparr>ds_config = config, ds_allocator = a, ds_leases = [], ds_reservations = [],
                      ds_declined_ips = []\<rparr>)
       (allocator_new (dc_pool_start config) (dc_pool_end config))"

definition reserve_ip :: "mac \<Rightarrow> ipv4 \<Rightarrow> DhcpServer \<Rightarrow> DhcpServer option" where
  "reserve_ip mac ip s =
     (if \<not> is_available (ds_allocator s) ip then None
      else Some (s\<lparr>ds_allocator := snd (allocate_specific ip (ds_allocator s)),
                   ds_reservations := AList.update mac ip (ds_reservations s)\<rparr>))"

definition remove_reservation :: "mac \<Rightarrow> DhcpServer \<Rightarrow> DhcpServer" where
  "remove_reservation mac s =
     (case map_of (ds_reservations s) mac of
        None \<Rightarrow> s
      | Some ip \<Rightarrow> s\<lparr>ds_reservations := AList.delete mac (ds_reservations s),
                      ds_allocator := release_ip ip (ds_allocator s)\<rparr>)"

text \<open>One expired lease and one address whose quarantine is over.\<close>

definition drop_lease :: "mac \<Rightarrow> DhcpServer \<Rightarrow> DhcpServer" where
  "drop_lease mac s =
     (case map_of (ds_leases s) mac of
        None \<Rightarrow> s
      | Some lease \<Rightarrow> s\<lparr>ds_leases := AList.delete mac (ds_leases s),
                         ds_allocator := release_ip (dl_ip lease) (ds_allocator s)\<rparr>)"

definition end_quarantine :: "ipv4 \<Rightarrow> DhcpServer \<Rightarrow> DhcpServer" where
  "end_quarantine ip s =
     (let s = s\<lparr>ds_declined_ips := AList.delete ip (ds_declined_ips s)\<rparr>;
          reserved = list_ex (\<lambda>(_, r). r = ip) (ds_reservations s);
          leased = list_ex (\<lambda>(_, l). dl_ip l = ip) (ds_leases s)
      in if reserved \<or> leased then s
         else s\<lparr>ds_allocator := release_ip ip (ds_allocator s)\<rparr>)"

definition cleanup_expired_leases :: "nat \<Rightarrow> DhcpServer \<Rightarrow> DhcpServer" where
  "cleanup_expired_leases now s =
     (let expired = map fst (filter (\<lambda>(mac, lease). lease_expired now lease
            \<and> map_of (ds_reservations s) mac = None) (ds_leases s));
          s = foldl (\<lambda>s mac. drop_lease mac s) s expired;
          expired_declines = map fst (filter (\<lambda>(_, quarantined_at).
            now - quarantined_at \<ge> DECLINE_QUARANTINE) (ds_declined_ips s))
      in foldl (\<lambda>s ip. end_quarantine ip s) s expired_declines)"

subsection \<open>Messages\<close>

definition response :: "DhcpServer \<Rightarrow> DhcpPacket \<Rightarrow> DhcpMessageType \<Rightarrow> ipv4 \<Rightarrow> DhcpPacket" where
  "response s packet t yiaddr =
     packet_new\<lparr>dp_op := 2, dp_xid := dp_xid packet, dp_yiaddr := yiaddr,
        dp_siaddr := dc_server_ip (ds_config s), dp_flags := dp_flags packet,
        dp_chaddr := dp_chaddr packet, dp_message_type := Some t\<rparr>"

definition grant :: "nat \<Rightarrow> DhcpPacket \<Rightarrow> ipv4 \<Rightarrow> DhcpServer \<Rightarrow> DhcpServer" where
  "grant now packet ip s =
     s\<lparr>ds_leases := AList.update (client_mac packet)
        \<lparr>dl_mac = client_mac packet, dl_ip = ip, dl_hostname = dp_hostname packet,
         dl_lease_start = now, dl_lease_duration = dc_lease_duration (ds_config s)\<rparr> (ds_leases s)\<rparr>"

text \<open>The address a discover is offered, with the pool after it.\<close>

definition choose_ip :: "DhcpPacket \<Rightarrow> DhcpServer \<Rightarrow> ipv4 option \<times> IpAllocator" where
  "choose_ip packet s =
     (let mac = client_mac packet; a = ds_allocator s
      in case map_of (ds_reservations s) mac of
           Some reserved_ip \<Rightarrow> (Some reserved_ip, a)
         | None \<Rightarrow>
             (case map_of (ds_leases s) mac of
                Some lease \<Rightarrow> (Some (dl_ip lease), a)
              | None \<Rightarrow>
                  (case dp_requested_ip packet of
                     Some requested \<Rightarrow>
                       (if is_available a requested
                        then (Some requested, snd (allocate_specific requested a))
                        else allocate a)
                   | None \<Rightarrow> allocate a)))"

definition handle_discover ::
  "nat \<Rightarrow> DhcpPacket \<Rightarrow> DhcpServer \<Rightarrow> (DhcpPacket, DhcpError) result \<times> DhcpServer" where
  "handle_discover now packet s =
     (let s = cleanup_expired_leases now s;
          (ip, a) = choose_ip packet s;
          s = s\<lparr>ds_allocator := a\<rparr>
      in case ip of
           None \<Rightarrow> (Err PoolExhausted, s)
         | Some ip \<Rightarrow> (Ok (response s packet DhcpMessageType.Offer ip), grant now packet ip s))"

definition asked_ip :: "DhcpPacket \<Rightarrow> ipv4 option" where
  "asked_ip packet =
     (case dp_requested_ip packet of
        Some ip \<Rightarrow> Some ip
      | None \<Rightarrow> if dp_ciaddr packet \<noteq> 0 then Some (dp_ciaddr packet) else None)"

definition handle_request ::
  "nat \<Rightarrow> DhcpPacket \<Rightarrow> DhcpServer \<Rightarrow> (DhcpPacket, DhcpError) result \<times> DhcpServer" where
  "handle_request now packet s =
     (case asked_ip packet of
        None \<Rightarrow> (Err (Protocol ''no IP requested''), s)
      | Some requested_ip \<Rightarrow>
          (let mac = client_mac packet;
               (valid, a) =
                 (case map_of (ds_leases s) mac of
                    Some lease \<Rightarrow> (dl_ip lease = requested_ip, ds_allocator s)
                  | None \<Rightarrow>
                      (case map_of (ds_reservations s) mac of
                         Some reserved \<Rightarrow> (reserved = requested_ip, ds_allocator s)
                       | None \<Rightarrow> allocate_specific requested_ip (ds_allocator s)));
               s = s\<lparr>ds_allocator := a\<rparr>
           in if \<not> valid then (Ok (response s packet DhcpMessageType.Nak 0), s)
              else (Ok (response s packet DhcpMessageType.Ack requested_ip), grant now packet requested_ip s)))"

definition handle_release :: "DhcpPacket \<Rightarrow> DhcpServer \<Rightarrow> DhcpServer" where
  "handle_release packet s =
     (let mac = client_mac packet
      in case map_of (ds_leases s) mac of
           None \<Rightarrow> s
         | Some lease \<Rightarrow>
             (let s = s\<lparr>ds_leases := AList.delete mac (ds_leases s)\<rparr>
              in if map_of (ds_reservations s) mac = None
                 then s\<lparr>ds_allocator := release_ip (dl_ip lease) (ds_allocator s)\<rparr> else s))"

definition handle_decline :: "nat \<Rightarrow> DhcpPacket \<Rightarrow> DhcpServer \<Rightarrow> DhcpServer" where
  "handle_decline now packet s =
     (case dp_requested_ip packet of
        None \<Rightarrow> s
      | Some ip \<Rightarrow>
          (let mac = client_mac packet;
               lease_ip = map_option dl_ip (map_of (ds_leases s) mac);
               reserved_ip = map_of (ds_reservations s) mac
           in if lease_ip \<noteq> Some ip \<and> reserved_ip \<noteq> Some ip then s
              else
                (let s = (if lease_ip = Some ip then s\<lparr>ds_leases := AList.delete mac (ds_leases s)\<rparr> else s)
                 in s\<lparr>ds_declined_ips := AList.update ip now (ds_declined_ips s)\<rparr>)))"

definition reply_to_client :: "DhcpPacket \<Rightarrow> DhcpPacket \<Rightarrow> DhcpServer \<Rightarrow> DhcpReply" where
  "reply_to_client packet resp s =
     \<lparr>dr_payload = serialize_dhcp (ds_config s) resp,
      dr_destination =
        (if dp_message_type resp = Some DhcpMessageType.Nak \<or> dp_ciaddr packet = 0
         then - 1 else dp_ciaddr packet)\<rparr>"

definition handle_packet ::
  "nat \<Rightarrow> u8 list \<Rightarrow> DhcpServer \<Rightarrow> (DhcpReply option, DhcpError) result \<times> DhcpServer" where
  "handle_packet now data s =
     (case parse data of
        Err e \<Rightarrow> (Err e, s)
      | Ok packet \<Rightarrow>
          if dp_op packet \<noteq> 1 then (Ok None, s)
          else
            (case dp_message_type packet of
               Some DhcpMessageType.Discover \<Rightarrow>
                 st_then (handle_discover now packet s) (\<lambda>r s. (Ok (Some (reply_to_client packet r s)), s))
             | Some DhcpMessageType.Request \<Rightarrow>
                 st_then (handle_request now packet s) (\<lambda>r s. (Ok (Some (reply_to_client packet r s)), s))
             | Some DhcpMessageType.Release \<Rightarrow> (Ok None, handle_release packet s)
             | Some DhcpMessageType.Decline \<Rightarrow> (Ok None, handle_decline now packet s)
             | _ \<Rightarrow> (Ok None, s)))"

subsection \<open>The pool finds every free address\<close>

definition pool_ok :: "IpAllocator \<Rightarrow> bool" where
  "pool_ok a =
     (ia_start a \<le> ia_next a \<and> ia_next a \<le> ia_end a
      \<and> (\<forall>ip \<in> set (ia_allocated a). ia_start a \<le> ip \<and> ip \<le> ia_end a))"

lemma step_next_frame [simp]:
  "ia_start (step_next a) = ia_start a" "ia_end (step_next a) = ia_end a"
  "ia_allocated (step_next a) = ia_allocated a"
  by (simp_all add: step_next_def)

definition offset :: "IpAllocator \<Rightarrow> nat" where
  "offset a = unat (ia_next a) - unat (ia_start a)"

lemma step_next_range:
  assumes "ia_start a \<le> ia_next a" "ia_next a \<le> ia_end a"
  shows "ia_start a \<le> ia_next (step_next a)" "ia_next (step_next a) \<le> ia_end a"
    "offset (step_next a) = (offset a + 1) mod range_size a"
proof -
  let ?s = "unat (ia_start a)" and ?e = "unat (ia_end a)" and ?n = "unat (ia_next a)"
  have b: "?s \<le> ?n" "?n \<le> ?e"
    using assms by (simp_all add: word_le_nat_alt)
  have "ia_start a \<le> ia_next (step_next a) \<and> ia_next (step_next a) \<le> ia_end a
      \<and> offset (step_next a) = (offset a + 1) mod range_size a"
  proof (cases "ia_next a \<ge> ia_end a")
    case True
    then have "?n = ?e"
      using b by (simp add: word_le_nat_alt)
    moreover have "ia_next (step_next a) = ia_start a"
      using True by (simp add: step_next_def)
    ultimately show ?thesis
      using b by (simp add: offset_def range_size_def word_le_nat_alt)
  next
    case False
    then have lt: "?n < ?e"
      by (simp add: word_le_nat_alt)
    then have "unat (ia_next a + 1) = ?n + 1"
      using unat_u32 [of "ia_end a"] by (simp add: unat_word_ariths)
    moreover have "ia_next (step_next a) = ia_next a + 1"
      using False by (simp add: step_next_def)
    ultimately show ?thesis
      using b lt by (simp add: offset_def range_size_def word_le_nat_alt Suc_diff_le)
  qed
  then show "ia_start a \<le> ia_next (step_next a)" "ia_next (step_next a) \<le> ia_end a"
    "offset (step_next a) = (offset a + 1) mod range_size a"
    by auto
qed

lemma allocate_loop_some:
  assumes "pool_ok a" "allocate_loop n a = (Some ip, a')"
  shows "ip \<notin> set (ia_allocated a)" "ia_start a \<le> ip" "ip \<le> ia_end a"
    "set (ia_allocated a') = insert ip (set (ia_allocated a))" "pool_ok a'"
    "ia_start a' = ia_start a" "ia_end a' = ia_end a"
proof -
  have "ip \<notin> set (ia_allocated a) \<and> ia_start a \<le> ip \<and> ip \<le> ia_end a
    \<and> set (ia_allocated a') = insert ip (set (ia_allocated a)) \<and> pool_ok a'
    \<and> ia_start a' = ia_start a \<and> ia_end a' = ia_end a"
    using assms
  proof (induction n arbitrary: a)
    case (Suc n)
    note r = step_next_range [of a]
    show ?case
    proof (cases "ia_next a \<notin> set (ia_allocated a)")
      case True
      let ?b = "a\<lparr>ia_allocated := List.insert (ia_next a) (ia_allocated a)\<rparr>"
      have b: "ip = ia_next a" "a' = step_next ?b"
        using Suc.prems(2) True by (auto simp: Let_def)
      have "pool_ok (step_next ?b)"
        using Suc.prems(1) step_next_range [of ?b] by (auto simp: pool_ok_def)
      then show ?thesis
        using Suc.prems(1) True by (auto simp: b pool_ok_def)
    next
      case False
      then have "pool_ok (step_next a)" "allocate_loop n (step_next a) = (Some ip, a')"
        using Suc.prems r by (auto simp: pool_ok_def)
      from Suc.IH [OF this] show ?thesis
        by simp
    qed
  qed simp
  then show "ip \<notin> set (ia_allocated a)" "ia_start a \<le> ip" "ip \<le> ia_end a"
    "set (ia_allocated a') = insert ip (set (ia_allocated a))" "pool_ok a'"
    "ia_start a' = ia_start a" "ia_end a' = ia_end a"
    by auto
qed

lemma allocate_loop_none:
  assumes "pool_ok a" "allocate_loop n a = (None, a')"
  shows "pool_ok a' \<and> ia_start a' = ia_start a \<and> ia_end a' = ia_end a \<and> ia_allocated a' = ia_allocated a
    \<and> (\<forall>i<n. word_of_nat (unat (ia_start a) + (offset a + i) mod range_size a) \<in> set (ia_allocated a))"
  using assms
proof (induction n arbitrary: a)
  case (Suc n)
  have taken: "ia_next a \<in> set (ia_allocated a)" and rest: "allocate_loop n (step_next a) = (None, a')"
    using Suc.prems(2) by (auto simp: Let_def split: if_splits)
  have p: "ia_start a \<le> ia_next a" "ia_next a \<le> ia_end a"
    using Suc.prems(1) by (auto simp: pool_ok_def)
  note r = step_next_range [OF p]
  have ok: "pool_ok (step_next a)"
    using Suc.prems(1) r by (simp add: pool_ok_def)
  note IH = Suc.IH [OF ok rest]
  have size: "range_size (step_next a) = range_size a"
    by (simp add: range_size_def)
  have o: "offset a < range_size a"
    using p by (auto simp: offset_def range_size_def word_le_nat_alt)
  have "word_of_nat (unat (ia_start a) + (offset a + i) mod range_size a) \<in> set (ia_allocated a)"
    if "i < Suc n" for i
  proof (cases i)
    case 0
    have "unat (ia_start a) + offset a = unat (ia_next a)"
      using p by (simp add: offset_def word_le_nat_alt)
    then show ?thesis
      using taken o 0 by simp
  next
    case (Suc j)
    then have "word_of_nat (unat (ia_start a) + ((offset a + 1) mod range_size a + j) mod range_size a)
        \<in> set (ia_allocated a)"
      using IH that r(3) size by auto
    then show ?thesis
      using Suc by (simp add: mod_add_left_eq)
  qed
  then show ?case
    using IH by simp
qed simp

lemma pool_covered:
  assumes "pool_ok a" "ia_start a \<le> ip" "ip \<le> ia_end a"
  shows "\<exists>i < range_size a. ip = word_of_nat (unat (ia_start a) + (offset a + i) mod range_size a)"
proof -
  let ?n = "range_size a" and ?d = "unat ip - unat (ia_start a)"
  let ?i = "(?d + (?n - offset a)) mod ?n"
  have n: "0 < ?n"
    by (simp add: range_size_def)
  have o: "offset a < ?n" "?d < ?n"
    using assms by (auto simp: offset_def range_size_def word_le_nat_alt pool_ok_def)
  have "(offset a + ?i) mod ?n = (offset a + (?d + (?n - offset a))) mod ?n"
    by (simp add: mod_add_right_eq)
  also have "\<dots> = (?d + ?n) mod ?n"
    using o by simp
  finally have "(offset a + ?i) mod ?n = ?d"
    using o by simp
  moreover have "unat (ia_start a) + ?d = unat ip"
    using assms by (simp add: word_le_nat_alt)
  ultimately have "ip = word_of_nat (unat (ia_start a) + (offset a + ?i) mod ?n)"
    by simp
  then show ?thesis
    using n by (intro exI [of _ ?i]) simp
qed

lemma allocate_none_full:
  assumes "pool_ok a" "allocate a = (None, a')" "ia_start a \<le> ip" "ip \<le> ia_end a"
  shows "ip \<in> set (ia_allocated a)"
  using pool_covered [OF assms(1, 3, 4)] allocate_loop_none [OF assms(1) assms(2) [unfolded allocate_def]]
  by auto

subsection \<open>Who owns an address\<close>

text \<open>
  The abstract book-keeping: the allocated addresses, and the partial maps from clients to leased
  and to reserved addresses.  Every held address is allocated, and no two clients hold the same.
\<close>

definition owns :: "ipv4 set \<Rightarrow> (mac \<rightharpoonup> ipv4) \<Rightarrow> (mac \<rightharpoonup> ipv4) \<Rightarrow> bool" where
  "owns A L R =
     (ran L \<subseteq> A \<and> ran R \<subseteq> A
      \<and> (\<forall>m m' ip. L m = Some ip \<longrightarrow> L m' = Some ip \<longrightarrow> m = m')
      \<and> (\<forall>m m' ip. R m = Some ip \<longrightarrow> R m' = Some ip \<longrightarrow> m = m')
      \<and> (\<forall>m m' ip. L m = Some ip \<longrightarrow> R m' = Some ip \<longrightarrow> m = m'))"

lemma ownsD:
  assumes "owns A L R"
  shows "L m = Some ip \<Longrightarrow> ip \<in> A" "R m = Some ip \<Longrightarrow> ip \<in> A"
    "L m = Some ip \<Longrightarrow> L m' = Some ip \<Longrightarrow> m = m'" "R m = Some ip \<Longrightarrow> R m' = Some ip \<Longrightarrow> m = m'"
    "L m = Some ip \<Longrightarrow> R m' = Some ip \<Longrightarrow> m = m'"
  using assms unfolding owns_def by (blast intro: ranI)+

lemma owns_more: "owns A L R \<Longrightarrow> A \<subseteq> A' \<Longrightarrow> owns A' L R"
  unfolding owns_def by blast

lemma owns_grant:
  assumes "owns A L R" "ip \<in> A" "\<And>m'. L m' = Some ip \<Longrightarrow> m' = m" "\<And>m'. R m' = Some ip \<Longrightarrow> m' = m"
  shows "owns A (L(m \<mapsto> ip)) R"
  using assms unfolding owns_def ran_def by (auto split: if_splits)

lemma owns_unlease: "owns A L R \<Longrightarrow> owns A (L(m := None)) R"
  unfolding owns_def ran_def by (auto split: if_splits)

lemma owns_unreserve: "owns A L R \<Longrightarrow> owns A L (R(m := None))"
  unfolding owns_def ran_def by (auto split: if_splits)

lemma owns_reserve:
  assumes "owns A L R" "ip \<notin> A"
  shows "owns (insert ip A) L (R(m \<mapsto> ip))"
  using assms unfolding owns_def ran_def by (auto split: if_splits)

lemma owns_free:
  assumes "owns A L R" "ip \<notin> ran L" "ip \<notin> ran R"
  shows "owns (A - {ip}) L R"
  using assms unfolding owns_def by blast

definition lease_ip :: "DhcpServer \<Rightarrow> mac \<rightharpoonup> ipv4" where
  "lease_ip s = (\<lambda>m. map_option dl_ip (map_of (ds_leases s) m))"

abbreviation taken :: "DhcpServer \<Rightarrow> ipv4 set" where
  "taken s \<equiv> set (ia_allocated (ds_allocator s))"

definition dhcp_ok :: "DhcpServer \<Rightarrow> bool" where
  "dhcp_ok s = (pool_ok (ds_allocator s) \<and> owns (taken s) (lease_ip s) (map_of (ds_reservations s)))"

lemma dhcp_okI:
  "pool_ok (ds_allocator s) \<Longrightarrow> owns (taken s) (lease_ip s) (map_of (ds_reservations s)) \<Longrightarrow> dhcp_ok s"
  by (simp add: dhcp_ok_def)

lemma dhcp_okD:
  "dhcp_ok s \<Longrightarrow> pool_ok (ds_allocator s)"
  "dhcp_ok s \<Longrightarrow> owns (taken s) (lease_ip s) (map_of (ds_reservations s))"
  by (simp_all add: dhcp_ok_def)

named_theorems dhcp_frame \<open>what the steps of the server leave alone\<close>

lemma release_pool:
  "pool_ok a \<Longrightarrow> pool_ok (release_ip ip a)" "set (ia_allocated (release_ip ip a)) = set (ia_allocated a) - {ip}"
  "ia_start (release_ip ip a) = ia_start a" "ia_end (release_ip ip a) = ia_end a"
  by (auto simp: release_ip_def pool_ok_def)

lemma specific_pool:
  assumes "pool_ok a" "allocate_specific ip a = (r, a')"
  shows "pool_ok a'" "ia_start a' = ia_start a" "ia_end a' = ia_end a"
    "r \<Longrightarrow> ip \<notin> set (ia_allocated a) \<and> set (ia_allocated a') = insert ip (set (ia_allocated a))"
    "\<not> r \<Longrightarrow> a' = a"
  using assms by (auto simp: allocate_specific_def pool_ok_def not_less split: if_splits)

lemma available_specific:
  "is_available a ip \<Longrightarrow> allocate_specific ip a = (True, a\<lparr>ia_allocated := List.insert ip (ia_allocated a)\<rparr>)"
  by (auto simp: is_available_def allocate_specific_def)

lemma drop_lease_frame [dhcp_frame]:
  "ds_reservations (drop_lease m s) = ds_reservations s" "ds_config (drop_lease m s) = ds_config s"
  "ds_declined_ips (drop_lease m s) = ds_declined_ips s"
  "ia_start (ds_allocator (drop_lease m s)) = ia_start (ds_allocator s)"
  "ia_end (ds_allocator (drop_lease m s)) = ia_end (ds_allocator s)"
  "lease_ip (drop_lease m s) = (lease_ip s)(m := None)"
  by (auto simp: drop_lease_def lease_ip_def delete_conv' release_pool split: option.splits)

lemma drop_lease_ok:
  assumes ok: "dhcp_ok s" and m: "map_of (ds_reservations s) m = None"
  shows "dhcp_ok (drop_lease m s)"
proof (cases "map_of (ds_leases s) m")
  case (Some l)
  let ?ip = "dl_ip l"
  note O = ownsD [OF dhcp_okD(2) [OF ok]]
  have L: "lease_ip s m = Some ?ip"
    using Some by (simp add: lease_ip_def)
  have "?ip \<notin> ran ((lease_ip s)(m := None))"
    using O(3) [OF L] by (auto simp: ran_def)
  moreover have "?ip \<notin> ran (map_of (ds_reservations s))"
    using O(5) [OF L] m by (auto simp: ran_def)
  ultimately have "owns (taken s - {?ip}) ((lease_ip s)(m := None)) (map_of (ds_reservations s))"
    by (rule owns_free [OF owns_unlease [OF dhcp_okD(2) [OF ok]]])
  moreover have "ds_allocator (drop_lease m s) = release_ip ?ip (ds_allocator s)"
    using Some by (simp add: drop_lease_def)
  ultimately show ?thesis
    using dhcp_okD(1) [OF ok] by (intro dhcp_okI) (simp_all add: dhcp_frame release_pool)
qed (use ok in \<open>simp add: drop_lease_def\<close>)

lemma drop_leases_ok:
  assumes "dhcp_ok s" "\<forall>m \<in> set ms. map_of (ds_reservations s) m = None"
  shows "dhcp_ok (foldl (\<lambda>s m. drop_lease m s) s ms)"
  using assms by (induction ms arbitrary: s) (simp_all add: drop_lease_ok dhcp_frame)

lemma end_quarantine_frame [dhcp_frame]:
  "ds_reservations (end_quarantine ip s) = ds_reservations s" "ds_leases (end_quarantine ip s) = ds_leases s"
  "ds_config (end_quarantine ip s) = ds_config s" "lease_ip (end_quarantine ip s) = lease_ip s"
  "ia_start (ds_allocator (end_quarantine ip s)) = ia_start (ds_allocator s)"
  "ia_end (ds_allocator (end_quarantine ip s)) = ia_end (ds_allocator s)"
  by (simp_all add: end_quarantine_def Let_def lease_ip_def release_pool)

lemma end_quarantine_ok:
  assumes ok: "dhcp_ok s"
  shows "dhcp_ok (end_quarantine ip s)"
proof (cases "list_ex (\<lambda>(_, r). r = ip) (ds_reservations s) \<or> list_ex (\<lambda>(_, l). dl_ip l = ip) (ds_leases s)")
  case True
  then have "ds_allocator (end_quarantine ip s) = ds_allocator s"
    by (auto simp: end_quarantine_def Let_def)
  then show ?thesis
    using dhcp_okD [OF ok] by (intro dhcp_okI) (simp_all add: dhcp_frame)
next
  case False
  then have "ip \<notin> ran (map_of (ds_reservations s))" "ip \<notin> ran (lease_ip s)"
    by (auto simp: ran_def list_ex_iff lease_ip_def dest!: map_of_SomeD)
  moreover have "ds_allocator (end_quarantine ip s) = release_ip ip (ds_allocator s)"
    using False by (simp add: end_quarantine_def Let_def)
  ultimately show ?thesis
    using dhcp_okD [OF ok] by (intro dhcp_okI) (simp_all add: dhcp_frame release_pool owns_free)
qed

lemma end_quarantines_ok: "dhcp_ok s \<Longrightarrow> dhcp_ok (foldl (\<lambda>s ip. end_quarantine ip s) s ips)"
  by (induction ips arbitrary: s) (simp_all add: end_quarantine_ok)

lemma cleanup_ok: "dhcp_ok s \<Longrightarrow> dhcp_ok (cleanup_expired_leases now s)"
  unfolding cleanup_expired_leases_def Let_def
  by (intro end_quarantines_ok drop_leases_ok) auto

lemma grant_ok:
  assumes "dhcp_ok s" "ip \<in> taken s"
    and "\<And>m. lease_ip s m = Some ip \<Longrightarrow> m = client_mac p"
    and "\<And>m. map_of (ds_reservations s) m = Some ip \<Longrightarrow> m = client_mac p"
  shows "dhcp_ok (grant now p ip s)"
proof -
  have "lease_ip (grant now p ip s) = (lease_ip s)(client_mac p \<mapsto> ip)"
    by (auto simp: grant_def lease_ip_def update_conv')
  moreover have "ds_allocator (grant now p ip s) = ds_allocator s"
    "ds_reservations (grant now p ip s) = ds_reservations s"
    by (simp_all add: grant_def)
  ultimately show ?thesis
    using dhcp_okD [OF assms(1)] owns_grant [OF dhcp_okD(2) [OF assms(1)] assms(2-4)]
    by (intro dhcp_okI) simp_all
qed

text \<open>Replacing the pool by a larger one, the new address being nobody's.\<close>

lemma pool_update_ok:
  assumes "dhcp_ok s" "pool_ok a" "taken s \<subseteq> set (ia_allocated a)"
  shows "dhcp_ok (s\<lparr>ds_allocator := a\<rparr>)"
  using assms dhcp_okD [OF assms(1)]
  by (intro dhcp_okI) (auto simp: lease_ip_def intro: owns_more)

lemma fresh_grant_ok:
  assumes "dhcp_ok s" "pool_ok a" "set (ia_allocated a) = insert ip (taken s)" "ip \<notin> taken s"
  shows "dhcp_ok (grant now p ip (s\<lparr>ds_allocator := a\<rparr>))"
proof (rule grant_ok)
  show "dhcp_ok (s\<lparr>ds_allocator := a\<rparr>)"
    using assms by (intro pool_update_ok) auto
  show "ip \<in> taken (s\<lparr>ds_allocator := a\<rparr>)"
    using assms(3) by simp
  show "m = client_mac p" if "lease_ip (s\<lparr>ds_allocator := a\<rparr>) m = Some ip" for m
    using ownsD(1) [OF dhcp_okD(2) [OF assms(1)]] that assms(4) by (auto simp: lease_ip_def)
  show "m = client_mac p" if "map_of (ds_reservations (s\<lparr>ds_allocator := a\<rparr>)) m = Some ip" for m
    using ownsD(2) [OF dhcp_okD(2) [OF assms(1)]] that assms(4) by auto
qed

lemma allocate_ok:
  assumes "pool_ok a" "allocate a = (r, a')"
  shows "pool_ok a'" "ia_start a' = ia_start a" "ia_end a' = ia_end a"
    "r = Some ip \<Longrightarrow> ip \<notin> set (ia_allocated a) \<and> set (ia_allocated a') = insert ip (set (ia_allocated a))"
    "r = None \<Longrightarrow> ia_allocated a' = ia_allocated a"
  using allocate_loop_some [OF assms(1)] allocate_loop_none [OF assms(1)] assms(2)
  by (cases r; auto simp: allocate_def)+

lemma own_grant_ok:
  assumes ok: "dhcp_ok s"
    and "lease_ip s (client_mac p) = Some ip \<or> map_of (ds_reservations s) (client_mac p) = Some ip"
  shows "dhcp_ok (grant now p ip s)"
proof -
  note O = ownsD [OF dhcp_okD(2) [OF ok]]
  show ?thesis
    using assms(2) by (intro grant_ok [OF ok]) (auto dest: O)
qed

text \<open>
  What both offers and acknowledgements do to the pool: they hand out nothing, an address that
  the client already holds, or one that was free.
\<close>

definition hands_out :: "DhcpPacket \<Rightarrow> DhcpServer \<Rightarrow> ipv4 option \<Rightarrow> IpAllocator \<Rightarrow> bool" where
  "hands_out p s r a =
     (pool_ok a
      \<and> (case r of
           None \<Rightarrow> set (ia_allocated a) = taken s
         | Some ip \<Rightarrow>
             (a = ds_allocator s
              \<and> (lease_ip s (client_mac p) = Some ip \<or> map_of (ds_reservations s) (client_mac p) = Some ip))
             \<or> (ip \<notin> taken s \<and> set (ia_allocated a) = insert ip (taken s))))"

lemma hands_out_ok:
  assumes "dhcp_ok s" "hands_out p s r a"
  shows "dhcp_ok (case r of None \<Rightarrow> s\<lparr>ds_allocator := a\<rparr> | Some ip \<Rightarrow> grant now p ip (s\<lparr>ds_allocator := a\<rparr>))"
proof -
  have same: "s\<lparr>ds_allocator := ds_allocator s\<rparr> = s"
    by simp
  show ?thesis
  proof (cases r)
    case None
    then show ?thesis
      using assms by (auto simp: hands_out_def intro: pool_update_ok)
  next
    case (Some ip)
    then consider "a = ds_allocator s" "lease_ip s (client_mac p) = Some ip \<or> map_of (ds_reservations s) (client_mac p) = Some ip"
      | "pool_ok a" "ip \<notin> taken s" "set (ia_allocated a) = insert ip (taken s)"
      using assms(2) by (auto simp: hands_out_def)
    then show ?thesis
    proof cases
      case 1
      then show ?thesis
        using own_grant_ok [OF assms(1) 1(2)] by (simp add: Some same)
    next
      case 2
      then show ?thesis
        using fresh_grant_ok [OF assms(1) 2(1, 3, 2)] by (simp add: Some)
    qed
  qed
qed

lemma allocate_hands_out:
  assumes "dhcp_ok s" "allocate (ds_allocator s) = (r, a)"
  shows "hands_out p s r a"
  using allocate_ok [OF dhcp_okD(1) [OF assms(1)] assms(2)] by (cases r) (simp_all add: hands_out_def)

lemma choose_hands_out:
  assumes ok: "dhcp_ok s" and c: "choose_ip p s = (r, a)"
  shows "hands_out p s r a"
proof (cases "map_of (ds_reservations s) (client_mac p)")
  case (Some ip)
  then show ?thesis
    using c [symmetric] dhcp_okD(1) [OF ok] by (simp add: choose_ip_def Let_def hands_out_def)
next
  case R: None
  show ?thesis
  proof (cases "map_of (ds_leases s) (client_mac p)")
    case (Some l)
    then show ?thesis
      using R c [symmetric] dhcp_okD(1) [OF ok] by (simp add: choose_ip_def Let_def hands_out_def lease_ip_def)
  next
    case L: None
    consider ip where "dp_requested_ip p = Some ip" "is_available (ds_allocator s) ip"
      | "choose_ip p s = allocate (ds_allocator s)"
      using R L by (cases "dp_requested_ip p"; cases "is_available (ds_allocator s) (the (dp_requested_ip p))")
        (auto simp: choose_ip_def Let_def)
    then show ?thesis
    proof cases
      case 1
      note a = available_specific [OF 1(2)]
      note A = specific_pool [OF dhcp_okD(1) [OF ok] a]
      have "r = Some ip" "a = snd (allocate_specific ip (ds_allocator s))"
        using c R L 1 by (simp_all add: choose_ip_def Let_def)
      then show ?thesis
        using A(1, 4) by (simp add: a hands_out_def)
    next
      case 2
      then show ?thesis
        using c allocate_hands_out [OF ok] by simp
    qed
  qed
qed

lemma discover_ok:
  assumes "dhcp_ok s"
  shows "dhcp_ok (snd (handle_discover now p s))"
proof (cases "choose_ip p (cleanup_expired_leases now s)")
  case (Pair r a)
  show ?thesis
    using hands_out_ok [OF cleanup_ok choose_hands_out [OF cleanup_ok Pair], OF assms assms, of now]
    by (cases r) (simp_all add: handle_discover_def Let_def Pair)
qed

text \<open>A request is refused, or acknowledges an address that is handed out.\<close>

lemma request_hands_out:
  assumes ok: "dhcp_ok s" and ip: "asked_ip p = Some ip"
  obtains a where "hands_out p s (Some ip) a"
      "snd (handle_request now p s) = grant now p ip (s\<lparr>ds_allocator := a\<rparr>)"
    | "snd (handle_request now p s) = s"
proof -
  note P = dhcp_okD(1) [OF ok]
  have same: "s\<lparr>ds_allocator := ds_allocator s\<rparr> = s"
    by simp
  consider (leased) l where "map_of (ds_leases s) (client_mac p) = Some l"
    | (reserved) r where "map_of (ds_leases s) (client_mac p) = None" "map_of (ds_reservations s) (client_mac p) = Some r"
    | (new) "map_of (ds_leases s) (client_mac p) = None" "map_of (ds_reservations s) (client_mac p) = None"
    by fastforce
  then show ?thesis
  proof cases
    case leased
    then show ?thesis
      using that(1) [of "ds_allocator s"] that(2) P ip
      by (cases "dl_ip l = ip") (simp_all add: handle_request_def Let_def same hands_out_def lease_ip_def)
  next
    case reserved
    then show ?thesis
      using that(1) [of "ds_allocator s"] that(2) P ip
      by (cases "r = ip") (simp_all add: handle_request_def Let_def same hands_out_def)
  next
    case new
    obtain v a where a: "allocate_specific ip (ds_allocator s) = (v, a)"
      by fastforce
    note A = specific_pool [OF P a]
    show ?thesis
      using new ip A that(1) [of a] that(2)
      by (cases v) (simp_all add: handle_request_def Let_def a hands_out_def)
  qed
qed

lemma request_ok:
  assumes ok: "dhcp_ok s"
  shows "dhcp_ok (snd (handle_request now p s))"
proof (cases "asked_ip p")
  case (Some ip)
  show ?thesis
    by (rule request_hands_out [OF ok Some, of now]) (use ok hands_out_ok [OF ok, of p "Some ip"] in simp_all)
qed (use ok in \<open>simp add: handle_request_def\<close>)

lemma release_ok:
  assumes ok: "dhcp_ok s"
  shows "dhcp_ok (handle_release p s)"
proof (cases "map_of (ds_reservations s) (client_mac p)")
  case None
  have "handle_release p s = drop_lease (client_mac p) s"
    using None by (simp add: handle_release_def drop_lease_def Let_def split: option.splits)
  then show ?thesis
    using drop_lease_ok [OF ok None] by simp
next
  case (Some r)
  have "lease_ip (handle_release p s) = (lease_ip s)(client_mac p := None)"
    "ds_allocator (handle_release p s) = ds_allocator s"
    "ds_reservations (handle_release p s) = ds_reservations s"
    using Some by (auto simp: handle_release_def Let_def lease_ip_def delete_conv' split: option.splits)
  then show ?thesis
    using dhcp_okD [OF ok] by (intro dhcp_okI) (simp_all add: owns_unlease)
qed

lemma decline_ok:
  assumes ok: "dhcp_ok s"
  shows "dhcp_ok (handle_decline now p s)"
proof -
  have "lease_ip (handle_decline now p s) = lease_ip s
      \<or> lease_ip (handle_decline now p s) = (lease_ip s)(client_mac p := None)"
    by (auto simp: handle_decline_def Let_def lease_ip_def delete_conv' split: option.splits)
  moreover have "ds_allocator (handle_decline now p s) = ds_allocator s"
    "ds_reservations (handle_decline now p s) = ds_reservations s"
    by (auto simp: handle_decline_def Let_def split: option.splits)
  ultimately show ?thesis
    using dhcp_okD [OF ok] by (intro dhcp_okI) (auto simp: owns_unlease)
qed

lemma st_then_keeps: "snd (st_then r (\<lambda>x s. (Ok (f x s), s))) = snd r"
  by (simp add: st_then_def split: sum.splits)

lemma packet_ok:
  assumes "dhcp_ok s"
  shows "dhcp_ok (snd (handle_packet now data s))"
  using assms
  by (auto simp: handle_packet_def st_then_keeps discover_ok request_ok release_ok decline_ok
      split: sum.splits option.splits DhcpMessageType.splits)

lemma reserve_ok:
  assumes ok: "dhcp_ok s" and r: "reserve_ip m ip s = Some s'"
  shows "dhcp_ok s'"
proof -
  have a: "is_available (ds_allocator s) ip"
    using r by (auto simp: reserve_ip_def split: if_splits)
  note sp = available_specific [OF a]
  note P = specific_pool [OF dhcp_okD(1) [OF ok] sp]
  have s': "s' = s\<lparr>ds_allocator := (ds_allocator s)\<lparr>ia_allocated := List.insert ip (ia_allocated (ds_allocator s))\<rparr>,
      ds_reservations := AList.update m ip (ds_reservations s)\<rparr>"
    using r a sp by (simp add: reserve_ip_def)
  have "owns (insert ip (taken s)) (lease_ip s) ((map_of (ds_reservations s))(m \<mapsto> ip))"
    using P(4) by (intro owns_reserve [OF dhcp_okD(2) [OF ok]]) simp
  then show ?thesis
    using P(1) by (intro dhcp_okI) (simp_all add: s' update_conv' lease_ip_def)
qed

lemma unreserve_ok:
  assumes ok: "dhcp_ok s"
    and free: "\<And>ip. map_of (ds_reservations s) m = Some ip \<Longrightarrow> lease_ip s m \<noteq> Some ip"
  shows "dhcp_ok (remove_reservation m s)"
proof (cases "map_of (ds_reservations s) m")
  case (Some ip)
  note O = ownsD [OF dhcp_okD(2) [OF ok]]
  have "ip \<notin> ran (lease_ip s)"
    using O(5) [OF _ Some] free [OF Some] by (auto simp: ran_def)
  moreover have "ip \<notin> ran ((map_of (ds_reservations s))(m := None))"
    using O(4) [OF Some] by (auto simp: ran_def)
  ultimately have "owns (taken s - {ip}) (lease_ip s) ((map_of (ds_reservations s))(m := None))"
    by (intro owns_free owns_unreserve dhcp_okD(2) [OF ok])
  then show ?thesis
    using dhcp_okD(1) [OF ok] Some
    by (intro dhcp_okI) (simp_all add: remove_reservation_def release_pool delete_conv' lease_ip_def)
qed (use ok in \<open>simp add: remove_reservation_def\<close>)

subsection \<open>Runs of the server\<close>

datatype DhcpOp = Receive nat "u8 list" | Reserve mac ipv4 | RemoveReservation mac | Cleanup nat

fun dhcp_op :: "DhcpOp \<Rightarrow> DhcpServer \<Rightarrow> DhcpServer option" where
  "dhcp_op (Receive now data) s = Some (snd (handle_packet now data s))"
| "dhcp_op (Reserve m ip) s = reserve_ip m ip s"
| "dhcp_op (RemoveReservation m) s = Some (remove_reservation m s)"
| "dhcp_op (Cleanup now) s = Some (cleanup_expired_leases now s)"

definition dhcp_start :: "DhcpServer \<Rightarrow> bool" where
  "dhcp_start s = (\<exists>config. server_new config = Some s)"

text \<open>A reservation is removed only while its address is not leased to its owner.\<close>

definition dhcp_move :: "DhcpServer \<Rightarrow> DhcpOp \<Rightarrow> DhcpServer \<Rightarrow> bool" where
  "dhcp_move s op s' =
     (dhcp_op op s = Some s'
      \<and> (case op of RemoveReservation m \<Rightarrow> map_of (ds_reservations s) m = None
                        \<or> lease_ip s m \<noteq> map_of (ds_reservations s) m
         | _ \<Rightarrow> True))"

interpretation dhcp_inv: invariant_of dhcp_start dhcp_move dhcp_ok
proof
  show "dhcp_ok s" if "dhcp_start s" for s
    using that by (auto simp: dhcp_start_def server_new_def allocator_new_def dhcp_ok_def pool_ok_def
        owns_def lease_ip_def split: if_splits)
  show "dhcp_ok t" if s: "dhcp_ok s" and m: "dhcp_move s op t" for s op t
  proof (cases op)
    case (RemoveReservation x)
    have "dhcp_ok (remove_reservation x s)"
      by (rule unreserve_ok [OF s]) (use m RemoveReservation in \<open>auto simp: dhcp_move_def\<close>)
    then show ?thesis
      using m RemoveReservation by (simp add: dhcp_move_def)
  qed (use s m in \<open>auto simp: dhcp_move_def packet_ok cleanup_ok intro: reserve_ok\<close>)
qed

subsection \<open>Properties\<close>

text \<open>
  C10: No address has two owners.  Over every sequence of received packets, well-formed or not,
  reservations and clean-ups, in which no reservation is removed while its owner leases the
  address: two clients never lease the same address, a reserved address is leased to nobody but its
  owner, and every leased or reserved address is in the pool and marked as allocated.
\<close>

theorem one_owner_per_address:
  assumes "reach dhcp_start dhcp_move s"
  shows "(lease_ip s m = Some ip \<and> lease_ip s m' = Some ip \<longrightarrow> m = m')
    \<and> (lease_ip s m = Some ip \<and> map_of (ds_reservations s) m' = Some ip \<longrightarrow> m = m')
    \<and> (lease_ip s m = Some ip \<or> map_of (ds_reservations s) m = Some ip \<longrightarrow>
        ip \<in> taken s \<and> ia_start (ds_allocator s) \<le> ip \<and> ip \<le> ia_end (ds_allocator s))"
proof -
  note ok = dhcp_inv.holds_reach [OF assms]
  note O = ownsD [OF dhcp_okD(2) [OF ok]]
  show ?thesis
    using dhcp_okD(1) [OF ok] O unfolding pool_ok_def by blast
qed

definition sample_config :: DhcpConfig where
  "sample_config = with_pool_range (ip4 10 0 0 2) (ip4 10 0 0 3) (dhcp_config_new (ip4 10 0 0 1) (ip4 255 255 255 0))"

definition sample_server :: DhcpServer where
  "sample_server =
     \<lparr>ds_config = sample_config,
      ds_allocator = \<lparr>ia_start = ip4 10 0 0 2, ia_end = ip4 10 0 0 3, ia_allocated = [], ia_next = ip4 10 0 0 2\<rparr>,
      ds_leases = [], ds_reservations = [], ds_declined_ips = []\<rparr>"

lemma ip4_le: "ip4 10 0 0 2 \<le> ip4 10 0 0 3" "ip4 10 0 0 2 \<noteq> ip4 10 0 0 3" "ip4 10 0 0 2 \<noteq> 0"
  by (simp_all add: ip4_def be32_def)

lemma sample_server_start: "dhcp_start sample_server"
  unfolding dhcp_start_def
  by (intro exI [of _ sample_config])
    (simp add: server_new_def allocator_new_def sample_server_def sample_config_def with_pool_range_def ip4_le)

theorem one_owner_per_address_witness:
  "\<exists>s. reach dhcp_start dhcp_move s \<and> map_of (ds_reservations s) [1, 2, 3, 4, 5, 6] = Some (ip4 10 0 0 2)
    \<and> ip4 10 0 0 2 \<in> taken s"
proof -
  let ?m = "[1, 2, 3, 4, 5, 6] :: mac"
  obtain s where s: "reserve_ip ?m (ip4 10 0 0 2) sample_server = Some s"
    "map_of (ds_reservations s) ?m = Some (ip4 10 0 0 2)"
    by (auto simp: reserve_ip_def sample_server_def is_available_def ip4_le)
  have "reach dhcp_start dhcp_move sample_server"
    by (rule reach_start) (rule sample_server_start)
  moreover have "dhcp_move sample_server (DhcpOp.Reserve ?m (ip4 10 0 0 2)) s"
    using s by (simp add: dhcp_move_def)
  ultimately have "reach dhcp_start dhcp_move s"
    by (rule reach_move)
  then show ?thesis
    using one_owner_per_address [of s ?m "ip4 10 0 0 2" ?m] s(2) by blast
qed

text \<open>
  The pool finds every free address.  In a pool whose cursor is in range, the bounded search
  ends with a free address of the range, which is then the only one added, exactly when there is
  one, and it reports exhaustion only when every address of the range is allocated.
\<close>

theorem allocate_exact:
  assumes "pool_ok a"
  shows "case allocate a of
      (Some ip, a') \<Rightarrow> is_available a ip \<and> set (ia_allocated a') = insert ip (set (ia_allocated a)) \<and> pool_ok a'
    | (None, a') \<Rightarrow> (\<forall>ip. \<not> is_available a ip) \<and> ia_allocated a' = ia_allocated a \<and> pool_ok a'"
proof (cases "allocate a")
  case (Pair r a')
  note A = allocate_ok [OF assms Pair]
  show ?thesis
  proof (cases r)
    case None
    then show ?thesis
      using A allocate_none_full [OF assms] Pair by (auto simp: is_available_def)
  next
    case (Some ip)
    then show ?thesis
      using A allocate_loop_some(2, 3) [OF assms] Pair by (auto simp: is_available_def allocate_def)
  qed
qed

theorem allocate_exact_witness:
  "case allocate (ds_allocator sample_server) of
      (Some ip, a') \<Rightarrow> is_available (ds_allocator sample_server) ip
        \<and> set (ia_allocated a') = insert ip (set (ia_allocated (ds_allocator sample_server))) \<and> pool_ok a'
    | (None, a') \<Rightarrow> (\<forall>ip. \<not> is_available (ds_allocator sample_server) ip)
        \<and> ia_allocated a' = ia_allocated (ds_allocator sample_server) \<and> pool_ok a'"
  by (rule allocate_exact) (simp add: sample_server_def pool_ok_def ip4_le)

text \<open>
  C36: Removing a reservation frees a leased address.  When the owner of a reservation holds the
  lease on it, removing the reservation puts the address back into the pool, and the next other
  client that requests it gets it acknowledged: two clients then lease one address.
\<close>

theorem removed_reservation_doubles_lease:
  assumes "reach dhcp_start dhcp_move s"
    and "map_of (ds_reservations s) m = Some ip" "lease_ip s m = Some ip"
    and "client_mac p \<noteq> m" "lease_ip s (client_mac p) = None"
    and "map_of (ds_reservations s) (client_mac p) = None" "dp_requested_ip p = Some ip"
  shows "let s' = snd (handle_request now p (remove_reservation m s)) in
      fst (handle_request now p (remove_reservation m s)) = Ok (response s' p DhcpMessageType.Ack ip)
      \<and> lease_ip s' m = Some ip \<and> lease_ip s' (client_mac p) = Some ip"
proof -
  note ok = dhcp_inv.holds_reach [OF assms(1)]
  let ?r = "remove_reservation m s"
  have r: "ds_leases ?r = ds_leases s" "map_of (ds_reservations ?r) = (map_of (ds_reservations s))(m := None)"
    "ds_allocator ?r = release_ip ip (ds_allocator s)" "ds_config ?r = ds_config s"
    using assms(2) by (simp_all add: remove_reservation_def delete_conv')
  have "ip \<in> taken s"
    using ownsD(1) [OF dhcp_okD(2) [OF ok] assms(3)] .
  then have "is_available (ds_allocator ?r) ip"
    using dhcp_okD(1) [OF ok] by (auto simp: is_available_def r release_pool pool_ok_def)
  note a = available_specific [OF this]
  have l: "map_of (ds_leases ?r) (client_mac p) = None" "map_of (ds_reservations ?r) (client_mac p) = None"
    using assms(4-6) r by (simp_all add: lease_ip_def)
  have q: "asked_ip p = Some ip"
    using assms(7) by (simp add: asked_ip_def)
  have g: "lease_ip (grant now p ip (?r\<lparr>ds_allocator := a'\<rparr>)) = (lease_ip s)(client_mac p \<mapsto> ip)" for a'
    using r(1) by (auto simp: grant_def lease_ip_def update_conv')
  show ?thesis
    using assms(3, 4)
    by (simp add: handle_request_def q l a g Let_def) (simp add: response_def grant_def)
qed

lemma sample_leased:
  obtains s where "reach dhcp_start dhcp_move s"
    "map_of (ds_reservations s) [1, 2, 3, 4, 5, 6] = Some (ip4 10 0 0 2)"
    "lease_ip s [1, 2, 3, 4, 5, 6] = Some (ip4 10 0 0 2)"
    "lease_ip s [6, 5, 4, 3, 2, 1] = None" "map_of (ds_reservations s) [6, 5, 4, 3, 2, 1] = None"
    "map_of (ds_declined_ips s) (ip4 10 0 0 2) = None" "is_available (ds_allocator s) (ip4 10 0 0 3)"
proof -
  let ?m = "[1, 2, 3, 4, 5, 6] :: mac" and ?ip = "ip4 10 0 0 2"
  obtain s where s: "reserve_ip ?m ?ip sample_server = Some s"
    "ds_reservations s = [(?m, ?ip)]" "ds_leases s = []" "ds_config s = sample_config"
    "ds_declined_ips s = []" "is_available (ds_allocator s) (ip4 10 0 0 3)"
    by (auto simp: reserve_ip_def sample_server_def is_available_def allocate_specific_def ip4_le ip4_le(2) [symmetric])
  have 1: "reach dhcp_start dhcp_move sample_server"
    by (rule reach_start) (rule sample_server_start)
  have "dhcp_move sample_server (DhcpOp.Reserve ?m ?ip) s"
    using s by (simp add: dhcp_move_def)
  with 1 have r: "reach dhcp_start dhcp_move s"
    by (rule reach_move)
  define q where "q = packet_new\<lparr>dp_op := 1, dp_ciaddr := ?ip, dp_chaddr := ?m @ replicate 10 0,
    dp_message_type := Some DhcpMessageType.Request\<rparr>"
  have q: "length (dp_chaddr q) = 16" "q\<lparr>dp_requested_ip := None, dp_hostname := None\<rparr> = q"
    "dp_op q = 1" "dp_message_type q = Some DhcpMessageType.Request"
    "asked_ip q = Some ?ip" "client_mac q = ?m"
    by (simp_all add: q_def packet_new_def asked_ip_def client_mac_def ip4_le)
  have p: "parse (serialize_dhcp sample_config q) = Ok q"
    using parse_serialized [OF q(1), of sample_config] by (simp add: q)
  let ?s = "snd (handle_packet 0 (serialize_dhcp sample_config q) s)"
  have "snd (handle_request 0 q s) = grant 0 q ?ip s"
    by (simp add: handle_request_def q s Let_def)
  then have h: "?s = grant 0 q ?ip s"
    by (simp add: handle_packet_def p q st_then_keeps)
  have "dhcp_move s (DhcpOp.Receive 0 (serialize_dhcp sample_config q)) ?s"
    by (simp add: dhcp_move_def)
  with r have "reach dhcp_start dhcp_move ?s"
    by (rule reach_move)
  then show thesis
    by (rule that) (simp_all add: h grant_def q lease_ip_def s)
qed

theorem removed_reservation_doubles_lease_witness:
  "\<exists>s p. let s' = snd (handle_request 1 p (remove_reservation [1, 2, 3, 4, 5, 6] s)) in
      lease_ip s' [1, 2, 3, 4, 5, 6] = Some (ip4 10 0 0 2)
      \<and> lease_ip s' [6, 5, 4, 3, 2, 1] = Some (ip4 10 0 0 2)"
proof -
  obtain s where s: "reach dhcp_start dhcp_move s"
    "map_of (ds_reservations s) [1, 2, 3, 4, 5, 6] = Some (ip4 10 0 0 2)"
    "lease_ip s [1, 2, 3, 4, 5, 6] = Some (ip4 10 0 0 2)"
    "lease_ip s [6, 5, 4, 3, 2, 1] = None" "map_of (ds_reservations s) [6, 5, 4, 3, 2, 1] = None"
    by (rule sample_leased)
  let ?p = "packet_new\<lparr>dp_requested_ip := Some (ip4 10 0 0 2), dp_chaddr := [6, 5, 4, 3, 2, 1]\<rparr>"
  have m: "client_mac ?p = [6, 5, 4, 3, 2, 1]"
    by (simp add: client_mac_def)
  from removed_reservation_doubles_lease [OF s(1-3), of ?p 1] show ?thesis
    using s(4, 5) m by (auto simp: Let_def intro!: exI [of _ s] exI [of _ ?p])
qed

text \<open>An allocated address that nobody leases or reserves and that is not in quarantine.\<close>

definition orphan :: "ipv4 \<Rightarrow> DhcpServer \<Rightarrow> bool" where
  "orphan ip s =
     (ip \<in> taken s \<and> ip \<notin> ran (lease_ip s) \<and> ip \<notin> ran (map_of (ds_reservations s))
      \<and> map_of (ds_declined_ips s) ip = None)"

lemma orphanD:
  "orphan ip s \<Longrightarrow> ip \<in> taken s" "orphan ip s \<Longrightarrow> lease_ip s m \<noteq> Some ip"
  "orphan ip s \<Longrightarrow> map_of (ds_reservations s) m \<noteq> Some ip" "orphan ip s \<Longrightarrow> map_of (ds_declined_ips s) ip = None"
  by (auto simp: orphan_def ran_def)

lemma orphan_drop_lease:
  assumes "orphan ip s"
  shows "orphan ip (drop_lease m s)"
proof (cases "map_of (ds_leases s) m")
  case (Some l)
  then have "dl_ip l \<noteq> ip"
    using orphanD(2) [OF assms, of m] by (auto simp: lease_ip_def)
  moreover have "taken (drop_lease m s) = taken s - {dl_ip l}"
    using Some by (simp add: drop_lease_def release_pool)
  ultimately show ?thesis
    using assms by (auto simp: orphan_def dhcp_frame ran_def)
qed (use assms in \<open>simp add: drop_lease_def\<close>)

lemma orphan_end_quarantine:
  assumes "orphan ip s" "ip \<noteq> ip'"
  shows "orphan ip (end_quarantine ip' s)"
  using assms by (auto simp: orphan_def dhcp_frame end_quarantine_def Let_def release_pool delete_conv'
      lease_ip_def)

lemma orphan_cleanup:
  assumes "orphan ip s"
  shows "orphan ip (cleanup_expired_leases now s)"
proof -
  have 1: "orphan ip (foldl (\<lambda>s m. drop_lease m s) s ms)" for ms
    using assms by (induction ms arbitrary: s) (simp_all add: orphan_drop_lease)
  have 2: "orphan ip (foldl (\<lambda>s ip. end_quarantine ip s) s ips)" if "orphan ip s" "ip \<notin> set ips" for s ips
    using that by (induction ips arbitrary: s) (simp_all add: orphan_end_quarantine)
  have "ip \<notin> fst ` set (ds_declined_ips (foldl (\<lambda>s m. drop_lease m s) s ms))" for ms
    using orphanD(4) [OF 1] by (metis map_of_eq_None_iff)
  then show ?thesis
    unfolding cleanup_expired_leases_def Let_def by (intro 2 1) auto
qed

lemma orphan_pool:
  assumes "orphan ip s" "taken s \<subseteq> set (ia_allocated a)"
  shows "orphan ip (s\<lparr>ds_allocator := a\<rparr>)"
  using assms by (auto simp: orphan_def lease_ip_def)

lemma orphan_grant:
  assumes "orphan ip s" "ip' \<noteq> ip"
  shows "orphan ip (grant now p ip' s)"
  using assms by (auto simp: orphan_def grant_def lease_ip_def update_conv' ran_def)

lemma orphan_hands_out:
  assumes "orphan ip s" "hands_out p s r a"
  shows "orphan ip (case r of None \<Rightarrow> s\<lparr>ds_allocator := a\<rparr> | Some q \<Rightarrow> grant now p q (s\<lparr>ds_allocator := a\<rparr>))"
proof -
  have t: "taken s \<subseteq> set (ia_allocated a)"
    using assms(2) by (auto simp: hands_out_def split: option.splits)
  have "r \<noteq> Some ip"
    using assms(2) orphanD(1-3) [OF assms(1)] by (auto simp: hands_out_def)
  then show ?thesis
    using orphan_pool [OF assms(1) t] by (auto intro: orphan_grant split: option.split)
qed

lemma orphan_discover:
  assumes "dhcp_ok s" "orphan ip s"
  shows "orphan ip (snd (handle_discover now p s))"
proof (cases "choose_ip p (cleanup_expired_leases now s)")
  case (Pair r a)
  show ?thesis
    using orphan_hands_out [OF orphan_cleanup choose_hands_out [OF cleanup_ok Pair], OF assms(2, 1), of now]
    by (cases r) (simp_all add: handle_discover_def Let_def Pair)
qed

lemma orphan_request:
  assumes "dhcp_ok s" "orphan ip s"
  shows "orphan ip (snd (handle_request now p s))"
proof (cases "asked_ip p")
  case (Some q)
  show ?thesis
    by (rule request_hands_out [OF assms(1) Some, of now])
      (use assms(2) orphan_hands_out [OF assms(2), of p "Some q"] in simp_all)
qed (use assms in \<open>simp add: handle_request_def\<close>)

lemma orphan_release:
  assumes "orphan ip s"
  shows "orphan ip (handle_release p s)"
proof (cases "map_of (ds_leases s) (client_mac p)")
  case (Some l)
  then have "dl_ip l \<noteq> ip"
    using orphanD(2) [OF assms, of "client_mac p"] by (auto simp: lease_ip_def)
  moreover have "lease_ip (handle_release p s) = (lease_ip s)(client_mac p := None)"
    "ds_reservations (handle_release p s) = ds_reservations s"
    "ds_declined_ips (handle_release p s) = ds_declined_ips s"
    "taken s - {dl_ip l} \<subseteq> taken (handle_release p s)"
    using Some by (auto simp: handle_release_def Let_def lease_ip_def delete_conv' release_pool)
  ultimately show ?thesis
    using assms by (auto simp: orphan_def ran_def)
qed (use assms in \<open>simp add: handle_release_def\<close>)

lemma orphan_decline:
  assumes "orphan ip s"
  shows "orphan ip (handle_decline now p s)"
proof (cases "dp_requested_ip p")
  case (Some q)
  note O = orphanD [OF assms]
  have s: "handle_decline now p s = s \<or>
      (q \<noteq> ip \<and> ds_reservations (handle_decline now p s) = ds_reservations s
       \<and> ds_allocator (handle_decline now p s) = ds_allocator s
       \<and> (lease_ip (handle_decline now p s) = lease_ip s
          \<or> lease_ip (handle_decline now p s) = (lease_ip s)(client_mac p := None))
       \<and> map_of (ds_declined_ips (handle_decline now p s)) = (map_of (ds_declined_ips s))(q \<mapsto> now))"
    using Some O(2, 3) [of "client_mac p"]
    by (auto simp: handle_decline_def Let_def lease_ip_def delete_conv' update_conv')
  then show ?thesis
    using assms by (auto simp: orphan_def ran_def split: if_splits)
qed (use assms in \<open>simp add: handle_decline_def\<close>)

lemma orphan_reserve:
  assumes "orphan ip s" "reserve_ip m q s = Some s'"
  shows "orphan ip s'"
proof -
  have a: "is_available (ds_allocator s) q"
    using assms(2) by (auto simp: reserve_ip_def split: if_splits)
  then have "q \<noteq> ip"
    using orphanD(1) [OF assms(1)] by (auto simp: is_available_def)
  moreover have "lease_ip s' = lease_ip s" "taken s' = insert q (taken s)" "ds_declined_ips s' = ds_declined_ips s"
    "map_of (ds_reservations s') = (map_of (ds_reservations s))(m \<mapsto> q)"
    using assms(2) a by (auto simp: reserve_ip_def available_specific lease_ip_def update_conv')
  ultimately show ?thesis
    using assms(1) by (auto simp: orphan_def ran_def split: if_splits)
qed

lemma orphan_unreserve:
  assumes "orphan ip s"
  shows "orphan ip (remove_reservation m s)"
proof (cases "map_of (ds_reservations s) m")
  case (Some q)
  then have "q \<noteq> ip"
    using orphanD(3) [OF assms, of m] by auto
  moreover have "lease_ip (remove_reservation m s) = lease_ip s"
    "map_of (ds_reservations (remove_reservation m s)) = (map_of (ds_reservations s))(m := None)"
    "taken (remove_reservation m s) = taken s - {q}"
    "ds_declined_ips (remove_reservation m s) = ds_declined_ips s"
    using Some by (simp_all add: remove_reservation_def lease_ip_def delete_conv' release_pool)
  ultimately show ?thesis
    using assms by (auto simp: orphan_def ran_def)
qed (use assms in \<open>simp add: remove_reservation_def\<close>)

lemma orphan_move:
  assumes "dhcp_ok s" "orphan ip s" "dhcp_move s op s'"
  shows "orphan ip s'"
  using assms
  by (cases op) (auto simp: dhcp_move_def handle_packet_def st_then_keeps orphan_cleanup orphan_unreserve
      orphan_discover orphan_request orphan_release orphan_decline orphan_reserve
      split: sum.splits option.splits DhcpMessageType.splits)

lemma orphan_kept:
  assumes "dhcp_ok s" "orphan ip s" "reach (\<lambda>x. x = s) dhcp_move t"
  shows "orphan ip t"
proof -
  have "dhcp_ok t \<and> orphan ip t"
    using assms(3) by (induction rule: reach.induct) (use assms(1, 2) dhcp_inv.holds_move orphan_move in blast)+
  then show ?thesis ..
qed

lemma cleanup_keeps_reserved:
  assumes "map_of (ds_reservations s) m \<noteq> None"
  shows "lease_ip (cleanup_expired_leases now s) m = lease_ip s m"
proof -
  have 1: "lease_ip (foldl (\<lambda>s m. drop_lease m s) u ms) m = lease_ip u m" if "m \<notin> set ms" for u ms
    using that by (induction ms arbitrary: u) (simp_all add: dhcp_frame)
  have 2: "lease_ip (foldl (\<lambda>s ip. end_quarantine ip s) u ips) = lease_ip u" for u ips
    by (induction ips arbitrary: u) (simp_all add: dhcp_frame)
  show ?thesis
    unfolding cleanup_expired_leases_def Let_def 2 by (rule 1) (use assms in auto)
qed

lemma cleanup_frame [dhcp_frame]: "ds_reservations (cleanup_expired_leases now s) = ds_reservations s"
proof -
  have 1: "ds_reservations (foldl (\<lambda>s m. drop_lease m s) u ms) = ds_reservations u" for u ms
    by (induction ms arbitrary: u) (simp_all add: dhcp_frame)
  have 2: "ds_reservations (foldl (\<lambda>s ip. end_quarantine ip s) u ips) = ds_reservations u" for u ips
    by (induction ips arbitrary: u) (simp_all add: dhcp_frame)
  show ?thesis
    by (simp add: cleanup_expired_leases_def Let_def 1 2)
qed

lemma cleanup_declined:
  "map_of (ds_declined_ips s) ip = None \<Longrightarrow> map_of (ds_declined_ips (cleanup_expired_leases now s)) ip = None"
proof -
  have 1: "ds_declined_ips (foldl (\<lambda>s m. drop_lease m s) u ms) = ds_declined_ips u" for u ms
    by (induction ms arbitrary: u) (simp_all add: dhcp_frame)
  have e: "map_of (ds_declined_ips (end_quarantine i u)) ip = None" if "map_of (ds_declined_ips u) ip = None" for i u
    using that by (simp add: end_quarantine_def Let_def delete_conv')
  have 2: "map_of (ds_declined_ips (foldl (\<lambda>s ip. end_quarantine ip s) u ips)) ip = None"
    if "map_of (ds_declined_ips u) ip = None" for u ips
    using that by (induction ips arbitrary: u) (simp_all add: e)
  show "map_of (ds_declined_ips s) ip = None \<Longrightarrow> ?thesis"
    unfolding cleanup_expired_leases_def Let_def by (rule 2) (simp add: 1)
qed

lemma grant_orphans:
  assumes "dhcp_ok s" "lease_ip s (client_mac p) = Some ip" "map_of (ds_reservations s) (client_mac p) = Some r"
    "r \<noteq> ip" "map_of (ds_declined_ips s) ip = None"
  shows "orphan ip (grant now p r s)"
proof -
  note O = ownsD [OF dhcp_okD(2) [OF assms(1)]]
  have "lease_ip (grant now p r s) = (lease_ip s)(client_mac p \<mapsto> r)"
    by (auto simp: grant_def lease_ip_def update_conv')
  moreover have "ip \<notin> ran ((lease_ip s)(client_mac p \<mapsto> r))"
  proof
    assume "ip \<in> ran ((lease_ip s)(client_mac p \<mapsto> r))"
    then obtain m where "((lease_ip s)(client_mac p \<mapsto> r)) m = Some ip"
      unfolding ran_def by blast
    then show False
      using O(3) [OF assms(2), of m] assms(4) by (simp split: if_splits)
  qed
  moreover have "ip \<notin> ran (map_of (ds_reservations s))"
  proof
    assume "ip \<in> ran (map_of (ds_reservations s))"
    then obtain m where "map_of (ds_reservations s) m = Some ip"
      unfolding ran_def by blast
    then show False
      using O(5) [OF assms(2), of m] assms(3, 4) by simp
  qed
  ultimately show ?thesis
    using O(1) [OF assms(2)] assms(5) by (simp add: orphan_def grant_def)
qed





end
