(* ===== verification/Virtio_Queue.thy ===== *)
theory Virtio_Queue
  imports Common_Error "HOL-Library.Monad_Syntax"
begin

unbundle bit_operations_syntax

section \<open>The virtqueue with local rings\<close>

text \<open>
  \<open>src/virt/arcbox-virtio-core/src/queue.rs\<close>: a descriptor table, the ring of available heads and
  the ring of used elements, with 16-bit indices that run freely and wrap.  Indexing a vector out
  of its bounds, or taking a remainder by zero, panics: an operation that does either returns
  \<open>None\<close>.  The flag values are those of the virtio specification, which the tests of the crate
  assert.
\<close>

subsection \<open>Errors, descriptors and rings\<close>

datatype VirtioError =
    Common CommonError
  | NotReady string
  | InvalidQueue string
  | InvalidDescriptor string
  | BufferTooSmall nat nat
  | Io string
  | MemoryError string
  | DeviceError string string
  | FeatureNotSupported string
  | NotSupported string
  | InvalidOperation string

definition DESC_NEXT :: u16 where
  "DESC_NEXT = 1"

definition DESC_WRITE :: u16 where
  "DESC_WRITE = 2"

definition DESC_INDIRECT :: u16 where
  "DESC_INDIRECT = 4"

definition VRING_AVAIL_F_NO_INTERRUPT :: u16 where
  "VRING_AVAIL_F_NO_INTERRUPT = 1"

record Descriptor =
  de_addr :: u64
  de_len :: u32
  de_flags :: u16
  de_next :: u16

definition has_next :: "Descriptor \<Rightarrow> bool" where
  "has_next d = (de_flags d AND DESC_NEXT \<noteq> 0)"

definition is_write_only :: "Descriptor \<Rightarrow> bool" where
  "is_write_only d = (de_flags d AND DESC_WRITE \<noteq> 0)"

definition is_indirect :: "Descriptor \<Rightarrow> bool" where
  "is_indirect d = (de_flags d AND DESC_INDIRECT \<noteq> 0)"

definition descriptor_default :: Descriptor where
  "descriptor_default = \<lparr>de_addr = 0, de_len = 0, de_flags = 0, de_next = 0\<rparr>"

record AvailRing =
  ar_flags :: u16
  ar_idx :: u16
  ar_ring :: "u16 list"
  ar_used_event :: u16

definition avail_ring_new :: "u16 \<Rightarrow> AvailRing" where
  "avail_ring_new n =
     \<lparr>ar_flags = 0, ar_idx = 0, ar_ring = replicate (unat n) 0, ar_used_event = 0\<rparr>"

record UsedElement =
  ue_id :: u32
  ue_len :: u32

record UsedRing =
  ur_flags :: u16
  ur_idx :: u16
  ur_ring :: "UsedElement list"
  ur_avail_event :: u16

definition used_ring_new :: "u16 \<Rightarrow> UsedRing" where
  "used_ring_new n =
     \<lparr>ur_flags = 0, ur_idx = 0, ur_ring = replicate (unat n) \<lparr>ue_id = 0, ue_len = 0\<rparr>,
      ur_avail_event = 0\<rparr>"

record VirtQueue =
  vq_size :: u16
  vq_desc_table :: "Descriptor list"
  vq_avail :: AvailRing
  vq_used :: UsedRing
  vq_last_avail_idx :: u16
  vq_ready :: bool
  vq_event_idx_enabled :: bool

subsection \<open>Operations\<close>

definition is_power_of_two :: "u16 \<Rightarrow> bool" where
  "is_power_of_two w = list_ex (\<lambda>k. unat w = 2 ^ k) [0..<16]"

definition virtqueue_new :: "u16 \<Rightarrow> (VirtQueue, VirtioError) result" where
  "virtqueue_new n =
     (if n = 0 \<or> \<not> is_power_of_two n then Err (InvalidQueue ''size must be a power of 2'')
      else if n > 32768 then Err (InvalidQueue ''size must not exceed 32768'')
      else Ok \<lparr>vq_size = n, vq_desc_table = replicate (unat n) descriptor_default,
               vq_avail = avail_ring_new n, vq_used = used_ring_new n, vq_last_avail_idx = 0,
               vq_ready = False, vq_event_idx_enabled = False\<rparr>)"

definition set_ready :: "bool \<Rightarrow> VirtQueue \<Rightarrow> VirtQueue" where
  "set_ready ready q = q\<lparr>vq_ready := ready\<rparr>"

text \<open>Reading and writing \<open>v[i]\<close>, and the slot \<open>(idx % size) as usize\<close>.\<close>

definition index :: "'a list \<Rightarrow> nat \<Rightarrow> 'a option" where
  "index xs i = (if i < length xs then Some (xs ! i) else None)"

definition set_index :: "'a list \<Rightarrow> nat \<Rightarrow> 'a \<Rightarrow> 'a list option" where
  "set_index xs i x = (if i < length xs then Some (xs[i := x]) else None)"

definition ring_slot :: "u16 \<Rightarrow> u16 \<Rightarrow> nat option" where
  "ring_slot idx n = (if n = 0 then None else Some (unat (idx mod n)))"

definition set_descriptor ::
  "u16 \<Rightarrow> Descriptor \<Rightarrow> VirtQueue \<Rightarrow> ((unit, VirtioError) result \<times> VirtQueue) option" where
  "set_descriptor idx descriptor q =
     (if idx \<ge> vq_size q then Some (Err (InvalidQueue ''descriptor index out of bounds''), q)
      else do {
        t \<leftarrow> set_index (vq_desc_table q) (unat idx) descriptor;
        Some (Ok (), q\<lparr>vq_desc_table := t\<rparr>)
      })"

definition add_avail :: "u16 \<Rightarrow> VirtQueue \<Rightarrow> ((unit, VirtioError) result \<times> VirtQueue) option" where
  "add_avail head_idx q =
     (if head_idx \<ge> vq_size q then Some (Err (InvalidQueue ''available index out of bounds''), q)
      else do {
        ring_idx \<leftarrow> ring_slot (ar_idx (vq_avail q)) (vq_size q);
        r \<leftarrow> set_index (ar_ring (vq_avail q)) ring_idx head_idx;
        Some (Ok (), q\<lparr>vq_avail := (vq_avail q)\<lparr>ar_ring := r, ar_idx := ar_idx (vq_avail q) + 1\<rparr>\<rparr>)
      })"

definition has_available :: "VirtQueue \<Rightarrow> bool" where
  "has_available q = (ar_idx (vq_avail q) \<noteq> vq_last_avail_idx q)"

record DescriptorChain =
  ch_current :: "u16 option"
  ch_ttl :: u16

definition pop_avail :: "VirtQueue \<Rightarrow> ((u16 \<times> DescriptorChain) option \<times> VirtQueue) option" where
  "pop_avail q =
     (if \<not> has_available q then Some (None, q)
      else do {
        slot \<leftarrow> ring_slot (vq_last_avail_idx q) (vq_size q);
        head_idx \<leftarrow> index (ar_ring (vq_avail q)) slot;
        Some (Some (head_idx, \<lparr>ch_current = Some head_idx, ch_ttl = vq_size q\<rparr>),
              q\<lparr>vq_last_avail_idx := vq_last_avail_idx q + 1\<rparr>)
      })"

definition vq_set_event_idx :: "bool \<Rightarrow> VirtQueue \<Rightarrow> VirtQueue" where
  "vq_set_event_idx enabled q = q\<lparr>vq_event_idx_enabled := enabled\<rparr>"

definition needs_notification :: "u16 \<Rightarrow> u16 \<Rightarrow> u16 \<Rightarrow> bool" where
  "needs_notification old_idx new_idx used_event = (new_idx - used_event - 1 < new_idx - old_idx)"

definition should_notify :: "u16 \<Rightarrow> VirtQueue \<Rightarrow> bool" where
  "should_notify old_idx q =
     (if vq_event_idx_enabled q
      then needs_notification old_idx (ur_idx (vq_used q)) (ar_used_event (vq_avail q))
      else ar_flags (vq_avail q) AND VRING_AVAIL_F_NO_INTERRUPT = 0)"

text \<open>One element at the slot of the used index, which moves on.\<close>

definition put_used :: "u16 \<Rightarrow> u32 \<Rightarrow> VirtQueue \<Rightarrow> VirtQueue option" where
  "put_used head_idx len q = do {
     slot \<leftarrow> ring_slot (ur_idx (vq_used q)) (vq_size q);
     r \<leftarrow> set_index (ur_ring (vq_used q)) slot \<lparr>ue_id = ucast head_idx, ue_len = len\<rparr>;
     Some (q\<lparr>vq_used := (vq_used q)\<lparr>ur_ring := r, ur_idx := ur_idx (vq_used q) + 1\<rparr>\<rparr>)
   }"

definition push_used :: "u16 \<Rightarrow> u32 \<Rightarrow> VirtQueue \<Rightarrow> (bool \<times> VirtQueue) option" where
  "push_used head_idx len q = do {
     q' \<leftarrow> put_used head_idx len q;
     Some (should_notify (ur_idx (vq_used q)) q', q')
   }"

fun put_all_used :: "(u16 \<times> u32) list \<Rightarrow> VirtQueue \<Rightarrow> VirtQueue option" where
  "put_all_used [] q = Some q"
| "put_all_used ((head_idx, len) # cs) q = do { q' \<leftarrow> put_used head_idx len q; put_all_used cs q' }"

definition push_used_batch :: "(u16 \<times> u32) list \<Rightarrow> VirtQueue \<Rightarrow> (bool \<times> VirtQueue) option" where
  "push_used_batch completions q =
     (if completions = [] then Some (False, q)
      else do {
        q' \<leftarrow> put_all_used completions q;
        Some (should_notify (ur_idx (vq_used q)) q', q')
      })"

definition set_avail_event :: "u16 \<Rightarrow> VirtQueue \<Rightarrow> VirtQueue" where
  "set_avail_event event q = q\<lparr>vq_used := (vq_used q)\<lparr>ur_avail_event := event\<rparr>\<rparr>"

definition get_descriptor :: "VirtQueue \<Rightarrow> u16 \<Rightarrow> Descriptor option" where
  "get_descriptor q idx = index (vq_desc_table q) (unat idx)"

subsection \<open>Walking a descriptor chain\<close>

definition chain_next :: "VirtQueue \<Rightarrow> DescriptorChain \<Rightarrow> (Descriptor \<times> DescriptorChain) option" where
  "chain_next q c =
     (if ch_ttl c = 0 then None
      else do {
        idx \<leftarrow> ch_current c;
        desc \<leftarrow> get_descriptor q idx;
        Some (desc, \<lparr>ch_current = (if has_next desc then Some (de_next desc) else None),
                     ch_ttl = ch_ttl c - 1\<rparr>)
      })"

lemma chain_next_ttl:
  "chain_next q c = Some (d, c') \<Longrightarrow> unat (ch_ttl c') < unat (ch_ttl c)"
  by (auto simp: chain_next_def unat_sub word_le_sub1 unat_gt_0 bind_eq_Some_conv split: if_splits)

text \<open>The iterator run to its end, as a consumer's loop does.\<close>

function chain_collect :: "VirtQueue \<Rightarrow> DescriptorChain \<Rightarrow> Descriptor list" where
  "chain_collect q c = (case chain_next q c of None \<Rightarrow> [] | Some (d, c') \<Rightarrow> d # chain_collect q c')"
  by pat_completeness auto
termination
  by (relation "measure (\<lambda>(q, c). unat (ch_ttl c))") (auto dest: chain_next_ttl)

declare chain_collect.simps [simp del]

subsection \<open>Ring arithmetic\<close>

lemma two_power_size:
  assumes "is_power_of_two n"
  obtains k where "k < 16" "unat n = 2 ^ k"
  using assms by (auto simp: is_power_of_two_def list_ex_iff)

lemma size_pos: "is_power_of_two n \<Longrightarrow> n \<noteq> 0"
  by (auto elim!: two_power_size)

lemma size_le:
  assumes "is_power_of_two n"
  shows "unat n \<le> 32768"
proof -
  obtain k where k: "k < 16" "unat n = 2 ^ k"
    using assms by (rule two_power_size)
  have "(2 :: nat) ^ k \<le> 2 ^ 15"
    by (rule power_increasing) (use k in auto)
  then show ?thesis
    using k by simp
qed

lemma unat_add_of_nat: "unat (a + of_nat i :: u16) = (unat a + i) mod 65536"
  by (simp add: unat_word_ariths unat_of_nat mod_simps)

text \<open>The free-running index and its slot, for a size that divides the range of the index.\<close>

lemma slot_plus:
  assumes "is_power_of_two n"
  shows "unat ((a + of_nat i) mod n) = (unat a + i) mod unat n"
proof -
  obtain k where k: "k < 16" "unat n = 2 ^ k"
    using assms by (rule two_power_size)
  have "(2 :: nat) ^ k dvd 2 ^ 16"
    by (rule le_imp_power_dvd) (use k in auto)
  then have "unat n dvd 65536"
    using k by simp
  then show ?thesis
    by (simp add: unat_mod_distrib unat_add_of_nat mod_mod_cancel)
qed

lemma ring_slot_plus:
  "is_power_of_two n \<Longrightarrow> ring_slot (a + of_nat i) n = Some ((unat a + i) mod unat n)"
  by (simp add: ring_slot_def size_pos slot_plus)

lemma ring_slot_at: "is_power_of_two n \<Longrightarrow> ring_slot a n = Some (unat a mod unat n)"
  using ring_slot_plus [of n a 0] by simp

lemma unat_size_pos: "is_power_of_two n \<Longrightarrow> 0 < unat n"
  using size_pos [of n] by (simp add: unat_gt_0)

lemma slots_differ:
  assumes "i < j" "j < i + n"
  shows "(a + i) mod n \<noteq> (a + j) mod (n :: nat)"
proof
  assume "(a + i) mod n = (a + j) mod n"
  then have "n dvd (a + j) - (a + i)"
    using assms by (metis add_le_cancel_left less_imp_le_nat mod_eq_dvd_iff_nat)
  then have "n \<le> j - i"
    using assms by (intro dvd_imp_le) auto
  then show False
    using assms by simp
qed

subsection \<open>Well-formed queues never panic\<close>

definition vq_shape :: "VirtQueue \<Rightarrow> bool" where
  "vq_shape q =
     (is_power_of_two (vq_size q) \<and> length (vq_desc_table q) = unat (vq_size q)
      \<and> length (ar_ring (vq_avail q)) = unat (vq_size q) \<and> length (ur_ring (vq_used q)) = unat (vq_size q))"

definition vq_ok :: "VirtQueue \<Rightarrow> bool" where
  "vq_ok q = (vq_shape q \<and> (\<forall>h \<in> set (ar_ring (vq_avail q)). h < vq_size q))"

lemma new_ok: "virtqueue_new n = Ok q \<Longrightarrow> vq_ok q \<and> vq_size q = n"
  by (auto simp: virtqueue_new_def vq_ok_def vq_shape_def avail_ring_new_def used_ring_new_def word_neq_0_conv
      split: if_splits)

lemma power_two: "is_power_of_two 2"
  unfolding is_power_of_two_def list_ex_iff by (rule bexI [of _ 1]) simp_all

lemma new_two: "\<exists>q. virtqueue_new 2 = Ok q"
  by (simp add: virtqueue_new_def power_two)

lemma vq_shapeD:
  assumes "vq_shape q"
  shows "is_power_of_two (vq_size q)" "length (vq_desc_table q) = unat (vq_size q)"
    "length (ar_ring (vq_avail q)) = unat (vq_size q)" "length (ur_ring (vq_used q)) = unat (vq_size q)"
    "a mod unat (vq_size q) < unat (vq_size q)"
  using assms unat_size_pos [of "vq_size q"] by (auto simp: vq_shape_def)

lemma vq_ok_shape: "vq_ok q \<Longrightarrow> vq_shape q"
  by (simp add: vq_ok_def)

lemma vq_ok_heads: "vq_ok q \<Longrightarrow> h \<in> set (ar_ring (vq_avail q)) \<Longrightarrow> h < vq_size q"
  by (simp add: vq_ok_def)

lemma add_avail_total:
  assumes "vq_shape q" "h < vq_size q"
  shows "add_avail h q = Some (Ok (), q\<lparr>vq_avail := (vq_avail q)
      \<lparr>ar_ring := (ar_ring (vq_avail q))[unat (ar_idx (vq_avail q)) mod unat (vq_size q) := h],
       ar_idx := ar_idx (vq_avail q) + 1\<rparr>\<rparr>)"
  using assms vq_shapeD [OF assms(1)] by (simp add: add_avail_def ring_slot_at set_index_def)

lemma pop_avail_total:
  assumes "vq_shape q" "has_available q"
  shows "pop_avail q =
    (let h = ar_ring (vq_avail q) ! (unat (vq_last_avail_idx q) mod unat (vq_size q))
     in Some (Some (h, \<lparr>ch_current = Some h, ch_ttl = vq_size q\<rparr>),
              q\<lparr>vq_last_avail_idx := vq_last_avail_idx q + 1\<rparr>))"
  using assms vq_shapeD [OF assms(1)] by (simp add: pop_avail_def ring_slot_at index_def Let_def)

lemma put_used_total:
  assumes "vq_shape q"
  shows "put_used h l q = Some (q\<lparr>vq_used := (vq_used q)
      \<lparr>ur_ring := (ur_ring (vq_used q))
         [unat (ur_idx (vq_used q)) mod unat (vq_size q) := \<lparr>ue_id = ucast h, ue_len = l\<rparr>],
       ur_idx := ur_idx (vq_used q) + 1\<rparr>\<rparr>)"
  using vq_shapeD [OF assms] by (simp add: put_used_def ring_slot_at set_index_def)

lemma put_used_ok: "vq_ok q \<Longrightarrow> put_used h l q = Some q' \<Longrightarrow> vq_ok q'"
  by (auto simp: put_used_total vq_ok_shape vq_ok_def vq_shape_def)

lemma put_all_used_total:
  "vq_ok q \<Longrightarrow> \<exists>q'. put_all_used cs q = Some q' \<and> vq_ok q'
     \<and> ur_idx (vq_used q') = ur_idx (vq_used q) + of_nat (length cs)
     \<and> vq_avail q' = vq_avail q \<and> vq_event_idx_enabled q' = vq_event_idx_enabled q"
proof (induction cs arbitrary: q)
  case (Cons c cs)
  obtain h l where c: "c = (h, l)"
    by fastforce
  obtain q1 where 1: "put_used h l q = Some q1"
    using put_used_total [OF vq_ok_shape [OF Cons.prems]] by blast
  have "vq_ok q1"
    by (rule put_used_ok [OF Cons.prems 1])
  from Cons.IH [OF this] obtain q2 where 2: "put_all_used cs q1 = Some q2" "vq_ok q2"
    "ur_idx (vq_used q2) = ur_idx (vq_used q1) + of_nat (length cs)"
    "vq_avail q2 = vq_avail q1" "vq_event_idx_enabled q2 = vq_event_idx_enabled q1"
    by blast
  have "ur_idx (vq_used q1) = ur_idx (vq_used q) + 1" "vq_avail q1 = vq_avail q"
    "vq_event_idx_enabled q1 = vq_event_idx_enabled q"
    using 1 put_used_total [OF vq_ok_shape [OF Cons.prems]] by auto
  then show ?case
    using 1 2 by (simp add: c algebra_simps)
qed simp

datatype QueueOp =
    SetDescriptor u16 Descriptor | AddAvail u16 | PopAvail | PushUsed u16 u32
  | PushUsedBatch "(u16 \<times> u32) list" | SetAvailEvent u16 | SetEventIdx bool | SetReady bool

fun queue_op :: "QueueOp \<Rightarrow> VirtQueue \<Rightarrow> VirtQueue option" where
  "queue_op (SetDescriptor i d) q = map_option snd (set_descriptor i d q)"
| "queue_op (AddAvail h) q = map_option snd (add_avail h q)"
| "queue_op PopAvail q = map_option snd (pop_avail q)"
| "queue_op (PushUsed h l) q = map_option snd (push_used h l q)"
| "queue_op (PushUsedBatch cs) q = map_option snd (push_used_batch cs q)"
| "queue_op (SetAvailEvent e) q = Some (set_avail_event e q)"
| "queue_op (SetEventIdx b) q = Some (vq_set_event_idx b q)"
| "queue_op (SetReady b) q = Some (set_ready b q)"

fun queue_run :: "QueueOp list \<Rightarrow> VirtQueue \<Rightarrow> VirtQueue option" where
  "queue_run [] q = Some q"
| "queue_run (op # ops) q = do { q' \<leftarrow> queue_op op q; queue_run ops q' }"

lemma set_descriptor_ok:
  assumes "vq_ok q"
  shows "\<exists>r q'. set_descriptor i d q = Some (r, q') \<and> vq_ok q'"
proof (cases "i < vq_size q")
  case True
  then have "unat i < unat (vq_size q)"
    by (simp add: word_less_nat_alt)
  then show ?thesis
    using True assms vq_shapeD [OF vq_ok_shape [OF assms]] by (auto simp: set_descriptor_def set_index_def vq_ok_def vq_shape_def)
qed (use assms in \<open>auto simp: set_descriptor_def not_less\<close>)

lemma add_avail_ok:
  assumes "vq_ok q"
  shows "\<exists>r q'. add_avail h q = Some (r, q') \<and> vq_ok q'"
proof (cases "h < vq_size q")
  case True
  then show ?thesis
    using assms by (auto simp: add_avail_total vq_ok_shape vq_ok_def vq_shape_def dest!: subsetD [OF set_update_subset_insert])
qed (use assms in \<open>auto simp: add_avail_def not_less\<close>)

lemma queue_op_ok:
  assumes "vq_ok q"
  shows "\<exists>q'. queue_op op q = Some q' \<and> vq_ok q'"
proof (cases op)
  case (SetDescriptor i d)
  then show ?thesis
    using set_descriptor_ok [OF assms, of i d] by auto
next
  case (AddAvail h)
  then show ?thesis
    using add_avail_ok [OF assms, of h] by auto
next
  case PopAvail
  show ?thesis
  proof (cases "has_available q")
    case True
    then show ?thesis
      using PopAvail assms pop_avail_total [OF vq_ok_shape [OF assms] True] by (simp add: Let_def vq_ok_def vq_shape_def)
  qed (use PopAvail assms in \<open>simp add: pop_avail_def\<close>)
next
  case (PushUsed h l)
  obtain q' where "put_used h l q = Some q'"
    using put_used_total [OF vq_ok_shape [OF assms]] by blast
  then show ?thesis
    using put_used_ok [OF assms] PushUsed by (simp add: push_used_def)
next
  case (PushUsedBatch cs)
  then show ?thesis
    using put_all_used_total [OF assms, of cs] assms by (auto simp: push_used_batch_def)
qed (use assms in \<open>simp_all add: set_avail_event_def vq_set_event_idx_def set_ready_def vq_ok_def vq_shape_def\<close>)

lemma queue_run_ok: "vq_ok q \<Longrightarrow> \<exists>q'. queue_run ops q = Some q' \<and> vq_ok q'"
proof (induction ops arbitrary: q)
  case (Cons op ops)
  then show ?case
    using queue_op_ok [OF Cons.prems, of op] by auto
qed simp

lemma put_all_used_size: "put_all_used cs q = Some q' \<Longrightarrow> vq_size q' = vq_size q"
  by (induction cs q rule: put_all_used.induct) (auto simp: put_used_def bind_eq_Some_conv)

lemma queue_op_size: "queue_op op q = Some q' \<Longrightarrow> vq_size q' = vq_size q"
  by (cases op)
    (auto simp: set_descriptor_def add_avail_def pop_avail_def push_used_def push_used_batch_def put_used_def
      set_avail_event_def vq_set_event_idx_def set_ready_def bind_eq_Some_conv
      dest!: put_all_used_size split: if_splits)

lemma queue_run_size: "queue_run ops q = Some q' \<Longrightarrow> vq_size q' = vq_size q"
  by (induction ops arbitrary: q) (auto simp: bind_eq_Some_conv dest!: queue_op_size)

lemma popped_head:
  assumes "vq_ok q" "pop_avail q = Some (Some (h, c), q')"
  shows "h < vq_size q" "c = \<lparr>ch_current = Some h, ch_ttl = vq_size q\<rparr>"
proof -
  have a: "has_available q"
    using assms(2) by (auto simp: pop_avail_def split: if_splits)
  note t = pop_avail_total [OF vq_ok_shape [OF assms(1)] a]
  let ?h = "ar_ring (vq_avail q) ! (unat (vq_last_avail_idx q) mod unat (vq_size q))"
  have "?h \<in> set (ar_ring (vq_avail q))"
    using vq_shapeD [OF vq_ok_shape [OF assms(1)]] by simp
  then show "h < vq_size q" "c = \<lparr>ch_current = Some h, ch_ttl = vq_size q\<rparr>"
    using assms t vq_ok_heads [OF assms(1)] by (auto simp: Let_def)
qed

text \<open>
  C9: A virtqueue never panics and stays well-formed.  From a freshly created queue, whatever
  sequence of operations is run with whatever arguments, every operation returns, the tables keep
  the queue's size, every head in the available ring is a valid descriptor index, and so is the
  head that a pop returns.
\<close>

theorem queue_never_stuck:
  assumes "virtqueue_new n = Ok q"
  shows "\<exists>q'. queue_run ops q = Some q' \<and> vq_ok q' \<and> vq_size q' = n
      \<and> (\<forall>h c q''. pop_avail q' = Some (Some (h, c), q'') \<longrightarrow> h < n)"
proof -
  obtain q' where "queue_run ops q = Some q'" "vq_ok q'"
    using queue_run_ok new_ok [OF assms] by blast
  moreover have "vq_size q' = n"
    using calculation(1) queue_run_size new_ok [OF assms] by simp
  ultimately show ?thesis
    using popped_head(1) by blast
qed

theorem queue_never_stuck_witness:
  "\<exists>q q'. virtqueue_new 2 = Ok q \<and> queue_run [AddAvail 1, AddAvail 7, PopAvail, PopAvail, PushUsed 9 4] q = Some q'
      \<and> vq_ok q'"
proof -
  obtain q where "virtqueue_new 2 = Ok q"
    using new_two by blast
  then show ?thesis
    using queue_never_stuck [of 2 q "[AddAvail 1, AddAvail 7, PopAvail, PopAvail, PushUsed 9 4]"] by blast
qed

subsection \<open>The available ring is a queue\<close>

text \<open>
  The heads that wait between the device's index and the driver's, in the order of the ring.
\<close>

definition pending :: "VirtQueue \<Rightarrow> u16 list" where
  "pending q =
     map (\<lambda>i. ar_ring (vq_avail q) ! ((unat (vq_last_avail_idx q) + i) mod unat (vq_size q)))
       [0..<unat (ar_idx (vq_avail q) - vq_last_avail_idx q)]"

lemma length_pending [simp]: "length (pending q) = unat (ar_idx (vq_avail q) - vq_last_avail_idx q)"
  by (simp add: pending_def)

lemma pending_add:
  assumes ok: "vq_shape q" and h: "h < vq_size q" and room: "length (pending q) < unat (vq_size q)"
    and add: "add_avail h q = Some (Ok (), q')"
  shows "pending q' = pending q @ [h]"
proof -
  let ?n = "unat (vq_size q)" and ?l = "vq_last_avail_idx q" and ?m = "unat (ar_idx (vq_avail q) - vq_last_avail_idx q)"
  have idx: "ar_idx (vq_avail q) = ?l + of_nat ?m"
    by simp
  have m: "?m < ?n"
    using room by simp
  have slot: "unat (ar_idx (vq_avail q)) mod ?n = (unat ?l + ?m) mod ?n"
    using slot_plus [OF vq_shapeD(1) [OF ok], of ?l ?m] by (simp add: unat_mod_distrib)
  have up: "unat (ar_idx (vq_avail q) + 1 - ?l) = Suc ?m"
  proof -
    have "ar_idx (vq_avail q) + 1 - ?l = of_nat (Suc ?m)"
      by simp
    then show ?thesis
      using m size_le [OF vq_shapeD(1) [OF ok]] by (simp only: unat_of_nat) simp
  qed
  have q': "q' = q\<lparr>vq_avail := (vq_avail q)
      \<lparr>ar_ring := (ar_ring (vq_avail q))[(unat ?l + ?m) mod ?n := h], ar_idx := ar_idx (vq_avail q) + 1\<rparr>\<rparr>"
    using add add_avail_total [OF ok h] slot by simp
  have "(ar_ring (vq_avail q))[(unat ?l + ?m) mod ?n := h] ! ((unat ?l + i) mod ?n)
      = ar_ring (vq_avail q) ! ((unat ?l + i) mod ?n)" if "i < ?m" for i
    using slots_differ [of i ?m ?n "unat ?l"] that m by simp
  then show ?thesis
    using vq_shapeD(3, 5) [OF ok] by (simp add: q' pending_def up)
qed

lemma pending_empty: "\<not> has_available q \<Longrightarrow> pending q = []"
  by (simp add: has_available_def pending_def)

lemma pending_pop:
  assumes ok: "vq_shape q" and a: "has_available q"
  shows "\<exists>q'. pop_avail q = Some (Some (hd (pending q), \<lparr>ch_current = Some (hd (pending q)), ch_ttl = vq_size q\<rparr>), q')
      \<and> pending q' = tl (pending q) \<and> vq_shape q' \<and> (vq_ok q \<longrightarrow> vq_ok q') \<and> vq_size q' = vq_size q"
proof -
  let ?l = "vq_last_avail_idx q" and ?i = "ar_idx (vq_avail q)"
  have ne: "?i - ?l \<noteq> 0"
    using a by (simp add: has_available_def)
  then obtain m where m: "unat (?i - ?l) = Suc m"
    using unat_eq_0 [of "?i - ?l"] not0_implies_Suc by blast
  have d: "unat (?i - (?l + 1)) = m"
  proof -
    have "unat (?i - ?l - 1) = unat (?i - ?l) - 1"
      using ne by (simp add: unat_minus_one)
    then show ?thesis
      using m by (simp add: algebra_simps)
  qed
  have s: "(unat (?l + 1) + i) mod unat (vq_size q) = (unat ?l + Suc i) mod unat (vq_size q)" for i
  proof -
    have "unat (?l + 1) mod unat (vq_size q) = (unat ?l + 1) mod unat (vq_size q)"
      using slot_plus [OF vq_shapeD(1) [OF ok], of ?l 1] by (simp add: unat_mod_distrib)
    then have "(unat (?l + 1) + i) mod unat (vq_size q) = (unat ?l + 1 + i) mod unat (vq_size q)"
      by (rule mod_add_cong) (rule refl)
    then show ?thesis
      by simp
  qed
  have "hd (pending q) = ar_ring (vq_avail q) ! (unat ?l mod unat (vq_size q))"
    by (simp add: pending_def m upt_conv_Cons del: upt_Suc)
  moreover have "tl (pending q) = pending (q\<lparr>vq_last_avail_idx := ?l + 1\<rparr>)"
    by (simp add: pending_def m d s upt_conv_Cons map_Suc_upt [symmetric] o_def del: upt_Suc)
  ultimately show ?thesis
    using pop_avail_total [OF ok a] ok by (auto simp: Let_def vq_ok_def vq_shape_def)
qed

text \<open>
  The contract of a queue with a bounded number of places, and what it gives for any sequence of
  calls that respects the bound.
\<close>

datatype 'a FifoOp = Enq 'a | Deq

fun enqueued :: "'a FifoOp list \<Rightarrow> 'a list" where
  "enqueued [] = []"
| "enqueued (Enq x # ops) = x # enqueued ops"
| "enqueued (Deq # ops) = enqueued ops"

text \<open>The bound, for a queue that holds \<open>n\<close> elements before the calls.\<close>

fun fits :: "nat \<Rightarrow> nat \<Rightarrow> 'a FifoOp list \<Rightarrow> bool" where
  "fits cap n [] = True"
| "fits cap n (Enq x # ops) = (n < cap \<and> fits cap (Suc n) ops)"
| "fits cap n (Deq # ops) = fits cap (n - 1) ops"

fun fifo_run ::
  "('a \<Rightarrow> 'q \<Rightarrow> 'q option) \<Rightarrow> ('q \<Rightarrow> ('a option \<times> 'q) option) \<Rightarrow> 'a FifoOp list \<Rightarrow> 'q \<Rightarrow> ('a list \<times> 'q) option"
where
  "fifo_run enq deq [] q = Some ([], q)"
| "fifo_run enq deq (Enq x # ops) q = do { q' \<leftarrow> enq x q; fifo_run enq deq ops q' }"
| "fifo_run enq deq (Deq # ops) q = do {
     (r, q') \<leftarrow> deq q;
     (out, q'') \<leftarrow> fifo_run enq deq ops q';
     Some (case r of None \<Rightarrow> out | Some x \<Rightarrow> x # out, q'')
   }"

locale bounded_fifo =
  fixes ok :: "'q \<Rightarrow> bool"
    and contents :: "'q \<Rightarrow> 'a list"
    and places :: "'q \<Rightarrow> nat"
    and valid :: "'q \<Rightarrow> 'a \<Rightarrow> bool"
    and enq :: "'a \<Rightarrow> 'q \<Rightarrow> 'q option"
    and deq :: "'q \<Rightarrow> ('a option \<times> 'q) option"
  assumes enq_appends: "ok q \<Longrightarrow> valid q x \<Longrightarrow> length (contents q) < places q \<Longrightarrow>
      \<exists>q'. enq x q = Some q' \<and> ok q' \<and> contents q' = contents q @ [x] \<and> places q' = places q \<and> valid q' = valid q"
    and deq_empty: "ok q \<Longrightarrow> contents q = [] \<Longrightarrow> deq q = Some (None, q)"
    and deq_first: "ok q \<Longrightarrow> contents q = x # xs \<Longrightarrow>
      \<exists>q'. deq q = Some (Some x, q') \<and> ok q' \<and> contents q' = xs \<and> places q' = places q \<and> valid q' = valid q"
begin

lemma fifo_run_order:
  assumes "ok q" "fits (places q) (length (contents q)) ops" "list_all (valid q) (enqueued ops)"
  shows "\<exists>out q'. fifo_run enq deq ops q = Some (out, q') \<and> out @ contents q' = contents q @ enqueued ops \<and> ok q'"
  using assms
proof (induction ops arbitrary: q rule: enqueued.induct)
  case (2 x ops)
  then obtain q1 where q1: "enq x q = Some q1" "ok q1" "contents q1 = contents q @ [x]"
    "places q1 = places q" "valid q1 = valid q"
    using enq_appends [of q x] by auto
  then show ?case
    using "2.IH" [of q1] "2.prems" by auto
next
  case (3 ops)
  show ?case
  proof (cases "contents q")
    case Nil
    then show ?thesis
      using deq_empty "3.IH" [of q] "3.prems" by auto
  next
    case (Cons x xs)
    then obtain q1 where q1: "deq q = Some (Some x, q1)" "ok q1" "contents q1 = xs"
      "places q1 = places q" "valid q1 = valid q"
      using deq_first "3.prems"(1) by blast
    then show ?thesis
      using "3.IH" [of q1] "3.prems" Cons by auto
  qed
qed simp

end

definition enq_avail :: "u16 \<Rightarrow> VirtQueue \<Rightarrow> VirtQueue option" where
  "enq_avail h q = map_option snd (add_avail h q)"

definition deq_avail :: "VirtQueue \<Rightarrow> (u16 option \<times> VirtQueue) option" where
  "deq_avail q = map_option (\<lambda>(r, q'). (map_option fst r, q')) (pop_avail q)"

interpretation avail_queue: bounded_fifo vq_ok pending "\<lambda>q. unat (vq_size q)" "\<lambda>q h. h < vq_size q"
  enq_avail deq_avail
proof
  fix q h
  assume a: "vq_ok q" "h < vq_size q" "length (pending q) < unat (vq_size q)"
  obtain q' where q': "add_avail h q = Some (Ok (), q')"
    using add_avail_total [OF vq_ok_shape [OF a(1)] a(2)] by blast
  moreover have "vq_ok q'"
    using add_avail_ok [OF a(1), of h] q' by auto
  moreover have "vq_size q' = vq_size q"
    using queue_op_size [of "AddAvail h" q q'] q' by simp
  ultimately show "\<exists>q'. enq_avail h q = Some q' \<and> vq_ok q' \<and> pending q' = pending q @ [h]
      \<and> unat (vq_size q') = unat (vq_size q) \<and> (\<lambda>h. h < vq_size q') = (\<lambda>h. h < vq_size q)"
    using pending_add [OF vq_ok_shape [OF a(1)] a(2, 3) q'] by (simp add: enq_avail_def)
next
  fix q
  assume "vq_ok q" "pending q = []"
  then have "\<not> has_available q"
    using length_pending [of q] by (simp add: has_available_def unat_eq_0)
  then show "deq_avail q = Some (None, q)"
    by (simp add: deq_avail_def pop_avail_def)
next
  fix q h hs
  assume a: "vq_ok q" "pending q = h # hs"
  then have "has_available q"
    using pending_empty by fastforce
  from pending_pop [OF vq_ok_shape [OF a(1)] this] show "\<exists>q'. deq_avail q = Some (Some h, q') \<and> vq_ok q' \<and> pending q' = hs
      \<and> unat (vq_size q') = unat (vq_size q) \<and> (\<lambda>h. h < vq_size q') = (\<lambda>h. h < vq_size q)"
    using a by (auto simp: deq_avail_def)
qed

lemma new_pending: "virtqueue_new n = Ok q \<Longrightarrow> pending q = []"
  by (auto simp: virtqueue_new_def pending_def avail_ring_new_def split: if_splits)

text \<open>
  C18: The available ring is a queue.  For any interleaving of a driver that adds heads and a device
  that pops them, in which the driver never has more heads outstanding than the queue has
  descriptors, no operation panics, and the heads popped followed by those still waiting are
  exactly the heads added, in order, across any number of wrap-arounds of the 16-bit indices.
\<close>

theorem avail_ring_is_fifo:
  assumes "virtqueue_new n = Ok q" "fits (unat n) 0 ops" "list_all (\<lambda>h. h < n) (enqueued ops)"
  shows "\<exists>out q'. fifo_run enq_avail deq_avail ops q = Some (out, q') \<and> out @ pending q' = enqueued ops"
  using avail_queue.fifo_run_order [of q ops] new_ok [OF assms(1)] new_pending [OF assms(1)] assms(2, 3)
  by auto

theorem avail_ring_is_fifo_witness:
  "\<exists>q out q'. virtqueue_new 2 = Ok q
     \<and> fifo_run enq_avail deq_avail [Enq 1, Enq 0, Deq, Enq 1, Deq, Deq, Deq, Enq 0] q = Some (out, q')
     \<and> out @ pending q' = [1, 0, 1, 0]"
proof -
  obtain q where q: "virtqueue_new 2 = Ok q"
    using new_two by blast
  then show ?thesis
    using avail_ring_is_fifo [OF q, of "[Enq 1, Enq 0, Deq, Enq 1, Deq, Deq, Deq, Enq 0]"] by simp
qed

subsection \<open>Descriptor chains\<close>

lemma chain_collect_bound: "length (chain_collect q c) \<le> unat (ch_ttl c)"
proof (induction q c rule: chain_collect.induct)
  case (1 q c)
  show ?case
  proof (cases "chain_next q c")
    case (Some r)
    then obtain d c' where r: "chain_next q c = Some (d, c')"
      by (cases r) auto
    then show ?thesis
      using "1.IH" [OF r refl] chain_next_ttl [OF r] by (simp add: chain_collect.simps [of q c])
  qed (simp add: chain_collect.simps [of q c])
qed

text \<open>A chain as the driver lays it out: the links, up to a descriptor without one.\<close>

inductive chain_from :: "VirtQueue \<Rightarrow> u16 \<Rightarrow> u16 list \<Rightarrow> bool" for q where
  last: "get_descriptor q i = Some d \<Longrightarrow> \<not> has_next d \<Longrightarrow> chain_from q i [i]"
| link: "get_descriptor q i = Some d \<Longrightarrow> has_next d \<Longrightarrow> chain_from q (de_next d) is \<Longrightarrow> chain_from q i (i # is)"

lemma chain_from_unique: "chain_from q i is \<Longrightarrow> chain_from q i js \<Longrightarrow> is = js"
proof (induction arbitrary: js rule: chain_from.induct)
  case (last i d)
  from last.prems show ?case
  proof (cases rule: chain_from.cases)
    case (link d' "is")
    then show ?thesis
      using last.hyps by simp
  qed simp
next
  case (link i d "is")
  from link.prems show ?case
  proof (cases rule: chain_from.cases)
    case (last d')
    then show ?thesis
      using link.hyps by simp
  next
    case (link d' js')
    have "de_next d' = de_next d"
      using link(2) link.hyps(1) by simp
    then show ?thesis
      using link(1, 4) link.IH [of js'] by simp
  qed
qed

lemma chain_from_suffix: "chain_from q i is \<Longrightarrow> j \<in> set is \<Longrightarrow> \<exists>js. chain_from q j js \<and> length js \<le> length is"
  by (induction rule: chain_from.induct) (auto intro: chain_from.intros le_SucI)

lemma chain_from_distinct: "chain_from q i is \<Longrightarrow> distinct is"
proof (induction rule: chain_from.induct)
  case (link i d "is")
  have "i \<notin> set is"
  proof
    assume "i \<in> set is"
    then obtain js where "chain_from q i js" "length js \<le> length is"
      using chain_from_suffix link.hyps by blast
    moreover have "chain_from q i (i # is)"
      using link.hyps by (rule chain_from.link)
    ultimately show False
      using chain_from_unique by fastforce
  qed
  then show ?case
    using link.IH by simp
qed simp

lemma chain_from_valid: "chain_from q i is \<Longrightarrow> set is \<subseteq> {j. unat j < length (vq_desc_table q)}"
  by (induction rule: chain_from.induct) (auto simp: get_descriptor_def index_def split: if_splits)

lemma chain_from_length:
  assumes "chain_from q i is"
  shows "length is \<le> length (vq_desc_table q)"
proof -
  have "unat ` set is \<subseteq> {..<length (vq_desc_table q)}"
    using chain_from_valid [OF assms] by auto
  then have "card (unat ` set is) \<le> length (vq_desc_table q)"
    using card_mono [of "{..<length (vq_desc_table q)}"] by simp
  moreover have "inj_on unat (set is)"
    by (rule inj_onI) (simp add: word_unat_eq_iff)
  then have "card (unat ` set is) = length is"
    using chain_from_distinct [OF assms] by (simp add: card_image distinct_card)
  ultimately show ?thesis
    by simp
qed

lemma chain_collect_walk:
  assumes "chain_from q i is" "length is \<le> unat t"
  shows "chain_collect q \<lparr>ch_current = Some i, ch_ttl = t\<rparr> = map (\<lambda>j. vq_desc_table q ! unat j) is"
  using assms
proof (induction arbitrary: t rule: chain_from.induct)
  case (last i d)
  then have "t \<noteq> 0"
    by auto
  then show ?case
    using last
    by (subst chain_collect.simps)
      (auto simp: chain_next_def get_descriptor_def index_def chain_collect.simps [of q "\<lparr>ch_current = None, ch_ttl = t'\<rparr>" for t']
        split: if_splits)
next
  case (link i d "is")
  then have "t \<noteq> 0"
    by auto
  then have t: "t \<noteq> 0" "length is \<le> unat (t - 1)"
    using link.prems by (simp_all add: unat_minus_one)
  then show ?case
    using link.hyps link.IH [OF t(2)]
    by (subst chain_collect.simps) (auto simp: chain_next_def get_descriptor_def index_def split: if_splits)
qed

text \<open>
  C19: The walk of a descriptor chain ends and is exact.  Whatever links the descriptor table holds,
  cycles included, the walk yields at most as many descriptors as the queue has; and when the
  table holds a proper chain from the head, which is any sequence of links that reaches a
  descriptor without a successor, the walk yields exactly its descriptors, so the bound cuts off
  nothing a correct driver can publish.
\<close>

theorem chain_walk_exact:
  assumes "vq_ok q" "pop_avail q = Some (Some (h, c), q')"
  shows "length (chain_collect q' c) \<le> unat (vq_size q)
      \<and> (\<forall>is. chain_from q' h is \<longrightarrow> chain_collect q' c = map (\<lambda>j. vq_desc_table q' ! unat j) is)"
proof -
  have c: "c = \<lparr>ch_current = Some h, ch_ttl = vq_size q\<rparr>"
    by (rule popped_head(2) [OF assms])
  have "vq_desc_table q' = vq_desc_table q"
    using assms by (auto simp: pop_avail_def bind_eq_Some_conv split: if_splits)
  then have "length is \<le> unat (vq_size q)" if "chain_from q' h is" for "is"
    using chain_from_length [OF that] vq_shapeD(2) [OF vq_ok_shape [OF assms(1)]] by simp
  then show ?thesis
    using chain_collect_bound [of q' c] chain_collect_walk by (simp add: c)
qed

theorem chain_walk_exact_witness:
  "\<exists>q h c q'. pop_avail q = Some (Some (h, c), q') \<and> length (chain_collect q' c) \<le> 2
      \<and> chain_collect q' c = map (\<lambda>j. vq_desc_table q' ! unat j) [1, 0 :: u16]"
proof -
  let ?d = "\<lparr>de_addr = 4096, de_len = 16, de_flags = 1, de_next = 0\<rparr>"
  obtain q0 where q0: "virtqueue_new 2 = Ok q0"
    using new_two by blast
  define q where "q = q0\<lparr>vq_desc_table := [descriptor_default, ?d],
    vq_avail := \<lparr>ar_flags = 0, ar_idx = 1, ar_ring = [1, 0], ar_used_event = 0\<rparr>\<rparr>"
  have ok: "vq_ok q"
    using new_ok [OF q0] by (auto simp: vq_ok_def vq_shape_def q_def)
  have "vq_last_avail_idx q0 = 0" "vq_size q0 = 2"
    using q0 new_ok [OF q0] by (auto simp: virtqueue_new_def split: if_splits)
  then have a: "has_available q" "hd (pending q) = 1"
    by (simp_all add: has_available_def q_def pending_def)
  let ?c = "\<lparr>ch_current = Some 1, ch_ttl = vq_size q\<rparr>"
  obtain q' where p: "pop_avail q = Some (Some (1, ?c), q')"
    using pending_pop [OF vq_ok_shape [OF ok] a(1)] a(2) by auto
  have "vq_desc_table q' = [descriptor_default, ?d]"
    using p by (auto simp: pop_avail_def bind_eq_Some_conv q_def split: if_splits)
  then have g: "get_descriptor q' 1 = Some ?d" "get_descriptor q' 0 = Some descriptor_default"
    by (simp_all add: get_descriptor_def index_def)
  have "chain_from q' 0 [0]"
    using g(2) by (rule chain_from.last) (simp add: has_next_def DESC_NEXT_def descriptor_default_def)
  then have cf: "chain_from q' 1 [1, 0]"
    by (intro chain_from.link [OF g(1)]) (simp_all add: has_next_def DESC_NEXT_def)
  note w = chain_walk_exact [OF ok p]
  have "chain_collect q' ?c = map (\<lambda>j. vq_desc_table q' ! unat j) [1, 0 :: u16]"
    using w cf by blast
  moreover have "length (chain_collect q' ?c) \<le> 2"
    using conjunct1 [OF w] \<open>vq_size q0 = 2\<close> by (simp add: q_def)
  ultimately show ?thesis
    using p by blast
qed

subsection \<open>Interrupts\<close>

lemma event_index_between:
  "needs_notification old new event \<longleftrightarrow> (\<exists>k < unat (new - old). event = old + of_nat k)"
proof -
  define d x where "d = new - old" and "x = event - old"
  have ev: "event = old + of_nat k \<longleftrightarrow> x = of_nat k" for k
    by (auto simp: x_def algebra_simps)
  have lhs: "new - event - 1 = d - x - 1"
    by (simp add: d_def x_def)
  have "d - x - 1 < d \<longleftrightarrow> unat x < unat d"
  proof (cases "unat x < unat d")
    case True
    have "unat (d - x) = unat d - unat x"
      using True by (simp add: unat_sub word_le_nat_alt)
    moreover have "d - x \<noteq> 0"
      using True by auto
    ultimately have "unat (d - x - 1) = unat d - unat x - 1"
      by (simp add: unat_minus_one)
    then show ?thesis
      using True by (simp add: word_less_nat_alt)
  next
    case False
    have "d - x - 1 = - 1 - (x - d)"
      by simp
    moreover have "unat (- 1 - (x - d)) = unat (- 1 :: u16) - unat (x - d)"
      by (rule unat_sub) simp
    moreover have "unat (x - d) = unat x - unat d"
      using False by (simp add: unat_sub word_le_nat_alt)
    moreover have "unat (- 1 :: u16) = 65535"
      by (simp add: unsigned_minus_1_eq_mask mask_eq_exp_minus_1)
    ultimately have "unat (d - x - 1) = 65535 - (unat x - unat d)"
      by presburger
    then show ?thesis
      using False unat_u16 [of x] by (simp add: word_less_nat_alt)
  qed
  moreover have "unat x < unat d \<longleftrightarrow> (\<exists>k < unat d. x = of_nat k)"
    using unat_u16 [of d] by (auto simp: unat_of_nat intro: exI [of _ "unat x"])
  ultimately show ?thesis
    unfolding needs_notification_def lhs ev d_def [symmetric] by blast
qed

text \<open>
  C39: The event index test is exact.  An interrupt is due exactly when the event index is one of
  the used indices \<open>old\<close>, \<open>old + 1\<close>, \<dots>, \<open>new - 1\<close> just consumed, modulo the range of the index: the
  interval that contains its lower bound and not its upper one.
\<close>

theorem event_index_exact:
  "needs_notification old new event \<longleftrightarrow> (\<exists>k < unat (new - old). event = old + of_nat k)"
  by (rule event_index_between)

lemma notification_split:
  assumes "Suc n < 65536"
  shows "needs_notification old (old + of_nat (Suc n)) e
      \<longleftrightarrow> needs_notification old (old + 1) e \<or> needs_notification (old + 1) (old + 1 + of_nat n) e"
proof -
  have u: "unat (old + of_nat m - old) = m" if "m < 65536" for m
    using that by (simp add: unat_of_nat)
  have 1: "unat (old + of_nat (Suc n) - old) = Suc n" "unat (old + 1 - old) = 1"
    using u [OF assms] u [of 1] by auto
  have 2: "unat (old + 1 + of_nat n - (old + 1)) = n"
    using assms by (simp add: unat_of_nat)
  show ?thesis
    unfolding event_index_between 1 2 by (auto simp: less_Suc_eq_0_disj algebra_simps)
qed

text \<open>Publishing completions one by one, an interrupt being due if any of them asks for it.\<close>

fun push_each :: "(u16 \<times> u32) list \<Rightarrow> VirtQueue \<Rightarrow> (bool \<times> VirtQueue) option" where
  "push_each [] q = Some (False, q)"
| "push_each ((h, l) # cs) q = do {
     (b, q1) \<leftarrow> push_used h l q;
     (b', q2) \<leftarrow> push_each cs q1;
     Some (b \<or> b', q2)
   }"

lemma push_each_state:
  assumes "vq_ok q"
  shows "\<exists>q'. put_all_used cs q = Some q' \<and> map_option snd (push_each cs q) = Some q'"
  using assms
proof (induction cs q rule: put_all_used.induct)
  case (2 h l cs q)
  obtain q1 where 1: "put_used h l q = Some q1"
    using put_used_total [OF vq_ok_shape [OF "2.prems"]] by blast
  then show ?case
    using "2.IH" [OF 1 put_used_ok [OF "2.prems" 1]] by (auto simp: push_used_def)
qed simp

lemma push_each_notify:
  assumes "vq_ok q" "length cs < 65536" "push_each cs q = Some (b, q')"
  shows "b \<longleftrightarrow> cs \<noteq> [] \<and>
    (if vq_event_idx_enabled q
     then needs_notification (ur_idx (vq_used q)) (ur_idx (vq_used q) + of_nat (length cs)) (ar_used_event (vq_avail q))
     else ar_flags (vq_avail q) AND VRING_AVAIL_F_NO_INTERRUPT = 0)"
  using assms
proof (induction cs arbitrary: q b)
  case (Cons c cs)
  obtain h l where c: "c = (h, l)"
    by fastforce
  obtain q1 where 1: "put_used h l q = Some q1"
    using put_used_total [OF vq_ok_shape [OF Cons.prems(1)]] by blast
  have q1: "ur_idx (vq_used q1) = ur_idx (vq_used q) + 1" "vq_avail q1 = vq_avail q"
    "vq_event_idx_enabled q1 = vq_event_idx_enabled q" "vq_ok q1"
    using 1 put_used_total [OF vq_ok_shape [OF Cons.prems(1)]] put_used_ok [OF Cons.prems(1) 1] by auto
  obtain b' where b': "push_each cs q1 = Some (b', q')"
    and b: "b \<longleftrightarrow> should_notify (ur_idx (vq_used q)) q1 \<or> b'"
    using Cons.prems(3) 1 by (auto simp: c push_used_def bind_eq_Some_conv)
  have "b' \<longleftrightarrow> cs \<noteq> [] \<and>
    (if vq_event_idx_enabled q
     then needs_notification (ur_idx (vq_used q) + 1) (ur_idx (vq_used q) + 1 + of_nat (length cs)) (ar_used_event (vq_avail q))
     else ar_flags (vq_avail q) AND VRING_AVAIL_F_NO_INTERRUPT = 0)"
    using Cons.IH [OF q1(4) _ b'] Cons.prems(2) by (simp add: q1)
  moreover have "\<not> needs_notification x x e" for x e
    by (simp add: needs_notification_def)
  ultimately show ?case
    using notification_split [of "length cs" "ur_idx (vq_used q)" "ar_used_event (vq_avail q)"] Cons.prems(2)
    by (auto simp: b should_notify_def q1)
qed simp

text \<open>
  Publishing a batch is publishing its completions one by one.  The used ring and its index end
  up the same, and the one interrupt decision of the batch is positive exactly when one of the
  single decisions is, for every event index and flag the driver may have set and every batch
  shorter than the range of the index.
\<close>

theorem batch_is_iterated:
  assumes "vq_ok q" "length cs < 65536"
  shows "push_used_batch cs q = push_each cs q"
proof (cases "cs = []")
  case False
  obtain q' where q': "put_all_used cs q = Some q'" "ur_idx (vq_used q') = ur_idx (vq_used q) + of_nat (length cs)"
    "vq_avail q' = vq_avail q" "vq_event_idx_enabled q' = vq_event_idx_enabled q"
    using put_all_used_total [OF assms(1), of cs] by blast
  obtain b where b: "push_each cs q = Some (b, q')"
    using push_each_state [OF assms(1), of cs] q'(1) by auto
  show ?thesis
    using False b push_each_notify [OF assms b] by (simp add: push_used_batch_def q' should_notify_def)
qed (simp add: push_used_batch_def)

theorem batch_is_iterated_witness:
  "\<exists>q. virtqueue_new 2 = Ok q \<and> push_used_batch [(1, 8), (0, 4), (1, 2)] q = push_each [(1, 8), (0, 4), (1, 2)] q"
  using new_two new_ok batch_is_iterated [of _ "[(1, 8), (0, 4), (1, 2)]"] by fastforce

end
