(* ===== verification/Guest_Memory.thy ===== *)
theory Guest_Memory
  imports Net_Bytes
begin

section \<open>Guest memory\<close>

text \<open>
  \<open>src/virt/arcbox-virtio-core/src/guest_mem.rs\<close>: the bytes of guest RAM, mapped at a guest physical
  address.  An address is 64 bits wide and is checked against the mapping on every access: a read
  outside it is zero and a write outside it does nothing.  Ownership of the mapping and the raw
  pointer are not modelled; the bytes the pointer reaches are.
\<close>

subsection \<open>Little-endian words\<close>

definition le16 :: "u8 \<Rightarrow> u8 \<Rightarrow> u16" where
  "le16 a b = be16 b a"

definition le32 :: "u8 \<Rightarrow> u8 \<Rightarrow> u8 \<Rightarrow> u8 \<Rightarrow> u32" where
  "le32 a b c d = be32 d c b a"

definition le64 :: "u8 list \<Rightarrow> u64" where
  "le64 bs = word_of_nat (unat (le32 (bs ! 0) (bs ! 1) (bs ! 2) (bs ! 3))
     + 2 ^ 32 * unat (le32 (bs ! 4) (bs ! 5) (bs ! 6) (bs ! 7)))"

definition to_le16 :: "u16 \<Rightarrow> u8 list" where
  "to_le16 w = rev (to_be16 w)"

definition to_le32 :: "u32 \<Rightarrow> u8 list" where
  "to_le32 w = rev (to_be32 w)"

subsection \<open>Accesses\<close>

record GuestMemWriter =
  gm_bytes :: "u8 list"
  gm_base :: u64

definition gpa_to_offset :: "GuestMemWriter \<Rightarrow> u64 \<Rightarrow> nat \<Rightarrow> nat option" where
  "gpa_to_offset m gpa access_len =
     (if gpa < gm_base m then None
      else
        (let off = unat (gpa - gm_base m)
         in if 2 ^ 64 \<le> off + access_len then None
            else if length (gm_bytes m) < off + access_len then None
            else Some off))"

definition slice :: "GuestMemWriter \<Rightarrow> u64 \<Rightarrow> nat \<Rightarrow> u8 list option" where
  "slice m gpa len = map_option (\<lambda>off. part off (off + len) (gm_bytes m)) (gpa_to_offset m gpa len)"

text \<open>\<open>slice_mut\<close> with the bytes its caller writes through it.\<close>

definition write_slice :: "GuestMemWriter \<Rightarrow> u64 \<Rightarrow> u8 list \<Rightarrow> GuestMemWriter option" where
  "write_slice m gpa bs =
     map_option (\<lambda>off. m\<lparr>gm_bytes := put off bs (gm_bytes m)\<rparr>) (gpa_to_offset m gpa (length bs))"

definition read_u16 :: "GuestMemWriter \<Rightarrow> u64 \<Rightarrow> u16" where
  "read_u16 m gpa =
     (case gpa_to_offset m gpa 2 of
        None \<Rightarrow> 0 | Some off \<Rightarrow> le16 (gm_bytes m ! off) (gm_bytes m ! (off + 1)))"

definition read_u32 :: "GuestMemWriter \<Rightarrow> u64 \<Rightarrow> u32" where
  "read_u32 m gpa =
     (case slice m gpa 4 of None \<Rightarrow> 0 | Some b \<Rightarrow> le32 (b ! 0) (b ! 1) (b ! 2) (b ! 3))"

definition read_u64 :: "GuestMemWriter \<Rightarrow> u64 \<Rightarrow> u64" where
  "read_u64 m gpa = (case slice m gpa 8 of None \<Rightarrow> 0 | Some b \<Rightarrow> le64 b)"

definition write_u16 :: "GuestMemWriter \<Rightarrow> u64 \<Rightarrow> u16 \<Rightarrow> GuestMemWriter" where
  "write_u16 m gpa val =
     (case gpa_to_offset m gpa 2 of
        None \<Rightarrow> m | Some off \<Rightarrow> m\<lparr>gm_bytes := put off (to_le16 val) (gm_bytes m)\<rparr>)"

definition write_u32 :: "GuestMemWriter \<Rightarrow> u64 \<Rightarrow> u32 \<Rightarrow> GuestMemWriter" where
  "write_u32 m gpa val =
     (case gpa_to_offset m gpa 4 of
        None \<Rightarrow> m | Some off \<Rightarrow> m\<lparr>gm_bytes := put off (to_le32 val) (gm_bytes m)\<rparr>)"

definition write_byte :: "GuestMemWriter \<Rightarrow> u64 \<Rightarrow> u8 \<Rightarrow> GuestMemWriter" where
  "write_byte m gpa val =
     (case gpa_to_offset m gpa 1 of
        None \<Rightarrow> m | Some off \<Rightarrow> m\<lparr>gm_bytes := put off [val] (gm_bytes m)\<rparr>)"

subsection \<open>Offsets\<close>

text \<open>The mapping lies inside the 64-bit address space.\<close>

definition mem_ok :: "GuestMemWriter \<Rightarrow> bool" where
  "mem_ok m = (unat (gm_base m) + length (gm_bytes m) < 2 ^ 64)"

lemma offset_bound: "gpa_to_offset m gpa n = Some off \<Longrightarrow> off + n \<le> length (gm_bytes m)"
  by (auto simp: gpa_to_offset_def Let_def split: if_splits)

lemma offset_within:
  assumes "mem_ok m" "gpa_to_offset m gpa N = Some off" "k + n \<le> N"
  shows "gpa_to_offset m (gpa + of_nat k) n = Some (off + k)"
proof -
  have g: "gm_base m \<le> gpa" "off = unat (gpa - gm_base m)" "off + N \<le> length (gm_bytes m)"
    using assms(2) by (auto simp: gpa_to_offset_def Let_def not_less split: if_splits)
  have u: "unat gpa = unat (gm_base m) + off"
    using g(1, 2) by (simp add: unat_sub word_le_nat_alt)
  have k: "unat (gpa + of_nat k) = unat (gm_base m) + off + k"
    using assms(1, 3) g(3) u by (simp add: mem_ok_def unat_word_ariths unat_of_nat mod_simps)
  have le: "gm_base m \<le> gpa + of_nat k"
    by (simp add: word_le_nat_alt k)
  then have "unat (gpa + of_nat k - gm_base m) = off + k"
    by (simp add: unat_sub k)
  then show ?thesis
    using le assms(1, 3) g(3) by (simp add: gpa_to_offset_def Let_def not_less mem_ok_def)
qed

subsection \<open>Reads and writes at an offset\<close>

lemma length_le [simp]: "length (to_le16 w) = 2" "length (to_le32 v) = 4"
  by (simp_all add: to_le16_def to_le32_def)

text \<open>Two memories that agree except for the \<open>n\<close> bytes at offset \<open>off\<close>.\<close>

definition same_outside :: "nat \<Rightarrow> nat \<Rightarrow> GuestMemWriter \<Rightarrow> GuestMemWriter \<Rightarrow> bool" where
  "same_outside off n m m' =
     (gm_base m' = gm_base m \<and> length (gm_bytes m') = length (gm_bytes m)
      \<and> (\<forall>j < length (gm_bytes m). j < off \<or> off + n \<le> j \<longrightarrow> gm_bytes m' ! j = gm_bytes m ! j))"

lemma same_outside_refl [simp]: "same_outside off n m m"
  by (simp add: same_outside_def)

lemma same_outside_trans:
  "same_outside off n m m' \<Longrightarrow> same_outside off n m' m'' \<Longrightarrow> same_outside off n m m''"
  by (simp add: same_outside_def)

lemma same_outside_mono:
  "same_outside off n m m' \<Longrightarrow> off' \<le> off \<Longrightarrow> off + n \<le> off' + n' \<Longrightarrow> same_outside off' n' m m'"
  by (auto simp: same_outside_def)

lemma same_outside_frame:
  assumes "same_outside off n m m'"
  shows "gpa_to_offset m' = gpa_to_offset m" "mem_ok m' = mem_ok m"
  using assms by (auto simp: same_outside_def gpa_to_offset_def mem_ok_def fun_eq_iff Let_def)

lemma same_outside_put:
  "off + length bs \<le> length (gm_bytes m) \<Longrightarrow> same_outside off (length bs) m (m\<lparr>gm_bytes := put off bs (gm_bytes m)\<rparr>)"
  by (auto simp: same_outside_def nth_put)

lemma write_u16_outside: "gpa_to_offset m gpa 2 = Some off \<Longrightarrow> same_outside off 2 m (write_u16 m gpa v)"
  using same_outside_put [of off "to_le16 v" m] offset_bound by (fastforce simp: write_u16_def)

lemma write_u32_outside: "gpa_to_offset m gpa 4 = Some off \<Longrightarrow> same_outside off 4 m (write_u32 m gpa v)"
  using same_outside_put [of off "to_le32 v" m] offset_bound by (fastforce simp: write_u32_def)

lemma offset_write [simp]:
  "gpa_to_offset (write_u16 m gpa v) = gpa_to_offset m" "gpa_to_offset (write_u32 m gpa w) = gpa_to_offset m"
proof -
  show "gpa_to_offset (write_u16 m gpa v) = gpa_to_offset m"
    using same_outside_frame(1) [OF write_u16_outside]
    by (cases "gpa_to_offset m gpa 2") (auto simp: write_u16_def)
  show "gpa_to_offset (write_u32 m gpa w) = gpa_to_offset m"
    using same_outside_frame(1) [OF write_u32_outside]
    by (cases "gpa_to_offset m gpa 4") (auto simp: write_u32_def)
qed

lemma base_write [simp]: "gm_base (write_u16 m gpa v) = gm_base m" "gm_base (write_u32 m gpa w) = gm_base m"
  by (simp_all add: write_u16_def write_u32_def split: option.split)

text \<open>A read of \<open>n\<close> bytes that the changed region does not meet.\<close>

lemma slice_other:
  assumes "same_outside off k m m'" "gpa_to_offset m gpa n = Some o'" "o' + n \<le> off \<or> off + k \<le> o'"
  shows "slice m' gpa n = slice m gpa n"
proof -
  note b = offset_bound [OF assms(2)]
  have "part o' (o' + n) (gm_bytes m') = part o' (o' + n) (gm_bytes m)"
    by (rule nth_equalityI) (use assms(1, 3) b in \<open>auto simp: part_def same_outside_def\<close>)
  then show ?thesis
    using assms(2) same_outside_frame(1) [OF assms(1)] by (simp add: slice_def)
qed

lemma read_u16_slice: "read_u16 m gpa = (case slice m gpa 2 of None \<Rightarrow> 0 | Some b \<Rightarrow> le16 (b ! 0) (b ! 1))"
proof (cases "gpa_to_offset m gpa 2")
  case (Some off)
  then show ?thesis
    using offset_bound [OF Some] by (simp add: read_u16_def slice_def part_def)
qed (simp add: read_u16_def slice_def)

lemma read_u16_other:
  "same_outside off k m m' \<Longrightarrow> gpa_to_offset m gpa 2 = Some o' \<Longrightarrow> o' + 2 \<le> off \<or> off + k \<le> o' \<Longrightarrow>
   read_u16 m' gpa = read_u16 m gpa"
  by (simp add: read_u16_slice slice_other)

lemma read_u32_other:
  "same_outside off k m m' \<Longrightarrow> gpa_to_offset m gpa 4 = Some o' \<Longrightarrow> o' + 4 \<le> off \<or> off + k \<le> o' \<Longrightarrow>
   read_u32 m' gpa = read_u32 m gpa"
  by (simp add: read_u32_def slice_other)

lemma read_u64_other:
  "same_outside off k m m' \<Longrightarrow> gpa_to_offset m gpa 8 = Some o' \<Longrightarrow> o' + 8 \<le> off \<or> off + k \<le> o' \<Longrightarrow>
   read_u64 m' gpa = read_u64 m gpa"
  by (simp add: read_u64_def slice_other)

lemma read_write_u16:
  assumes "gpa_to_offset m gpa 2 = Some off"
  shows "read_u16 (write_u16 m gpa v) gpa = v"
proof -
  obtain a b where ab: "to_be16 v = [a, b]" "be16 a b = v"
    using to_be16_bytes by blast
  note f = same_outside_frame(1) [OF write_u16_outside [OF assms]]
  show ?thesis
    using assms offset_bound [OF assms] ab
    by (simp add: read_u16_def f) (simp add: write_u16_def nth_put to_le16_def le16_def)
qed

lemma read_write_u32:
  assumes "gpa_to_offset m gpa 4 = Some off"
  shows "read_u32 (write_u32 m gpa v) gpa = v"
proof -
  obtain a b c d where ab: "to_be32 v = [a, b, c, d]" "be32 a b c d = v"
    using to_be32_bytes by blast
  note f = same_outside_frame(1) [OF write_u32_outside [OF assms]]
  show ?thesis
    using assms offset_bound [OF assms] ab
    by (simp add: read_u32_def slice_def f) (simp add: write_u32_def part_def nth_put to_le32_def le32_def)
qed

end
