(* ===== verification/Split_Queue.thy ===== *)
theory Split_Queue
  imports Virtio_Queue Guest_Memory
begin

unbundle bit_operations_syntax

section \<open>The virtqueue in guest memory\<close>

text \<open>
  \<open>src/virt/arcbox-virtio-core/src/split_queue.rs\<close> and the queue configuration of \<open>lib.rs\<close>: the queue
  every device uses, whose rings live in guest memory at addresses the guest chooses.  The memory is
  an explicit argument and result of the operations, since the guest and the device share it; a
  step is one operation of the thread that drives the queue, and the fences, which order its
  accesses against the guest's, are not modelled.  Address arithmetic wraps, as in a release build;
  a remainder by a queue size of zero panics, which is \<open>None\<close>.
\<close>

subsection \<open>Layout\<close>

record QueueConfig =
  qc_desc_addr :: u64
  qc_avail_addr :: u64
  qc_used_addr :: u64
  qc_size :: u16
  qc_ready :: bool
  qc_gpa_base :: u64

record VirtqDesc =
  vd_addr :: u64
  vd_len :: u32
  vd_flags :: u16
  vd_next :: u16

definition vd_is_write :: "VirtqDesc \<Rightarrow> bool" where
  "vd_is_write d = (vd_flags d AND DESC_WRITE \<noteq> 0)"

definition vd_has_next :: "VirtqDesc \<Rightarrow> bool" where
  "vd_has_next d = (vd_flags d AND DESC_NEXT \<noteq> 0)"

record DescChain =
  dch_head_idx :: u16
  dch_descriptors :: "VirtqDesc list"

record SplitQueue =
  sq_queue_idx :: u16
  sq_size :: u16
  sq_desc_gpa :: u64
  sq_avail_gpa :: u64
  sq_used_gpa :: u64
  sq_last_avail_idx :: u16
  sq_used_idx :: u16
  sq_event_idx :: bool

definition split_queue_new :: "GuestMemWriter \<Rightarrow> u16 \<Rightarrow> QueueConfig \<Rightarrow> bool \<Rightarrow> SplitQueue" where
  "split_queue_new m queue_idx cfg event_idx =
     \<lparr>sq_queue_idx = queue_idx, sq_size = qc_size cfg, sq_desc_gpa = qc_desc_addr cfg,
      sq_avail_gpa = qc_avail_addr cfg, sq_used_gpa = qc_used_addr cfg, sq_last_avail_idx = 0,
      sq_used_idx = read_u16 m (qc_used_addr cfg + 2), sq_event_idx = event_idx\<rparr>"

definition set_last_avail_idx :: "u16 \<Rightarrow> SplitQueue \<Rightarrow> SplitQueue" where
  "set_last_avail_idx idx q = q\<lparr>sq_last_avail_idx := idx\<rparr>"

definition sq_set_event_idx :: "bool \<Rightarrow> SplitQueue \<Rightarrow> SplitQueue" where
  "sq_set_event_idx enabled q = q\<lparr>sq_event_idx := enabled\<rparr>"

subsection \<open>The available ring\<close>

definition avail_idx :: "GuestMemWriter \<Rightarrow> SplitQueue \<Rightarrow> u16" where
  "avail_idx m q = read_u16 m (sq_avail_gpa q + 2)"

definition avail_ring_entry :: "GuestMemWriter \<Rightarrow> SplitQueue \<Rightarrow> u16 \<Rightarrow> u16 option" where
  "avail_ring_entry m q pos = do {
     slot \<leftarrow> ring_slot pos (sq_size q);
     Some (read_u16 m (sq_avail_gpa q + 4 + of_nat slot * 2))
   }"

definition read_descriptor :: "GuestMemWriter \<Rightarrow> SplitQueue \<Rightarrow> u16 \<Rightarrow> VirtqDesc" where
  "read_descriptor m q idx =
     (let base = sq_desc_gpa q + of_nat (unat idx) * 16
      in \<lparr>vd_addr = read_u64 m base, vd_len = read_u32 m (base + 8), vd_flags = read_u16 m (base + 12),
          vd_next = read_u16 m (base + 14)\<rparr>)"

definition has_avail :: "GuestMemWriter \<Rightarrow> SplitQueue \<Rightarrow> bool" where
  "has_avail m q = (avail_idx m q \<noteq> sq_last_avail_idx q)"

definition next_avail_head :: "GuestMemWriter \<Rightarrow> SplitQueue \<Rightarrow> (u16 option \<times> SplitQueue) option" where
  "next_avail_head m q =
     (if avail_idx m q = sq_last_avail_idx q then Some (None, q)
      else do {
        head_idx \<leftarrow> avail_ring_entry m q (sq_last_avail_idx q);
        Some (Some head_idx, q\<lparr>sq_last_avail_idx := sq_last_avail_idx q + 1\<rparr>)
      })"

record ChainIter =
  ci_idx :: u16
  ci_ttl :: u16
  ci_done :: bool

definition chain_iter :: "SplitQueue \<Rightarrow> u16 \<Rightarrow> ChainIter" where
  "chain_iter q head = \<lparr>ci_idx = head, ci_ttl = sq_size q, ci_done = False\<rparr>"

definition chain_iter_next :: "GuestMemWriter \<Rightarrow> SplitQueue \<Rightarrow> ChainIter \<Rightarrow> (VirtqDesc \<times> ChainIter) option" where
  "chain_iter_next m q it =
     (if ci_done it \<or> ci_ttl it = 0 \<or> ci_idx it \<ge> sq_size q then None
      else
        (let it = it\<lparr>ci_ttl := ci_ttl it - 1\<rparr>; desc = read_descriptor m q (ci_idx it)
         in Some (desc, if vd_has_next desc then it\<lparr>ci_idx := vd_next desc\<rparr> else it\<lparr>ci_done := True\<rparr>)))"

lemma chain_iter_next_ttl:
  "chain_iter_next m q it = Some (d, it') \<Longrightarrow> unat (ci_ttl it') < unat (ci_ttl it)"
  by (auto simp: chain_iter_next_def Let_def unat_minus_one unat_gt_0 split: if_splits)

text \<open>The iterator run to its end, as \<open>collect\<close> does.\<close>

function collect_chain :: "GuestMemWriter \<Rightarrow> SplitQueue \<Rightarrow> ChainIter \<Rightarrow> VirtqDesc list" where
  "collect_chain m q it =
     (case chain_iter_next m q it of None \<Rightarrow> [] | Some (d, it') \<Rightarrow> d # collect_chain m q it')"
  by pat_completeness auto
termination
  by (relation "measure (\<lambda>(m, q, it). unat (ci_ttl it))") (auto dest: chain_iter_next_ttl)

declare collect_chain.simps [simp del]

definition sq_pop_avail :: "GuestMemWriter \<Rightarrow> SplitQueue \<Rightarrow> (DescChain option \<times> SplitQueue) option" where
  "sq_pop_avail m q = do {
     (r, q') \<leftarrow> next_avail_head m q;
     Some (map_option (\<lambda>head_idx. \<lparr>dch_head_idx = head_idx,
             dch_descriptors = collect_chain m q' (chain_iter q' head_idx)\<rparr>) r, q')
   }"

subsection \<open>The used ring\<close>

definition vring_need_event :: "u16 \<Rightarrow> u16 \<Rightarrow> u16 \<Rightarrow> bool" where
  "vring_need_event event_idx new_idx old_idx = (new_idx - event_idx - 1 < new_idx - old_idx)"

definition notify_needed :: "GuestMemWriter \<Rightarrow> SplitQueue \<Rightarrow> u16 \<Rightarrow> u16 \<Rightarrow> bool" where
  "notify_needed m q old_used new_used =
     (if old_used = new_used then False
      else if sq_event_idx q then
        (let used_event = read_u16 m (sq_avail_gpa q + 4 + of_nat (unat (sq_size q)) * 2)
         in vring_need_event used_event new_used old_used)
      else read_u16 m (sq_avail_gpa q) AND VRING_AVAIL_F_NO_INTERRUPT = 0)"

definition write_used_entry :: "GuestMemWriter \<Rightarrow> SplitQueue \<Rightarrow> u16 \<Rightarrow> u32 \<Rightarrow> GuestMemWriter option" where
  "write_used_entry m q head_idx len = do {
     slot \<leftarrow> ring_slot (sq_used_idx q) (sq_size q);
     let off = sq_used_gpa q + 4 + of_nat slot * 8;
     Some (write_u32 (write_u32 m off (ucast head_idx)) (off + 4) len)
   }"

text \<open>The loop over the completions: an entry, then the device's index, each time.\<close>

fun write_used_entries ::
  "(u16 \<times> u32) list \<Rightarrow> GuestMemWriter \<times> SplitQueue \<Rightarrow> (GuestMemWriter \<times> SplitQueue) option" where
  "write_used_entries [] mq = Some mq"
| "write_used_entries ((head_idx, len) # cs) (m, q) = do {
     m' \<leftarrow> write_used_entry m q head_idx len;
     write_used_entries cs (m', q\<lparr>sq_used_idx := sq_used_idx q + 1\<rparr>)
   }"

definition publish_used :: "GuestMemWriter \<Rightarrow> SplitQueue \<Rightarrow> GuestMemWriter" where
  "publish_used m q = write_u16 m (sq_used_gpa q + 2) (sq_used_idx q)"

definition sq_push_used ::
  "u16 \<Rightarrow> u32 \<Rightarrow> GuestMemWriter \<times> SplitQueue \<Rightarrow> (bool \<times> GuestMemWriter \<times> SplitQueue) option" where
  "sq_push_used head_idx len mq = (case mq of (m, q) \<Rightarrow> do {
     m \<leftarrow> write_used_entry m q head_idx len;
     let old_used = sq_used_idx q;
     let q = q\<lparr>sq_used_idx := sq_used_idx q + 1\<rparr>;
     let m = publish_used m q;
     Some (notify_needed m q old_used (sq_used_idx q), m, q)
   })"

definition sq_push_used_batch ::
  "(u16 \<times> u32) list \<Rightarrow> GuestMemWriter \<times> SplitQueue \<Rightarrow> (bool \<times> GuestMemWriter \<times> SplitQueue) option" where
  "sq_push_used_batch completions mq =
     (if completions = [] then Some (False, mq)
      else do {
        (m, q) \<leftarrow> write_used_entries completions mq;
        let m = publish_used m q;
        Some (notify_needed m q (sq_used_idx (snd mq)) (sq_used_idx q), m, q)
      })"

definition write_avail_event :: "GuestMemWriter \<Rightarrow> SplitQueue \<Rightarrow> GuestMemWriter" where
  "write_avail_event m q =
     write_u16 m (sq_used_gpa q + 4 + of_nat (unat (sq_size q)) * 8) (sq_last_avail_idx q)"

definition write_avail_event_current :: "GuestMemWriter \<Rightarrow> SplitQueue \<Rightarrow> GuestMemWriter" where
  "write_avail_event_current m q =
     write_u16 m (sq_used_gpa q + 4 + of_nat (unat (sq_size q)) * 8) (avail_idx m q)"

definition enable_notification :: "GuestMemWriter \<Rightarrow> SplitQueue \<Rightarrow> bool \<times> GuestMemWriter" where
  "enable_notification m q =
     (let m = write_avail_event m q in (avail_idx m q \<noteq> sq_last_avail_idx q, m))"

subsection \<open>The rings as a local queue\<close>

text \<open>The regions of the three rings and that the device's own writes, all in the used ring, meet neither other.\<close>

definition rings_ok :: "GuestMemWriter \<Rightarrow> SplitQueue \<Rightarrow> bool" where
  "rings_ok m q =
     (mem_ok m \<and> is_power_of_two (sq_size q)
      \<and> (let n = unat (sq_size q)
         in case (gpa_to_offset m (sq_desc_gpa q) (16 * n), gpa_to_offset m (sq_avail_gpa q) (6 + 2 * n),
                  gpa_to_offset m (sq_used_gpa q) (6 + 8 * n)) of
              (Some d, Some a, Some u) \<Rightarrow>
                (d + 16 * n \<le> u \<or> u + (6 + 8 * n) \<le> d) \<and> (a + (6 + 2 * n) \<le> u \<or> u + (6 + 8 * n) \<le> a)
            | _ \<Rightarrow> False))"

definition desc_of :: "VirtqDesc \<Rightarrow> Descriptor" where
  "desc_of d = \<lparr>de_addr = vd_addr d, de_len = vd_len d, de_flags = vd_flags d, de_next = vd_next d\<rparr>"

definition used_elem :: "GuestMemWriter \<Rightarrow> SplitQueue \<Rightarrow> nat \<Rightarrow> UsedElement" where
  "used_elem m q i =
     \<lparr>ue_id = read_u32 m (sq_used_gpa q + 4 + of_nat i * 8), ue_len = read_u32 m (sq_used_gpa q + 4 + of_nat i * 8 + 4)\<rparr>"

text \<open>What the rings in memory say, as a queue with local rings.\<close>

definition view :: "GuestMemWriter \<Rightarrow> SplitQueue \<Rightarrow> VirtQueue" where
  "view m q =
     (let n = unat (sq_size q)
      in \<lparr>vq_size = sq_size q,
          vq_desc_table = map (\<lambda>i. desc_of (read_descriptor m q (of_nat i))) [0..<n],
          vq_avail = \<lparr>ar_flags = read_u16 m (sq_avail_gpa q), ar_idx = avail_idx m q,
                      ar_ring = map (\<lambda>i. read_u16 m (sq_avail_gpa q + 4 + of_nat i * 2)) [0..<n],
                      ar_used_event = read_u16 m (sq_avail_gpa q + 4 + of_nat n * 2)\<rparr>,
          vq_used = \<lparr>ur_flags = read_u16 m (sq_used_gpa q), ur_idx = sq_used_idx q,
                     ur_ring = map (used_elem m q) [0..<n],
                     ur_avail_event = read_u16 m (sq_used_gpa q + 4 + of_nat n * 8)\<rparr>,
          vq_last_avail_idx = sq_last_avail_idx q, vq_ready = True, vq_event_idx_enabled = sq_event_idx q\<rparr>)"

lemma rings_okE:
  assumes "rings_ok m q"
  obtains d a u where
    "gpa_to_offset m (sq_desc_gpa q) (16 * unat (sq_size q)) = Some d"
    "gpa_to_offset m (sq_avail_gpa q) (6 + 2 * unat (sq_size q)) = Some a"
    "gpa_to_offset m (sq_used_gpa q) (6 + 8 * unat (sq_size q)) = Some u"
    "d + 16 * unat (sq_size q) \<le> u \<or> u + (6 + 8 * unat (sq_size q)) \<le> d"
    "a + (6 + 2 * unat (sq_size q)) \<le> u \<or> u + (6 + 8 * unat (sq_size q)) \<le> a"
    "mem_ok m" "is_power_of_two (sq_size q)"
  using assms by (auto simp: rings_ok_def Let_def split: option.splits)

lemma rings_ok_upd [simp]:
  "rings_ok m (q\<lparr>sq_event_idx := b\<rparr>) = rings_ok m q" "rings_ok m (q\<lparr>sq_used_idx := i\<rparr>) = rings_ok m q"
  "rings_ok m (q\<lparr>sq_last_avail_idx := i\<rparr>) = rings_ok m q"
  by (simp_all add: rings_ok_def Let_def)

text \<open>Addresses of the fields as offsets from the start of their ring.\<close>

lemma field_addr:
  "(g :: u64) + 4 + of_nat i * 2 = g + of_nat (4 + 2 * i)" "g + 4 + of_nat i * 8 = g + of_nat (4 + 8 * i)"
  "g + 4 + of_nat i * 8 + 4 = g + of_nat (8 + 8 * i)" "g + 2 = g + of_nat 2"
  "g + of_nat i * 16 = g + of_nat (16 * i)" "g + of_nat i * 16 + 8 = g + of_nat (16 * i + 8)"
  "g + of_nat i * 16 + 12 = g + of_nat (16 * i + 12)" "g + of_nat i * 16 + 14 = g + of_nat (16 * i + 14)"
  by simp_all

lemma view_sel [simp]:
  "vq_size (view m q) = sq_size q" "vq_last_avail_idx (view m q) = sq_last_avail_idx q"
  "ar_idx (vq_avail (view m q)) = avail_idx m q" "ur_idx (vq_used (view m q)) = sq_used_idx q"
  "vq_event_idx_enabled (view m q) = sq_event_idx q"
  "length (vq_desc_table (view m q)) = unat (sq_size q)" "length (ar_ring (vq_avail (view m q))) = unat (sq_size q)"
  "length (ur_ring (vq_used (view m q))) = unat (sq_size q)"
  by (simp_all add: view_def Let_def)

text \<open>A change of memory that does not meet a ring leaves what is read from it.\<close>

lemma desc_frame:
  assumes "mem_ok m" "gpa_to_offset m (sq_desc_gpa q) (16 * unat (sq_size q)) = Some d"
    and w: "same_outside off k m m'" and disj: "d + 16 * unat (sq_size q) \<le> off \<or> off + k \<le> d"
  shows "vq_desc_table (view m' q) = vq_desc_table (view m q)"
proof -
  let ?n = "unat (sq_size q)"
  note at = offset_within [OF assms(1, 2)]
  have rd2: "read_u16 m' (sq_desc_gpa q + of_nat k) = read_u16 m (sq_desc_gpa q + of_nat k)"
    if "k + 2 \<le> 16 * ?n" for k
    by (rule read_u16_other [OF w at]) (use that disj in auto)
  have rd4: "read_u32 m' (sq_desc_gpa q + of_nat k) = read_u32 m (sq_desc_gpa q + of_nat k)"
    if "k + 4 \<le> 16 * ?n" for k
    by (rule read_u32_other [OF w at]) (use that disj in auto)
  have rd8: "read_u64 m' (sq_desc_gpa q + of_nat k) = read_u64 m (sq_desc_gpa q + of_nat k)"
    if "k + 8 \<le> 16 * ?n" for k
    by (rule read_u64_other [OF w at]) (use that disj in auto)
  have small: "unat (of_nat i :: u16) = i" if "i < ?n" for i
    using that unat_u16 [of "sq_size q"] by (simp add: unat_of_nat)
  have "read_descriptor m' q (of_nat i) = read_descriptor m q (of_nat i)" if "i < ?n" for i
    using that rd2 [of "16 * i + 12"] rd2 [of "16 * i + 14"] rd4 [of "16 * i + 8"] rd8 [of "16 * i"]
    unfolding read_descriptor_def Let_def small [OF that] by (simp add: add.assoc mult.commute)
  then show ?thesis
    by (simp add: view_def Let_def)
qed

lemma avail_frame:
  assumes "mem_ok m" "gpa_to_offset m (sq_avail_gpa q) (6 + 2 * unat (sq_size q)) = Some a"
    and w: "same_outside off k m m'" and disj: "a + (6 + 2 * unat (sq_size q)) \<le> off \<or> off + k \<le> a"
  shows "vq_avail (view m' q) = vq_avail (view m q)"
proof -
  let ?n = "unat (sq_size q)"
  have ra: "read_u16 m' (sq_avail_gpa q + of_nat k) = read_u16 m (sq_avail_gpa q + of_nat k)"
    if "k + 2 \<le> 6 + 2 * ?n" for k
    by (rule read_u16_other [OF w offset_within [OF assms(1, 2)]]) (use that disj in auto)
  show ?thesis
    using ra [of 0] ra [of 2] ra [of "4 + 2 * ?n"] ra [of "4 + 2 * i" for i]
    unfolding view_def Let_def avail_idx_def by (simp add: add.assoc mult.commute)
qed

text \<open>Whatever the device writes inside the used ring, the other two rings read as before.\<close>

lemma used_write_frame:
  assumes "rings_ok m q" "gpa_to_offset m (sq_used_gpa q) (6 + 8 * unat (sq_size q)) = Some u"
    and w: "same_outside u (6 + 8 * unat (sq_size q)) m m'"
  shows "vq_desc_table (view m' q) = vq_desc_table (view m q)" "vq_avail (view m' q) = vq_avail (view m q)"
    "rings_ok m' q"
proof -
  let ?n = "unat (sq_size q)"
  obtain d a where d: "gpa_to_offset m (sq_desc_gpa q) (16 * ?n) = Some d"
    and a: "gpa_to_offset m (sq_avail_gpa q) (6 + 2 * ?n) = Some a"
    and du: "d + 16 * ?n \<le> u \<or> u + (6 + 8 * ?n) \<le> d" and au: "a + (6 + 2 * ?n) \<le> u \<or> u + (6 + 8 * ?n) \<le> a"
    and mem: "mem_ok m"
    by (rule rings_okE [OF assms(1)]) (use assms(2) in simp)
  show "vq_desc_table (view m' q) = vq_desc_table (view m q)"
    by (rule desc_frame [OF mem d w du])
  show "vq_avail (view m' q) = vq_avail (view m q)"
    by (rule avail_frame [OF mem a w au])
  show "rings_ok m' q"
    using assms(1) same_outside_frame [OF w] by (simp add: rings_ok_def)
qed

lemma used_elem_at:
  "used_elem m q i = \<lparr>ue_id = read_u32 m (sq_used_gpa q + of_nat (4 + 8 * i)),
     ue_len = read_u32 m (sq_used_gpa q + of_nat (8 + 8 * i))\<rparr>"
  by (simp add: used_elem_def add.assoc mult.commute)

lemma used_at:
  assumes "mem_ok m" "gpa_to_offset m g (6 + 8 * n) = Some u" "k + l \<le> 6 + 8 * n"
  shows "gpa_to_offset m (g + of_nat k) l = Some (u + k)"
  by (rule offset_within [OF assms])

text \<open>One entry of the used ring: it reads back, and no other field of the ring changes.\<close>

lemma used_entry_written:
  fixes h l :: u32
  assumes mem: "mem_ok m" and u: "gpa_to_offset m (sq_used_gpa q) (6 + 8 * n) = Some u" and s: "s < n"
  defines "m' \<equiv> write_u32 (write_u32 m (sq_used_gpa q + of_nat (4 + 8 * s)) h) (sq_used_gpa q + of_nat (8 + 8 * s)) l"
  shows "same_outside u (6 + 8 * n) m m'"
    "i < n \<Longrightarrow> used_elem m' q i = (if i = s then \<lparr>ue_id = h, ue_len = l\<rparr> else used_elem m q i)"
    "read_u16 m' (sq_used_gpa q) = read_u16 m (sq_used_gpa q)"
    "read_u16 m' (sq_used_gpa q + of_nat (4 + 8 * n)) = read_u16 m (sq_used_gpa q + of_nat (4 + 8 * n))"
proof -
  let ?g = "sq_used_gpa q" and ?m1 = "write_u32 m (sq_used_gpa q + of_nat (4 + 8 * s)) h"
  note at = used_at [OF mem u]
  have a1: "gpa_to_offset m (?g + of_nat (4 + 8 * s)) 4 = Some (u + (4 + 8 * s))"
    and a2: "gpa_to_offset m (?g + of_nat (8 + 8 * s)) 4 = Some (u + (8 + 8 * s))"
    by (rule at, use s in simp)+
  note o1 = write_u32_outside [OF a1, of h]
  have a2': "gpa_to_offset ?m1 (?g + of_nat (8 + 8 * s)) 4 = Some (u + (8 + 8 * s))"
    using a2 by (simp only: same_outside_frame(1) [OF o1])
  note o2 = write_u32_outside [OF a2', of l, folded m'_def]
  have o: "same_outside (u + (4 + 8 * s)) 8 m m'"
    by (rule same_outside_trans [OF same_outside_mono [OF o1] same_outside_mono [OF o2]]) auto
  show "same_outside u (6 + 8 * n) m m'"
    by (rule same_outside_mono [OF o]) (use s in auto)
  have r4: "read_u32 m' (?g + of_nat k) = read_u32 m (?g + of_nat k)"
    if "k + 4 \<le> 6 + 8 * n" "k + 4 \<le> 4 + 8 * s \<or> 12 + 8 * s \<le> k" for k
    by (rule read_u32_other [OF o at]) (use that in auto)
  have r2: "read_u16 m' (?g + of_nat k) = read_u16 m (?g + of_nat k)"
    if "k + 2 \<le> 6 + 8 * n" "k + 2 \<le> 4 + 8 * s \<or> 12 + 8 * s \<le> k" for k
    by (rule read_u16_other [OF o at]) (use that in auto)
  have same: "read_u32 m' (?g + of_nat (4 + 8 * s)) = h" "read_u32 m' (?g + of_nat (8 + 8 * s)) = l"
  proof -
    have a1': "gpa_to_offset ?m1 (?g + of_nat (4 + 8 * s)) 4 = Some (u + (4 + 8 * s))"
      using a1 by (simp only: same_outside_frame(1) [OF o1])
    have "read_u32 m' (?g + of_nat (4 + 8 * s)) = read_u32 ?m1 (?g + of_nat (4 + 8 * s))"
      by (rule read_u32_other [OF o2 a1']) simp
    then show "read_u32 m' (?g + of_nat (4 + 8 * s)) = h"
      using read_write_u32 [OF a1] by simp
    show "read_u32 m' (?g + of_nat (8 + 8 * s)) = l"
      unfolding m'_def by (rule read_write_u32 [OF a2'])
  qed
  show "used_elem m' q i = (if i = s then \<lparr>ue_id = h, ue_len = l\<rparr> else used_elem m q i)" if "i < n"
  proof (cases "i = s")
    case False
    have "read_u32 m' (?g + of_nat (4 + 8 * i)) = read_u32 m (?g + of_nat (4 + 8 * i))"
      "read_u32 m' (?g + of_nat (8 + 8 * i)) = read_u32 m (?g + of_nat (8 + 8 * i))"
      by (rule r4; use False that in linarith)+
    then show ?thesis
      using False by (simp only: used_elem_at if_False)
  qed (use same in \<open>simp only: used_elem_at refl if_True\<close>)
  show "read_u16 m' ?g = read_u16 m ?g"
    using r2 [of 0] by simp
  show "read_u16 m' (?g + of_nat (4 + 8 * n)) = read_u16 m (?g + of_nat (4 + 8 * n))"
    by (rule r2) (use s in auto)
qed

lemma write_used_entry_view:
  assumes "rings_ok m q"
  shows "\<exists>m'. write_used_entry m q h l = Some m' \<and> rings_ok m' (q\<lparr>sq_used_idx := sq_used_idx q + 1\<rparr>)
      \<and> put_used h l (view m q) = Some (view m' (q\<lparr>sq_used_idx := sq_used_idx q + 1\<rparr>))"
proof -
  let ?n = "unat (sq_size q)" and ?q = "q\<lparr>sq_used_idx := sq_used_idx q + 1\<rparr>"
  obtain u where u: "gpa_to_offset m (sq_used_gpa q) (6 + 8 * ?n) = Some u"
    and mem: "mem_ok m" and n: "is_power_of_two (sq_size q)"
    by (rule rings_okE [OF assms])
  define s where "s = unat (sq_used_idx q) mod ?n"
  have s: "s < ?n" "ring_slot (sq_used_idx q) (sq_size q) = Some s"
    using unat_size_pos [OF n] ring_slot_at [OF n] by (simp_all add: s_def)
  define m' where "m' = write_u32 (write_u32 m (sq_used_gpa q + of_nat (4 + 8 * s)) (ucast h))
    (sq_used_gpa q + of_nat (8 + 8 * s)) l"
  have w: "write_used_entry m q h l = Some m'"
    unfolding write_used_entry_def s(2) m'_def Let_def by (simp add: add.assoc mult.commute)
  note W = used_entry_written [OF mem u s(1), where h = "ucast h" and l = l, folded m'_def]
  note F = used_write_frame [OF assms u W(1)]
  have "view m' ?q = (view m q)\<lparr>vq_used := (vq_used (view m q))
      \<lparr>ur_ring := (ur_ring (vq_used (view m q)))[s := \<lparr>ue_id = ucast h, ue_len = l\<rparr>], ur_idx := sq_used_idx q + 1\<rparr>\<rparr>"
  proof -
    have r: "map (used_elem m' q) [0..<?n] = (map (used_elem m q) [0..<?n])[s := \<lparr>ue_id = ucast h, ue_len = l\<rparr>]"
      by (rule nth_equalityI) (use W(2) s in \<open>auto simp: nth_list_update\<close>)
    have q: "used_elem m' ?q = used_elem m' q" "avail_idx m' ?q = avail_idx m' q"
      "read_descriptor m' ?q = read_descriptor m' q"
      by (simp_all add: fun_eq_iff used_elem_def avail_idx_def read_descriptor_def)
    show ?thesis
      using F(1, 2) W(3) W(4) r unfolding view_def Let_def field_addr q by simp
  qed
  moreover have "put_used h l (view m q) = Some ((view m q)\<lparr>vq_used := (vq_used (view m q))
      \<lparr>ur_ring := (ur_ring (vq_used (view m q)))[s := \<lparr>ue_id = ucast h, ue_len = l\<rparr>], ur_idx := sq_used_idx q + 1\<rparr>\<rparr>)"
    using s by (simp add: put_used_def set_index_def)
  ultimately show ?thesis
    using w F(3) by simp
qed

text \<open>A 16-bit field of the used ring other than an entry.\<close>

lemma used_field_written:
  fixes v :: u16
  assumes ok: "rings_ok m q" and u: "gpa_to_offset m (sq_used_gpa q) (6 + 8 * unat (sq_size q)) = Some u"
    and k: "k = 2 \<or> k = 4 + 8 * unat (sq_size q)"
  defines "m' \<equiv> write_u16 m (sq_used_gpa q + of_nat k) v"
  shows "same_outside u (6 + 8 * unat (sq_size q)) m m'" "read_u16 m' (sq_used_gpa q + of_nat k) = v"
    "view m' q = (view m q)\<lparr>vq_used := (vq_used (view m q))
      \<lparr>ur_avail_event := read_u16 m' (sq_used_gpa q + of_nat (4 + 8 * unat (sq_size q)))\<rparr>\<rparr>"
    "k = 2 \<Longrightarrow> read_u16 m' (sq_used_gpa q + of_nat (4 + 8 * unat (sq_size q)))
      = read_u16 m (sq_used_gpa q + of_nat (4 + 8 * unat (sq_size q)))"
proof -
  let ?n = "unat (sq_size q)" and ?g = "sq_used_gpa q"
  have mem: "mem_ok m" and n: "is_power_of_two (sq_size q)"
    by (rule rings_okE [OF ok], simp)+
  note at = used_at [OF mem u]
  have a: "gpa_to_offset m (?g + of_nat k) 2 = Some (u + k)"
    by (rule at) (use k in auto)
  note o = write_u16_outside [OF a, of v, folded m'_def]
  show w: "same_outside u (6 + 8 * ?n) m m'"
    by (rule same_outside_mono [OF o]) (use k in auto)
  show "read_u16 m' (?g + of_nat k) = v"
    unfolding m'_def by (rule read_write_u16 [OF a])
  have r4: "read_u32 m' (?g + of_nat j) = read_u32 m (?g + of_nat j)" if "4 \<le> j" "j + 4 \<le> 4 + 8 * ?n" for j
    by (rule read_u32_other [OF o at]) (use that k in auto)
  have r2: "read_u16 m' (?g + of_nat j) = read_u16 m (?g + of_nat j)"
    if "j + 2 \<le> 6 + 8 * ?n" "j + 2 \<le> k \<or> k + 2 \<le> j" for j
    by (rule read_u16_other [OF o at]) (use that k in auto)
  show "read_u16 m' (?g + of_nat (4 + 8 * ?n)) = read_u16 m (?g + of_nat (4 + 8 * ?n))" if "k = 2"
    by (rule r2) (use that in auto)
  have "used_elem m' q i = used_elem m q i" if "i < ?n" for i
    using r4 [of "4 + 8 * i"] r4 [of "8 + 8 * i"] that unfolding used_elem_at by simp
  moreover have "read_u16 m' ?g = read_u16 m ?g"
    using r2 [of 0] k by auto
  moreover note used_write_frame(1, 2) [OF ok u w]
  ultimately show "view m' q = (view m q)\<lparr>vq_used := (vq_used (view m q))
      \<lparr>ur_avail_event := read_u16 m' (?g + of_nat (4 + 8 * ?n))\<rparr>\<rparr>"
    unfolding view_def Let_def by (simp add: add.assoc mult.commute)
qed

lemma publish_view:
  assumes "rings_ok m q"
  shows "rings_ok (publish_used m q) q" "view (publish_used m q) q = view m q"
    "read_u16 (publish_used m q) (sq_used_gpa q + 2) = sq_used_idx q"
proof -
  let ?n = "unat (sq_size q)"
  obtain u where u: "gpa_to_offset m (sq_used_gpa q) (6 + 8 * ?n) = Some u"
    by (rule rings_okE [OF assms])
  have p: "publish_used m q = write_u16 m (sq_used_gpa q + of_nat 2) (sq_used_idx q)"
    by (simp add: publish_used_def)
  note W = used_field_written [OF assms u, where k = 2 and v = "sq_used_idx q", folded p]
  have e: "ur_avail_event (vq_used (view m q)) = read_u16 m (sq_used_gpa q + of_nat (4 + 8 * ?n))"
    by (simp add: view_def Let_def add.assoc mult.commute)
  show "rings_ok (publish_used m q) q"
    by (rule used_write_frame(3) [OF assms u W(1)]) simp
  show "view (publish_used m q) q = view m q"
    unfolding W(3) [OF disjI1 [OF refl]] W(4) [OF disjI1 [OF refl] refl] e [symmetric] by simp
  show "read_u16 (publish_used m q) (sq_used_gpa q + 2) = sq_used_idx q"
    using W(2) by simp
qed

lemma avail_event_view:
  assumes "rings_ok m q"
  shows "rings_ok (write_avail_event m q) q"
    "view (write_avail_event m q) q = set_avail_event (sq_last_avail_idx q) (view m q)"
proof -
  let ?n = "unat (sq_size q)"
  obtain u where u: "gpa_to_offset m (sq_used_gpa q) (6 + 8 * ?n) = Some u"
    by (rule rings_okE [OF assms])
  have p: "write_avail_event m q = write_u16 m (sq_used_gpa q + of_nat (4 + 8 * ?n)) (sq_last_avail_idx q)"
    by (simp add: write_avail_event_def add.assoc mult.commute)
  note W = used_field_written [OF assms u, where k = "4 + 8 * ?n" and v = "sq_last_avail_idx q", folded p]
  show "rings_ok (write_avail_event m q) q"
    by (rule used_write_frame(3) [OF assms u W(1)]) simp
  show "view (write_avail_event m q) q = set_avail_event (sq_last_avail_idx q) (view m q)"
    unfolding W(3) [OF disjI2 [OF refl]] W(2) [OF disjI2 [OF refl]] by (simp add: set_avail_event_def)
qed

lemma notify_view:
  "old \<noteq> sq_used_idx q \<Longrightarrow> notify_needed m q old (sq_used_idx q) = should_notify old (view m q)"
  by (simp add: notify_needed_def should_notify_def vring_need_event_def needs_notification_def view_def Let_def)

subsection \<open>The device's operations on both queues\<close>

text \<open>What an operation of a device shows: the head and descriptors it popped, or the interrupt decision.\<close>

datatype DeviceOp = Pop | Push u16 u32 | PushBatch "(u16 \<times> u32) list" | ArmAvailEvent | EventIdx bool

datatype DeviceOut = Popped "(u16 \<times> Descriptor list) option" | Interrupt bool | Silent

fun split_op :: "DeviceOp \<Rightarrow> GuestMemWriter \<times> SplitQueue \<Rightarrow> (DeviceOut \<times> GuestMemWriter \<times> SplitQueue) option" where
  "split_op Pop (m, q) = do {
     (r, q') \<leftarrow> sq_pop_avail m q;
     Some (Popped (map_option (\<lambda>c. (dch_head_idx c, map desc_of (dch_descriptors c))) r), m, q')
   }"
| "split_op (Push h l) mq = map_option (\<lambda>(b, mq'). (Interrupt b, mq')) (sq_push_used h l mq)"
| "split_op (PushBatch cs) mq = map_option (\<lambda>(b, mq'). (Interrupt b, mq')) (sq_push_used_batch cs mq)"
| "split_op ArmAvailEvent (m, q) = Some (Silent, write_avail_event m q, q)"
| "split_op (EventIdx b) (m, q) = Some (Silent, m, sq_set_event_idx b q)"

fun local_op :: "DeviceOp \<Rightarrow> VirtQueue \<Rightarrow> (DeviceOut \<times> VirtQueue) option" where
  "local_op Pop q = do {
     (r, q') \<leftarrow> pop_avail q;
     Some (Popped (map_option (\<lambda>(h, c). (h, chain_collect q' c)) r), q')
   }"
| "local_op (Push h l) q = map_option (\<lambda>(b, q'). (Interrupt b, q')) (push_used h l q)"
| "local_op (PushBatch cs) q = map_option (\<lambda>(b, q'). (Interrupt b, q')) (push_used_batch cs q)"
| "local_op ArmAvailEvent q = Some (Silent, set_avail_event (vq_last_avail_idx q) q)"
| "local_op (EventIdx b) q = Some (Silent, vq_set_event_idx b q)"

lemma descriptor_view:
  "get_descriptor (view m q) i = (if i < sq_size q then Some (desc_of (read_descriptor m q i)) else None)"
  by (auto simp: get_descriptor_def index_def view_def Let_def word_less_nat_alt)

lemma has_next_desc [simp]: "has_next (desc_of d) = vd_has_next d" "de_next (desc_of d) = vd_next d"
  by (simp_all add: has_next_def vd_has_next_def desc_of_def)

lemma collect_view:
  "map desc_of (collect_chain m q it) =
   chain_collect (view m q) \<lparr>ch_current = (if ci_done it then None else Some (ci_idx it)), ch_ttl = ci_ttl it\<rparr>"
proof (induction m q it rule: collect_chain.induct)
  case (1 m q it)
  let ?c = "\<lparr>ch_current = (if ci_done it then None else Some (ci_idx it)), ch_ttl = ci_ttl it\<rparr>"
  show ?case
  proof (cases "chain_iter_next m q it")
    case None
    then have "chain_next (view m q) ?c = None"
      by (auto simp: chain_iter_next_def chain_next_def descriptor_view Let_def split: if_splits)
    then show ?thesis
      using None by (simp add: collect_chain.simps [of m q it] chain_collect.simps [of _ ?c])
  next
    case (Some r)
    then obtain d it' where n: "chain_iter_next m q it = Some (d, it')"
      by (cases r) auto
    have "chain_next (view m q) ?c
        = Some (desc_of d, \<lparr>ch_current = (if ci_done it' then None else Some (ci_idx it')), ch_ttl = ci_ttl it'\<rparr>)"
      using n by (auto simp: chain_iter_next_def chain_next_def descriptor_view Let_def not_le split: if_splits)
    then show ?thesis
      using n "1.IH" [OF n refl] by (simp add: collect_chain.simps [of m q it] chain_collect.simps [of _ ?c])
  qed
qed

lemma pop_view:
  assumes "rings_ok m q"
  shows "\<exists>r q'. sq_pop_avail m q = Some (r, q') \<and> rings_ok m q'
      \<and> local_op Pop (view m q) = Some (Popped (map_option (\<lambda>c. (dch_head_idx c, map desc_of (dch_descriptors c))) r), view m q')"
proof (cases "avail_idx m q = sq_last_avail_idx q")
  case True
  then show ?thesis
    using assms by (simp add: sq_pop_avail_def next_avail_head_def pop_avail_def has_available_def)
next
  case False
  let ?q = "q\<lparr>sq_last_avail_idx := sq_last_avail_idx q + 1\<rparr>" and ?n = "unat (sq_size q)"
  have n: "is_power_of_two (sq_size q)"
    by (rule rings_okE [OF assms])
  define s where "s = unat (sq_last_avail_idx q) mod ?n"
  have s: "s < ?n" "ring_slot (sq_last_avail_idx q) (sq_size q) = Some s"
    using unat_size_pos [OF n] ring_slot_at [OF n] by (simp_all add: s_def)
  define h where "h = read_u16 m (sq_avail_gpa q + 4 + of_nat s * 2)"
  have sq: "sq_pop_avail m q = Some (Some \<lparr>dch_head_idx = h, dch_descriptors = collect_chain m ?q (chain_iter ?q h)\<rparr>, ?q)"
    using False by (simp add: sq_pop_avail_def next_avail_head_def avail_ring_entry_def s h_def)
  have v: "(view m q)\<lparr>vq_last_avail_idx := sq_last_avail_idx q + 1\<rparr> = view m ?q"
    by (simp add: view_def Let_def avail_idx_def read_descriptor_def used_elem_def)
  have "ar_ring (vq_avail (view m q)) ! s = h"
    using s(1) by (simp add: view_def Let_def h_def)
  then have "pop_avail (view m q) = Some (Some (h, \<lparr>ch_current = Some h, ch_ttl = sq_size q\<rparr>), view m ?q)"
    using False s v by (simp add: pop_avail_def has_available_def index_def)
  moreover have "map desc_of (collect_chain m ?q (chain_iter ?q h))
      = chain_collect (view m ?q) \<lparr>ch_current = Some h, ch_ttl = sq_size q\<rparr>"
    using collect_view [of m ?q "chain_iter ?q h"] by (simp add: chain_iter_def)
  moreover have "rings_ok m ?q"
    using assms by simp
  ultimately show ?thesis
    using sq by simp
qed

lemma push_view:
  assumes "rings_ok m q"
  shows "\<exists>b m' q'. sq_push_used h l (m, q) = Some (b, m', q') \<and> rings_ok m' q'
      \<and> push_used h l (view m q) = Some (b, view m' q')"
proof -
  let ?q = "q\<lparr>sq_used_idx := sq_used_idx q + 1\<rparr>"
  obtain m1 where w: "write_used_entry m q h l = Some m1" "rings_ok m1 ?q" "put_used h l (view m q) = Some (view m1 ?q)"
    using write_used_entry_view [OF assms] by blast
  note P = publish_view [OF w(2)]
  have "notify_needed (publish_used m1 ?q) ?q (sq_used_idx q) (sq_used_idx ?q)
      = should_notify (sq_used_idx q) (view (publish_used m1 ?q) ?q)"
    by (rule notify_view) simp
  then show ?thesis
    using w P by (simp add: sq_push_used_def push_used_def Let_def)
qed

lemma push_published:
  assumes "rings_ok m q" "sq_push_used h l (m, q) = Some (b, m', q')"
  shows "q' = q\<lparr>sq_used_idx := sq_used_idx q + 1\<rparr>" "read_u16 m' (sq_used_gpa q + 2) = sq_used_idx q + 1"
    "gpa_to_offset m' = gpa_to_offset m" "gm_base m' = gm_base m"
proof -
  let ?q = "q\<lparr>sq_used_idx := sq_used_idx q + 1\<rparr>"
  obtain m1 where w: "write_used_entry m q h l = Some m1" "rings_ok m1 ?q"
    using write_used_entry_view [OF assms(1)] by blast
  have "gpa_to_offset m1 = gpa_to_offset m" "gm_base m1 = gm_base m"
    using w(1) by (auto simp: write_used_entry_def bind_eq_Some_conv Let_def)
  moreover have "m' = publish_used m1 ?q" "q' = ?q"
    using assms(2) w(1) by (auto simp: sq_push_used_def Let_def)
  ultimately show "q' = ?q" "read_u16 m' (sq_used_gpa q + 2) = sq_used_idx q + 1" "gpa_to_offset m' = gpa_to_offset m"
    "gm_base m' = gm_base m"
    using publish_view(3) [OF w(2)] by (simp_all add: publish_used_def)
qed

lemma entries_view:
  "rings_ok m q \<Longrightarrow> \<exists>m' q'. write_used_entries cs (m, q) = Some (m', q') \<and> rings_ok m' q'
     \<and> put_all_used cs (view m q) = Some (view m' q') \<and> sq_used_idx q' = sq_used_idx q + of_nat (length cs)"
proof (induction cs arbitrary: m q)
  case (Cons c cs)
  obtain h l where c: "c = (h, l)"
    by fastforce
  let ?q = "q\<lparr>sq_used_idx := sq_used_idx q + 1\<rparr>"
  obtain m1 where w: "write_used_entry m q h l = Some m1" "rings_ok m1 ?q" "put_used h l (view m q) = Some (view m1 ?q)"
    using write_used_entry_view [OF Cons.prems] by blast
  then show ?case
    using Cons.IH [OF w(2)] by (auto simp: c algebra_simps)
qed simp

lemma batch_view:
  assumes "rings_ok m q" "length cs < 65536"
  shows "\<exists>b m' q'. sq_push_used_batch cs (m, q) = Some (b, m', q') \<and> rings_ok m' q'
      \<and> push_used_batch cs (view m q) = Some (b, view m' q')"
proof (cases "cs = []")
  case False
  obtain m1 q1 where w: "write_used_entries cs (m, q) = Some (m1, q1)" "rings_ok m1 q1"
    "put_all_used cs (view m q) = Some (view m1 q1)" "sq_used_idx q1 = sq_used_idx q + of_nat (length cs)"
    using entries_view [OF assms(1)] by blast
  note P = publish_view [OF w(2)]
  have "(of_nat (length cs) :: u16) \<noteq> 0"
    using False assms(2) by (simp add: word_unat_eq_iff unat_of_nat)
  then have "notify_needed (publish_used m1 q1) q1 (sq_used_idx q) (sq_used_idx q1)
      = should_notify (sq_used_idx q) (view (publish_used m1 q1) q1)"
    by (intro notify_view) (simp add: w(4))
  then show ?thesis
    using w P False by (simp add: sq_push_used_batch_def push_used_batch_def Let_def)
qed (use assms in \<open>auto simp: sq_push_used_batch_def push_used_batch_def\<close>)

fun batch_of :: "DeviceOp \<Rightarrow> (u16 \<times> u32) list" where
  "batch_of (PushBatch cs) = cs"
| "batch_of _ = []"

text \<open>
  C8: The queue in guest memory implements the queue with local rings.  Whatever the guest wrote
  into its rings, as long as they lie inside guest memory and the used ring overlaps neither of the
  others, every operation of the device on guest memory returns, shows the same head, descriptors
  or interrupt decision as the operation on local rings with the same contents, and leaves guest
  memory holding what the local rings hold after it.
\<close>

theorem split_refines_local:
  assumes "rings_ok m q" "length (batch_of op) < 65536"
  shows "\<exists>out m' q'. split_op op (m, q) = Some (out, m', q') \<and> rings_ok m' q'
      \<and> local_op op (view m q) = Some (out, view m' q')"
proof (cases op)
  case Pop
  then show ?thesis
    using pop_view [OF assms(1)] by auto
next
  case (Push h l)
  then show ?thesis
    using push_view [OF assms(1), of h l] by auto
next
  case (PushBatch cs)
  then show ?thesis
    using batch_view [OF assms(1), of cs] assms(2) by auto
next
  case ArmAvailEvent
  then show ?thesis
    using avail_event_view [OF assms(1)] by simp
next
  case (EventIdx b)
  have "view m (sq_set_event_idx b q) = vq_set_event_idx b (view m q)"
    by (simp add: view_def Let_def sq_set_event_idx_def vq_set_event_idx_def avail_idx_def read_descriptor_def used_elem_def)
  then show ?thesis
    using EventIdx assms(1) by (simp add: sq_set_event_idx_def)
qed

text \<open>Guest memory of 128 bytes at address 4096, with the rings of a queue of two.\<close>

definition sample_mem :: GuestMemWriter where
  "sample_mem = \<lparr>gm_bytes = replicate 128 0, gm_base = 4096\<rparr>"

definition sample_split :: SplitQueue where
  "sample_split = split_queue_new sample_mem 0
     \<lparr>qc_desc_addr = 4096, qc_avail_addr = 4128, qc_used_addr = 4144, qc_size = 2, qc_ready = True, qc_gpa_base = 4096\<rparr> True"

lemma sample_rings: "rings_ok sample_mem sample_split"
  by (simp add: rings_ok_def sample_split_def sample_mem_def split_queue_new_def mem_ok_def power_two
      gpa_to_offset_def Let_def)

theorem split_refines_local_witness:
  "\<exists>out m' q'. split_op (PushBatch [(1, 512), (0, 16), (1, 0)]) (sample_mem, sample_split) = Some (out, m', q')
      \<and> local_op (PushBatch [(1, 512), (0, 16), (1, 0)]) (view sample_mem sample_split) = Some (out, view m' q')"
  using split_refines_local [OF sample_rings, of "PushBatch [(1, 512), (0, 16), (1, 0)]"] by auto

subsection \<open>What the device can change in guest memory\<close>

text \<open>Only the bytes of \<open>n\<close> addresses from \<open>lo\<close> on may differ.\<close>

definition only_range :: "nat \<Rightarrow> nat \<Rightarrow> GuestMemWriter \<Rightarrow> GuestMemWriter \<Rightarrow> bool" where
  "only_range lo n m m' =
     (gm_base m' = gm_base m \<and> length (gm_bytes m') = length (gm_bytes m)
      \<and> (\<forall>j < length (gm_bytes m). gm_bytes m' ! j \<noteq> gm_bytes m ! j \<longrightarrow>
            lo \<le> unat (gm_base m) + j \<and> unat (gm_base m) + j < lo + n))"

lemma only_range_refl [simp]: "only_range lo n m m"
  by (simp add: only_range_def)

lemma only_range_trans: "only_range lo n m m' \<Longrightarrow> only_range lo n m' m'' \<Longrightarrow> only_range lo n m m''"
  by (auto simp: only_range_def)

lemma only_range_put:
  assumes "gpa_to_offset m (g + of_nat k) (length bs) = Some off" "k + length bs \<le> n" "unat g + n < 2 ^ 64"
  shows "only_range (unat g) n m (m\<lparr>gm_bytes := put off bs (gm_bytes m)\<rparr>)"
proof -
  note b = offset_bound [OF assms(1)]
  have u: "unat (g + of_nat k) = unat g + k"
    using assms(2, 3) by (simp add: unat_word_ariths unat_of_nat mod_simps)
  have "gm_base m \<le> g + of_nat k" "off = unat (g + of_nat k - gm_base m)"
    using assms(1) by (auto simp: gpa_to_offset_def Let_def not_less split: if_splits)
  then have "unat (gm_base m) + off = unat g + k"
    using u by (simp add: unat_sub word_le_nat_alt)
  then show ?thesis
    using b assms(2) by (auto simp: only_range_def nth_put)
qed

lemma only_range_write_u16:
  "k + 2 \<le> n \<Longrightarrow> unat g + n < 2 ^ 64 \<Longrightarrow> only_range (unat g) n m (write_u16 m (g + of_nat k) v)"
  using only_range_put [of m g k "to_le16 v"] by (auto simp: write_u16_def split: option.split)

lemma only_range_write_u32:
  "k + 4 \<le> n \<Longrightarrow> unat g + n < 2 ^ 64 \<Longrightarrow> only_range (unat g) n m (write_u32 m (g + of_nat k) v)"
  using only_range_put [of m g k "to_le32 v"] by (auto simp: write_u32_def split: option.split)

lemma slot_less: "n \<noteq> 0 \<Longrightarrow> \<exists>s < unat n. ring_slot i n = Some s"
  by (simp add: ring_slot_def unat_mod_distrib unat_gt_0)

lemma entry_only:
  assumes "sq_size q \<noteq> 0" "unat (sq_used_gpa q) + (6 + 8 * unat (sq_size q)) < 2 ^ 64"
  shows "\<exists>m'. write_used_entry m q h l = Some m' \<and> only_range (unat (sq_used_gpa q)) (6 + 8 * unat (sq_size q)) m m'"
proof -
  obtain s where s: "s < unat (sq_size q)" "ring_slot (sq_used_idx q) (sq_size q) = Some s"
    using slot_less [OF assms(1)] by blast
  let ?m1 = "write_u32 m (sq_used_gpa q + of_nat (4 + 8 * s)) (ucast h)"
  have "write_used_entry m q h l = Some (write_u32 ?m1 (sq_used_gpa q + of_nat (8 + 8 * s)) l)"
    unfolding write_used_entry_def s(2) Let_def by (simp add: add.assoc mult.commute)
  moreover have "only_range (unat (sq_used_gpa q)) (6 + 8 * unat (sq_size q)) m
      (write_u32 ?m1 (sq_used_gpa q + of_nat (8 + 8 * s)) l)"
    by (rule only_range_trans [OF only_range_write_u32 only_range_write_u32]) (use s(1) assms(2) in auto)
  ultimately show ?thesis
    by blast
qed

lemma entries_only:
  assumes "sq_size q \<noteq> 0" "unat (sq_used_gpa q) + (6 + 8 * unat (sq_size q)) < 2 ^ 64"
  shows "\<exists>m' i. write_used_entries cs (m, q) = Some (m', q\<lparr>sq_used_idx := i\<rparr>)
      \<and> only_range (unat (sq_used_gpa q)) (6 + 8 * unat (sq_size q)) m m'"
  using assms
proof (induction cs arbitrary: m q)
  case Nil
  then show ?case
    by (auto intro: exI [of _ "sq_used_idx q"])
next
  case (Cons c cs)
  obtain h l where c: "c = (h, l)"
    by fastforce
  obtain m1 where m1: "write_used_entry m q h l = Some m1"
    "only_range (unat (sq_used_gpa q)) (6 + 8 * unat (sq_size q)) m m1"
    using entry_only [OF Cons.prems] by blast
  show ?case
    using Cons.IH [of "q\<lparr>sq_used_idx := sq_used_idx q + 1\<rparr>" m1] Cons.prems m1 only_range_trans [OF m1(2)]
    by (fastforce simp: c)
qed

lemma publish_only:
  assumes "unat (sq_used_gpa q) + (6 + 8 * unat (sq_size q)) < 2 ^ 64"
  shows "only_range (unat (sq_used_gpa q)) (6 + 8 * unat (sq_size q)) m (publish_used m (q\<lparr>sq_used_idx := i\<rparr>))"
  using only_range_write_u16 [of 2 "6 + 8 * unat (sq_size q)" "sq_used_gpa q" m i] assms
  by (simp add: publish_used_def)

text \<open>
  C20: A device is safe against its guest.  For every configuration of the ring addresses, inside
  guest memory or not, overlapping or not, and every content of guest memory, an operation of the
  device on a queue of nonzero size returns, and it changes no byte of guest memory outside the
  addresses of the used ring and none of the mapping's bounds.
\<close>

theorem device_writes_only_used_ring:
  assumes "sq_size q \<noteq> 0" "unat (sq_used_gpa q) + (6 + 8 * unat (sq_size q)) < 2 ^ 64"
  shows "\<exists>out m' q'. split_op op (m, q) = Some (out, m', q')
      \<and> only_range (unat (sq_used_gpa q)) (6 + 8 * unat (sq_size q)) m m'"
proof (cases op)
  case Pop
  obtain s where "ring_slot (sq_last_avail_idx q) (sq_size q) = Some s"
    using slot_less [OF assms(1)] by blast
  then show ?thesis
    using Pop by (auto simp: sq_pop_avail_def next_avail_head_def avail_ring_entry_def)
next
  case (Push h l)
  obtain m1 where m1: "write_used_entry m q h l = Some m1"
    "only_range (unat (sq_used_gpa q)) (6 + 8 * unat (sq_size q)) m m1"
    using entry_only [OF assms] by blast
  then show ?thesis
    using Push only_range_trans [OF m1(2) publish_only [OF assms(2)]]
    by (simp add: sq_push_used_def Let_def)
next
  case (PushBatch cs)
  obtain m1 i where m1: "write_used_entries cs (m, q) = Some (m1, q\<lparr>sq_used_idx := i\<rparr>)"
    "only_range (unat (sq_used_gpa q)) (6 + 8 * unat (sq_size q)) m m1"
    using entries_only [OF assms] by blast
  have "only_range (unat (sq_used_gpa q)) (6 + 8 * unat (sq_size q)) m (publish_used m1 (q\<lparr>sq_used_idx := i\<rparr>))"
    by (rule only_range_trans [OF m1(2) publish_only [OF assms(2)]])
  then show ?thesis
    using PushBatch m1(1) by (cases "cs = []") (simp_all add: sq_push_used_batch_def Let_def)
next
  case ArmAvailEvent
  then show ?thesis
    using only_range_write_u16 [of "4 + 8 * unat (sq_size q)" "6 + 8 * unat (sq_size q)" "sq_used_gpa q" m "sq_last_avail_idx q"] assms(2)
    by (simp add: write_avail_event_def add.assoc mult.commute)
qed simp

theorem device_writes_only_used_ring_witness:
  "\<exists>out m' q'. split_op (Push 9 512) (sample_mem, sample_split\<lparr>sq_used_gpa := 4090, sq_desc_gpa := 4090\<rparr>) = Some (out, m', q')
      \<and> only_range 4090 22 sample_mem m'"
  using device_writes_only_used_ring [of "sample_split\<lparr>sq_used_gpa := 4090, sq_desc_gpa := 4090\<rparr>" "Push 9 512" sample_mem]
  by (simp add: sample_split_def split_queue_new_def)

end
