(* ===== verification/Virtio_Rng.thy ===== *)
theory Virtio_Rng
  imports Split_Queue
begin

unbundle bit_operations_syntax

section \<open>The entropy device\<close>

text \<open>
  \<open>src/virt/arcbox-virtio-rng/src/lib.rs\<close>: the device that fills the guest's buffers with random bytes.
  The system's random source is the parameter \<open>rnd\<close>: the bytes its \<open>k\<close>-th call leaves in a buffer
  of a given length, and whether the call succeeded.  The loop runs until the available ring is
  empty; a guest may point its buffers at the rings themselves, so that it need not end, and a run
  that does not end, like one that panics, is \<open>None\<close>.
\<close>

subsection \<open>The device\<close>

record VirtioRng =
  rng_features :: u64
  rng_active :: bool

definition FEATURE_VERSION_1 :: u64 where
  "FEATURE_VERSION_1 = push_bit 32 1"

definition rng_new :: VirtioRng where
  "rng_new = \<lparr>rng_features = FEATURE_VERSION_1, rng_active = False\<rparr>"

definition rng_ack_features :: "u64 \<Rightarrow> VirtioRng \<Rightarrow> VirtioRng" where
  "rng_ack_features features d = d\<lparr>rng_features := rng_features d AND features\<rparr>"

definition rng_read_config :: "u64 \<Rightarrow> u8 list \<Rightarrow> u8 list" where
  "rng_read_config offset data = map (\<lambda>_. 0) data"

definition rng_activate :: "VirtioRng \<Rightarrow> VirtioRng" where
  "rng_activate d = d\<lparr>rng_active := True\<rparr>"

definition rng_reset :: "VirtioRng \<Rightarrow> VirtioRng" where
  "rng_reset d = d\<lparr>rng_active := False\<rparr>"

type_synonym random = "nat \<Rightarrow> nat \<Rightarrow> u8 list \<times> bool"

text \<open>The loop over the descriptors of a chain, with the number of calls so far and the bytes filled.\<close>

fun fill_chain :: "random \<Rightarrow> VirtqDesc list \<Rightarrow> GuestMemWriter \<times> nat \<times> u32 \<Rightarrow> GuestMemWriter \<times> nat \<times> u32" where
  "fill_chain rnd [] st = st"
| "fill_chain rnd (d # ds) (m, k, filled) =
     (if \<not> vd_is_write d \<or> vd_len d = 0 then fill_chain rnd ds (m, k, filled)
      else
        (case gpa_to_offset m (vd_addr d) (unat (vd_len d)) of
           None \<Rightarrow> fill_chain rnd ds (m, k, filled)
         | Some off \<Rightarrow>
             (let (bs, success) = rnd k (unat (vd_len d));
                  m' = m\<lparr>gm_bytes := put off bs (gm_bytes m)\<rparr>
              in if \<not> success then (m', Suc k, filled)
                 else fill_chain rnd ds (m', Suc k, filled + vd_len d))))"

partial_function (option) rng_loop ::
  "random \<Rightarrow> nat \<Rightarrow> GuestMemWriter \<times> SplitQueue \<Rightarrow> (u16 \<times> u32) list
     \<Rightarrow> ((u16 \<times> u32) list \<times> GuestMemWriter \<times> SplitQueue) option" where
  "rng_loop rnd k mq completions =
     (case sq_pop_avail (fst mq) (snd mq) of
        None \<Rightarrow> None
      | Some (None, queue) \<Rightarrow> Some (completions, fst mq, queue)
      | Some (Some chain, queue) \<Rightarrow>
          (case fill_chain rnd (dch_descriptors chain) (fst mq, k, 0) of
             (m, k', filled) \<Rightarrow>
               (case sq_push_used (dch_head_idx chain) filled (m, queue) of
                  None \<Rightarrow> None
                | Some (_, mq') \<Rightarrow> rng_loop rnd k' mq' (completions @ [(dch_head_idx chain, filled)]))))"

definition rng_queue :: "u8 list \<Rightarrow> QueueConfig \<Rightarrow> GuestMemWriter \<times> SplitQueue" where
  "rng_queue memory cfg =
     (let m = \<lparr>gm_bytes = memory, gm_base = qc_gpa_base cfg\<rparr>; queue = split_queue_new m 0 cfg False
      in (m, set_last_avail_idx (sq_used_idx queue) queue))"

definition rng_process_queue ::
  "random \<Rightarrow> u16 \<Rightarrow> u8 list \<Rightarrow> QueueConfig \<Rightarrow> (((u16 \<times> u32) list, VirtioError) result \<times> u8 list) option" where
  "rng_process_queue rnd queue_idx memory cfg =
     (if queue_idx \<noteq> 0 \<or> \<not> qc_ready cfg \<or> qc_size cfg = 0 then Some (Ok [], memory)
      else
        (case rng_loop rnd 0 (rng_queue memory cfg) [] of
           None \<Rightarrow> None
         | Some (completions, m, _) \<Rightarrow> Some (Ok completions, gm_bytes m)))"

subsection \<open>Buffers apart from the rings\<close>

definition apart :: "nat \<Rightarrow> nat \<Rightarrow> nat \<Rightarrow> nat \<Rightarrow> bool" where
  "apart o' l r k = (o' + l \<le> r \<or> r + k \<le> o')"

definition ring_apart :: "GuestMemWriter \<Rightarrow> SplitQueue \<Rightarrow> nat \<Rightarrow> nat \<Rightarrow> bool" where
  "ring_apart m q off l =
     (let n = unat (sq_size q)
      in case (gpa_to_offset m (sq_desc_gpa q) (16 * n), gpa_to_offset m (sq_avail_gpa q) (6 + 2 * n),
               gpa_to_offset m (sq_used_gpa q) (6 + 8 * n)) of
           (Some d, Some a, Some u) \<Rightarrow> apart off l d (16 * n) \<and> apart off l a (6 + 2 * n) \<and> apart off l u (6 + 8 * n)
         | _ \<Rightarrow> False)"

text \<open>Every buffer of the descriptor table that lies in guest memory is apart from the rings.\<close>

definition buffers_apart :: "GuestMemWriter \<Rightarrow> SplitQueue \<Rightarrow> bool" where
  "buffers_apart m q =
     list_all (\<lambda>d. case gpa_to_offset m (de_addr d) (unat (de_len d)) of
                     None \<Rightarrow> True | Some off \<Rightarrow> ring_apart m q off (unat (de_len d)))
       (vq_desc_table (view m q))"

lemma used_frame:
  assumes mem: "mem_ok m" and u: "gpa_to_offset m (sq_used_gpa q) (6 + 8 * unat (sq_size q)) = Some u"
    and w: "same_outside off k m m'" and disj: "apart off k u (6 + 8 * unat (sq_size q))"
  shows "vq_used (view m' q) = vq_used (view m q)" "read_u16 m' (sq_used_gpa q + 2) = read_u16 m (sq_used_gpa q + 2)"
proof -
  let ?n = "unat (sq_size q)" and ?g = "sq_used_gpa q"
  note at = used_at [OF mem u]
  have r2: "read_u16 m' (?g + of_nat j) = read_u16 m (?g + of_nat j)" if "j + 2 \<le> 6 + 8 * ?n" for j
    by (rule read_u16_other [OF w at]) (use that disj in \<open>auto simp: apart_def\<close>)
  have r4: "read_u32 m' (?g + of_nat j) = read_u32 m (?g + of_nat j)" if "j + 4 \<le> 6 + 8 * ?n" for j
    by (rule read_u32_other [OF w at]) (use that disj in \<open>auto simp: apart_def\<close>)
  have "used_elem m' q i = used_elem m q i" if "i < ?n" for i
    using r4 [of "4 + 8 * i"] r4 [of "8 + 8 * i"] that unfolding used_elem_at by simp
  then show "vq_used (view m' q) = vq_used (view m q)"
    using r2 [of 0] r2 [of "4 + 8 * ?n"] unfolding view_def Let_def by (simp add: add.assoc mult.commute)
  show "read_u16 m' (?g + 2) = read_u16 m (?g + 2)"
    using r2 [of 2] by simp
qed

lemma apart_frame:
  assumes ok: "rings_ok m q" and w: "same_outside off k m m'" and disj: "ring_apart m q off k"
  shows "view m' q = view m q" "rings_ok m' q" "gpa_to_offset m' = gpa_to_offset m"
    "read_u16 m' (sq_used_gpa q + 2) = read_u16 m (sq_used_gpa q + 2)"
proof -
  let ?n = "unat (sq_size q)"
  obtain d a u where o: "gpa_to_offset m (sq_desc_gpa q) (16 * ?n) = Some d"
    "gpa_to_offset m (sq_avail_gpa q) (6 + 2 * ?n) = Some a"
    "gpa_to_offset m (sq_used_gpa q) (6 + 8 * ?n) = Some u" and mem: "mem_ok m"
    by (rule rings_okE [OF ok])
  have dj: "apart off k d (16 * ?n)" "apart off k a (6 + 2 * ?n)" "apart off k u (6 + 8 * ?n)"
    using disj o by (simp_all add: ring_apart_def Let_def)
  have "vq_desc_table (view m' q) = vq_desc_table (view m q)"
    by (rule desc_frame [OF mem o(1) w]) (use dj(1) in \<open>auto simp: apart_def\<close>)
  moreover have "vq_avail (view m' q) = vq_avail (view m q)"
    by (rule avail_frame [OF mem o(2) w]) (use dj(2) in \<open>auto simp: apart_def\<close>)
  moreover note used_frame [OF mem o(3) w dj(3)]
  ultimately show "view m' q = view m q" "read_u16 m' (sq_used_gpa q + 2) = read_u16 m (sq_used_gpa q + 2)"
    by (simp_all add: view_def Let_def)
  show "rings_ok m' q" "gpa_to_offset m' = gpa_to_offset m"
    using ok same_outside_frame [OF w] by (simp_all add: rings_ok_def)
qed

definition buffer_apart :: "GuestMemWriter \<Rightarrow> SplitQueue \<Rightarrow> VirtqDesc \<Rightarrow> bool" where
  "buffer_apart m q d =
     (case gpa_to_offset m (vd_addr d) (unat (vd_len d)) of
        None \<Rightarrow> True | Some off \<Rightarrow> ring_apart m q off (unat (vd_len d)))"

lemma ring_apart_cong: "gpa_to_offset m' = gpa_to_offset m \<Longrightarrow> ring_apart m' q = ring_apart m q"
  by (simp add: fun_eq_iff ring_apart_def)

lemma buffer_apart_cong: "gpa_to_offset m' = gpa_to_offset m \<Longrightarrow> buffer_apart m' q d = buffer_apart m q d"
  using ring_apart_cong [of m' m q] by (simp add: buffer_apart_def split: option.split)

lemma fill_keeps_rings:
  assumes "\<And>k n. length (fst (rnd k n)) = n"
  shows "rings_ok m q \<Longrightarrow> list_all (buffer_apart m q) ds \<Longrightarrow> fill_chain rnd ds (m, k, f) = (m', k', f') \<Longrightarrow>
    view m' q = view m q \<and> rings_ok m' q \<and> gpa_to_offset m' = gpa_to_offset m
    \<and> read_u16 m' (sq_used_gpa q + 2) = read_u16 m (sq_used_gpa q + 2)"
proof (induction ds arbitrary: m k f)
  case (Cons d ds)
  show ?case
  proof (cases "\<not> vd_is_write d \<or> vd_len d = 0 \<or> gpa_to_offset m (vd_addr d) (unat (vd_len d)) = None")
    case True
    then have "fill_chain rnd (d # ds) (m, k, f) = fill_chain rnd ds (m, k, f)"
      by auto
    then show ?thesis
      using Cons.IH [OF Cons.prems(1)] Cons.prems(2, 3) by simp
  next
    case False
    then obtain off where off: "gpa_to_offset m (vd_addr d) (unat (vd_len d)) = Some off"
      by auto
    obtain bs success where r: "rnd k (unat (vd_len d)) = (bs, success)"
      by fastforce
    let ?m = "m\<lparr>gm_bytes := put off bs (gm_bytes m)\<rparr>"
    have l: "length bs = unat (vd_len d)"
      using assms [of k "unat (vd_len d)"] r by simp
    have w: "same_outside off (unat (vd_len d)) m ?m"
      using same_outside_put [of off bs m] offset_bound [OF off] by (simp add: l)
    have "ring_apart m q off (unat (vd_len d))"
      using Cons.prems(2) off by (simp add: buffer_apart_def)
    note F = apart_frame [OF Cons.prems(1) w this]
    have e: "fill_chain rnd (d # ds) (m, k, f) = (if success then fill_chain rnd ds (?m, Suc k, f + vd_len d) else (?m, Suc k, f))"
      using False off r by simp
    have "list_all (buffer_apart ?m q) ds"
      using Cons.prems(2) by (simp add: buffer_apart_cong [OF F(3)] list_all_iff)
    then show ?thesis
      using Cons.IH [OF F(2)] Cons.prems(3) e F by (cases success) auto
  qed
qed simp

lemma fill_base: "fill_chain rnd ds (m, k, f) = (m', k', f') \<Longrightarrow> gm_base m' = gm_base m"
  by (induction ds arbitrary: m k f) (auto simp: Let_def split: if_splits option.splits prod.splits)

lemma collect_chain_in: "set (collect_chain m q it) \<subseteq> read_descriptor m q ` {i. i < sq_size q}"
proof (induction m q it rule: collect_chain.induct)
  case (1 m q it)
  show ?case
  proof (cases "chain_iter_next m q it")
    case (Some r)
    then obtain d it' where n: "chain_iter_next m q it = Some (d, it')"
      by (cases r) auto
    then have "d \<in> read_descriptor m q ` {i. i < sq_size q}"
      by (auto simp: chain_iter_next_def Let_def not_le split: if_splits)
    then show ?thesis
      using n "1.IH" [OF n refl] by (simp add: collect_chain.simps [of m q it])
  qed (simp add: collect_chain.simps [of m q it])
qed

lemma buffers_apartD:
  assumes "buffers_apart m q" "i < sq_size q"
  shows "buffer_apart m q (read_descriptor m q i)"
proof -
  have "unat i < unat (sq_size q)"
    using assms(2) by (simp add: word_less_nat_alt)
  then have "desc_of (read_descriptor m q i) \<in> set (vq_desc_table (view m q))"
    by (auto simp: view_def Let_def image_iff intro!: bexI [of _ "unat i"])
  from bspec [OF assms(1) [unfolded buffers_apart_def list_all_iff] this] show ?thesis
    by (simp add: buffer_apart_def desc_of_def split: option.splits)
qed

lemma ring_apart_upd [simp]:
  "ring_apart m (q\<lparr>sq_last_avail_idx := i\<rparr>) = ring_apart m q" "ring_apart m (q\<lparr>sq_used_idx := i\<rparr>) = ring_apart m q"
  by (simp_all add: fun_eq_iff ring_apart_def Let_def)

lemma buffers_apart_cong:
  assumes "vq_desc_table (view m' q') = vq_desc_table (view m q)" "gpa_to_offset m' = gpa_to_offset m"
    "ring_apart m' q' = ring_apart m q"
  shows "buffers_apart m' q' = buffers_apart m q"
  unfolding buffers_apart_def assms ..

lemma push_used_frame:
  assumes "push_used h l q = Some (b, q')"
  shows "vq_desc_table q' = vq_desc_table q" "vq_avail q' = vq_avail q" "pending q' = pending q"
proof -
  obtain r i where "q' = q\<lparr>vq_used := (vq_used q)\<lparr>ur_ring := r, ur_idx := i\<rparr>\<rparr>"
    using assms by (auto simp: push_used_def put_used_def bind_eq_Some_conv)
  then show "vq_desc_table q' = vq_desc_table q" "vq_avail q' = vq_avail q" "pending q' = pending q"
    by (simp_all add: pending_def)
qed

lemma view_shape: "rings_ok m q \<Longrightarrow> vq_shape (view m q)"
  by (auto simp: vq_shape_def elim: rings_okE)

subsection \<open>Every waiting request is answered\<close>

text \<open>What holds before each round of the loop.\<close>

definition rng_ready :: "GuestMemWriter \<Rightarrow> SplitQueue \<Rightarrow> bool" where
  "rng_ready m q =
     (rings_ok m q \<and> buffers_apart m q \<and> sq_used_idx q = sq_last_avail_idx q
      \<and> read_u16 m (sq_used_gpa q + 2) = sq_used_idx q)"

lemma rng_round:
  assumes rnd: "\<And>k n. length (fst (rnd k n)) = n" and ready: "rng_ready m q" and p: "pending (view m q) = h # hs"
  shows "\<exists>chain q1 m1 k1 f b m2 q2.
      sq_pop_avail m q = Some (Some chain, q1) \<and> fill_chain rnd (dch_descriptors chain) (m, k, 0) = (m1, k1, f)
      \<and> sq_push_used (dch_head_idx chain) f (m1, q1) = Some (b, m2, q2) \<and> dch_head_idx chain = h
      \<and> rng_ready m2 q2 \<and> pending (view m2 q2) = hs \<and> avail_idx m2 q2 = avail_idx m q
      \<and> q2 = q\<lparr>sq_last_avail_idx := sq_used_idx q2, sq_used_idx := sq_used_idx q2\<rparr> \<and> gm_base m2 = gm_base m"
proof -
  have ok: "rings_ok m q" and bufs: "buffers_apart m q"
    using ready by (simp_all add: rng_ready_def)
  have a: "has_available (view m q)"
    using p pending_empty by fastforce
  obtain v where v: "pop_avail (view m q) = Some (Some (h, \<lparr>ch_current = Some h, ch_ttl = sq_size q\<rparr>), v)" "pending v = hs"
    using pending_pop [OF view_shape [OF ok] a] p by auto
  obtain r q1 where r: "sq_pop_avail m q = Some (r, q1)" "rings_ok m q1"
    "local_op Pop (view m q) = Some (Popped (map_option (\<lambda>c. (dch_head_idx c, map desc_of (dch_descriptors c))) r), view m q1)"
    using pop_view [OF ok] by blast
  obtain chain where chain: "r = Some chain" "dch_head_idx chain = h" "view m q1 = v"
    using r(3) v(1) by (cases r) auto
  have q1: "q1 = q\<lparr>sq_last_avail_idx := sq_last_avail_idx q + 1\<rparr>"
    and ds: "dch_descriptors chain = collect_chain m q1 (chain_iter q1 h)"
    using r(1) chain(1, 2) by (auto simp: sq_pop_avail_def next_avail_head_def bind_eq_Some_conv split: if_splits)
  have v1: "vq_desc_table v = vq_desc_table (view m q)" "vq_avail v = vq_avail (view m q)"
    using v(1) by (auto simp: pop_avail_def bind_eq_Some_conv split: if_splits)
  have bufs1: "buffers_apart m q1"
    using bufs buffers_apart_cong [of m q1 m q] v1(1) chain(3) by (simp add: q1)
  have B: "list_all (buffer_apart m q1) (dch_descriptors chain)"
    using collect_chain_in [of m q1] buffers_apartD [OF bufs1] unfolding ds list_all_iff by blast
  obtain m1 k1 f where f: "fill_chain rnd (dch_descriptors chain) (m, k, 0) = (m1, k1, f)"
    by (rule prod_cases3)
  have F: "view m1 q1 = v" "rings_ok m1 q1" "gpa_to_offset m1 = gpa_to_offset m"
    using fill_keeps_rings [of rnd m q1, OF rnd r(2) B f] chain(3) by simp_all
  obtain b m2 q2 where s: "sq_push_used h f (m1, q1) = Some (b, m2, q2)" "rings_ok m2 q2"
    "push_used h f (view m1 q1) = Some (b, view m2 q2)"
    using push_view [OF F(2)] by blast
  note P = push_published [OF F(2) s(1)]
  have v2: "vq_desc_table (view m2 q2) = vq_desc_table v" "pending (view m2 q2) = pending v"
    "vq_avail (view m2 q2) = vq_avail v"
    using push_used_frame [OF s(3)] F(1) by simp_all
  have q2: "q2 = q\<lparr>sq_last_avail_idx := sq_last_avail_idx q + 1, sq_used_idx := sq_used_idx q + 1\<rparr>"
    using P(1) by (simp add: q1)
  have g: "gpa_to_offset m2 = gpa_to_offset m"
    using P(3) F(3) by simp
  have "ring_apart m2 q2 = ring_apart m q"
    by (simp add: ring_apart_cong [OF g] q2)
  then have "buffers_apart m2 q2"
    using bufs buffers_apart_cong [of m2 q2 m q] g v2(1) v1(1) by simp
  moreover have "avail_idx m2 q2 = avail_idx m q"
    using v2(3) v1(2) by (metis view_sel(3))
  ultimately show ?thesis
    using r(1) chain f s(1, 2) v(2) v2(2) P(2, 4) fill_base [OF f] ready by (auto simp: rng_ready_def q2 q1)
qed

lemma rng_loop_serves:
  assumes rnd: "\<And>k n. length (fst (rnd k n)) = n"
  shows "rng_ready m q \<Longrightarrow> \<exists>cs m' q'. rng_loop rnd k (m, q) acc = Some (acc @ cs, m', q')
      \<and> map fst cs = pending (view m q) \<and> rng_ready m' q' \<and> pending (view m' q') = []
      \<and> avail_idx m' q' = avail_idx m q \<and> gm_base m' = gm_base m
      \<and> q' = q\<lparr>sq_last_avail_idx := sq_used_idx q', sq_used_idx := sq_used_idx q'\<rparr>"
proof (induction "pending (view m q)" arbitrary: m q k acc)
  case Nil
  then have "\<not> has_available (view m q)"
    using length_pending [of "view m q"] by (simp add: has_available_def unat_eq_0)
  then have "sq_pop_avail m q = Some (None, q)"
    by (simp add: has_available_def sq_pop_avail_def next_avail_head_def)
  moreover have "q = q\<lparr>sq_last_avail_idx := sq_used_idx q, sq_used_idx := sq_used_idx q\<rparr>"
    using Nil.prems by (simp add: rng_ready_def)
  ultimately show ?case
    using Nil by (subst rng_loop.simps) simp
next
  case (Cons h hs)
  obtain chain q1 m1 k1 f b m2 q2 where R: "sq_pop_avail m q = Some (Some chain, q1)"
    "fill_chain rnd (dch_descriptors chain) (m, k, 0) = (m1, k1, f)"
    "sq_push_used (dch_head_idx chain) f (m1, q1) = Some (b, m2, q2)" "dch_head_idx chain = h"
    "rng_ready m2 q2" "pending (view m2 q2) = hs" "avail_idx m2 q2 = avail_idx m q"
    "q2 = q\<lparr>sq_last_avail_idx := sq_used_idx q2, sq_used_idx := sq_used_idx q2\<rparr>" "gm_base m2 = gm_base m"
    using rng_round [of rnd m q h hs k, OF rnd Cons.prems Cons.hyps(2) [symmetric]] by blast
  obtain cs m' q' where L: "rng_loop rnd k1 (m2, q2) (acc @ [(h, f)]) = Some ((acc @ [(h, f)]) @ cs, m', q')"
    "map fst cs = hs" "rng_ready m' q'" "pending (view m' q') = []" "avail_idx m' q' = avail_idx m2 q2"
    "gm_base m' = gm_base m2" "q' = q2\<lparr>sq_last_avail_idx := sq_used_idx q', sq_used_idx := sq_used_idx q'\<rparr>"
    using Cons.hyps(1) [OF R(6) [symmetric] R(5)] R(6) by blast
  have "rng_loop rnd k (m, q) acc = Some (acc @ (h, f) # cs, m', q')"
    using R(1-4) L(1) by (subst rng_loop.simps) simp
  moreover have "q' = q\<lparr>sq_last_avail_idx := sq_used_idx q', sq_used_idx := sq_used_idx q'\<rparr>"
    by (subst L(7), subst R(8)) simp
  ultimately show ?case
    using L(2-6) R(7, 9) Cons.hyps(2) [symmetric] by (intro exI [of _ "(h, f) # cs"] exI [of _ m'] exI [of _ q']) simp
qed

text \<open>
  C17: The entropy device answers every request.  When the rings lie apart inside guest memory and
  no buffer of the descriptor table touches them, processing the queue returns, its completions are
  exactly the waiting heads in their order, and afterwards the used index in guest memory has
  reached the guest's available index, so the next call, which resumes from it, finds nothing left
  to answer twice.
\<close>

theorem rng_serves_queue:
  assumes "\<forall>k n. length (fst (rnd k n)) = n" "qc_ready cfg" "qc_size cfg \<noteq> 0"
    and "rng_queue memory cfg = (m, q)" "rings_ok m q" "buffers_apart m q"
  shows "\<exists>cs memory' m' q'. rng_process_queue rnd 0 memory cfg = Some (Ok cs, memory')
      \<and> map fst cs = pending (view m q)
      \<and> rng_queue memory' cfg = (m', q') \<and> sq_used_idx q' = avail_idx m q \<and> pending (view m' q') = []"
proof -
  have rnd: "length (fst (rnd k n)) = n" for k n
    using assms(1) by blast
  have q: "m = \<lparr>gm_bytes = memory, gm_base = qc_gpa_base cfg\<rparr>"
    "q = set_last_avail_idx (read_u16 m (qc_used_addr cfg + 2)) (split_queue_new m 0 cfg False)"
    using assms(4) by (auto simp: rng_queue_def Let_def split_queue_new_def)
  have "rng_ready m q"
    using assms(5, 6) by (simp add: rng_ready_def q(2) set_last_avail_idx_def split_queue_new_def)
  from rng_loop_serves [of rnd, OF rnd this] obtain cs m' q' where L:
    "rng_loop rnd 0 (m, q) [] = Some (cs, m', q')" "map fst cs = pending (view m q)" "rng_ready m' q'"
    "pending (view m' q') = []" "avail_idx m' q' = avail_idx m q" "gm_base m' = gm_base m"
    "q' = q\<lparr>sq_last_avail_idx := sq_used_idx q', sq_used_idx := sq_used_idx q'\<rparr>"
    by (metis append_Nil)
  have p: "rng_process_queue rnd 0 memory cfg = Some (Ok cs, gm_bytes m')"
    using L(1) assms(2-4) by (simp add: rng_process_queue_def)
  have m': "m' = \<lparr>gm_bytes = gm_bytes m', gm_base = qc_gpa_base cfg\<rparr>"
    using L(6) q(1) by simp
  have g: "sq_used_gpa q' = qc_used_addr cfg"
    by (subst L(7)) (simp add: q(2) set_last_avail_idx_def split_queue_new_def)
  have u: "read_u16 m' (qc_used_addr cfg + 2) = sq_used_idx q'"
    using L(3) by (simp add: rng_ready_def g)
  have "set_last_avail_idx (sq_used_idx (split_queue_new m' 0 cfg False)) (split_queue_new m' 0 cfg False)
      = q\<lparr>sq_last_avail_idx := sq_used_idx q', sq_used_idx := sq_used_idx q'\<rparr>"
    by (simp add: q(2) set_last_avail_idx_def split_queue_new_def u)
  then have "rng_queue (gm_bytes m') cfg = (m', q')"
    unfolding rng_queue_def Let_def m' [symmetric] by (simp only: L(7) [symmetric])
  moreover have "avail_idx m' q' = sq_last_avail_idx q'"
    using L(4) length_pending [of "view m' q'"] by (simp add: unat_eq_0)
  then have "sq_used_idx q' = avail_idx m q"
    using L(3, 5) by (simp add: rng_ready_def)
  ultimately show ?thesis
    using p L(2, 4) by blast
qed

text \<open>A guest with two requests waiting, each one buffer of eight bytes.\<close>

definition sample_guest :: "u8 list" where
  "sample_guest =
     [64, 0, 0, 0, 0, 0, 0, 0, 8, 0, 0, 0, 2, 0, 0, 0, 72, 0, 0, 0, 0, 0, 0, 0, 8, 0, 0, 0, 2, 0, 0, 0,
      0, 0, 2, 0, 0, 0, 1, 0, 0, 0] @ replicate 38 0"

definition sample_cfg :: QueueConfig where
  "sample_cfg = \<lparr>qc_desc_addr = 0, qc_avail_addr = 32, qc_used_addr = 42, qc_size = 2, qc_ready = True, qc_gpa_base = 0\<rparr>"

theorem rng_serves_queue_witness:
  "\<exists>cs memory'. rng_process_queue (\<lambda>k n. (replicate n 7, True)) 0 sample_guest sample_cfg = Some (Ok cs, memory')
      \<and> map fst cs = [0, 1]"
proof -
  define m where "m = \<lparr>gm_bytes = sample_guest, gm_base = 0\<rparr>"
  define q where "q = \<lparr>sq_queue_idx = 0, sq_size = 2, sq_desc_gpa = 0, sq_avail_gpa = 32, sq_used_gpa = 42,
    sq_last_avail_idx = 0, sq_used_idx = 0, sq_event_idx = False\<rparr>"
  have len: "length (gm_bytes m) = 80" "gm_base m = 0"
    by (simp_all add: m_def sample_guest_def)
  have o: "gpa_to_offset m a n = (if unat a + n \<le> 80 then Some (unat a) else None)" for a n
    by (simp add: gpa_to_offset_def Let_def len)
  have r: "read_u16 m 44 = 0" "read_u16 m 34 = 2" "read_u16 m 36 = 0" "read_u16 m 38 = 1"
    by (simp_all add: read_u16_def o) (simp_all add: m_def sample_guest_def le16_def be16_def)
  have Q: "rng_queue sample_guest sample_cfg = (m, q)"
    using r(1) by (simp add: rng_queue_def Let_def sample_cfg_def split_queue_new_def set_last_avail_idx_def
        m_def [symmetric] q_def)
  have sel: "sq_size q = 2" "sq_desc_gpa q = 0" "sq_avail_gpa q = 32" "sq_used_gpa q = 42" "sq_last_avail_idx q = 0"
    by (simp_all add: q_def)
  have ok: "rings_ok m q"
    by (simp add: rings_ok_def Let_def o power_two mem_ok_def len sel)
  have p: "pending (view m q) = [0, 1]"
    by (simp add: pending_def view_def Let_def avail_idx_def r sel upt_rec)
  have d: "read_u64 m 0 = 64" "read_u64 m 16 = 72" "read_u32 m 8 = 8" "read_u32 m 24 = 8"
    by (simp_all add: read_u64_def read_u32_def slice_def o)
      (simp_all add: m_def sample_guest_def part_def le64_def le32_def be32_def be16_def)
  have b: "buffers_apart m q"
    by (simp add: buffers_apart_def view_def Let_def read_descriptor_def desc_of_def ring_apart_def apart_def o sel d upt_rec)
  show ?thesis
    using rng_serves_queue [OF _ _ _ Q ok b, of "\<lambda>k n. (replicate n 7, True)"] p by (auto simp: sample_cfg_def)
qed

end
