(* ===== verification/Virtio_Mmio.thy ===== *)
theory Virtio_Mmio
  imports Virtio_Rng
begin

unbundle bit_operations_syntax

section \<open>The MMIO transport\<close>

text \<open>
  \<open>src/virt/arcbox-vmm/src/device/mmio_state.rs\<close>: the register file through which a guest discovers a
  device and sets up its queues, and the queue configuration that \<open>dispatch.rs\<close> reads from it when
  the guest kicks a queue.  A register is named by a constructor: the numeric offsets are constants
  of the virtio bindings, pairwise different, and those the source writes as literals; an
  offset in the configuration space is \<open>CONFIG\<close> with its distance from the start, and any other
  offset is \<open>Unknown\<close>.  The counters \<open>kicks\<close> and \<open>interrupts\<close> are diagnostic and wrap at 64 bits, as in a
  release build.
\<close>

datatype MmioReg =
    MAGIC | VERSION | DEVICE_ID | VENDOR_ID | DEVICE_FEATURES | DEVICE_FEATURES_SEL | DRIVER_FEATURES
  | DRIVER_FEATURES_SEL | QUEUE_SEL | QUEUE_NUM_MAX | QUEUE_NUM | QUEUE_READY | QUEUE_NOTIFY
  | INTERRUPT_STATUS | INTERRUPT_ACK | STATUS | QUEUE_DESC_LOW | QUEUE_DESC_HIGH | QUEUE_DRIVER_LOW
  | QUEUE_DRIVER_HIGH | QUEUE_DEVICE_LOW | QUEUE_DEVICE_HIGH | CONFIG_GENERATION | SHM_SEL
  | SHM_LEN_LOW | SHM_LEN_HIGH | SHM_BASE_LOW | SHM_BASE_HIGH
  | CONFIG u64 | Unknown u64

definition MAGIC_VALUE :: u32 where
  "MAGIC_VALUE = 0x74726976"

definition VERSION_VALUE :: u32 where
  "VERSION_VALUE = 2"

definition VENDOR_ID_VALUE :: u32 where
  "VENDOR_ID_VALUE = 0x554D4551"

definition MAX_VIRTQUEUES :: nat where
  "MAX_VIRTQUEUES = 64"

record VirtioMmioState =
  mm_device_id :: u32
  mm_device_features :: u64
  mm_driver_features :: u64
  mm_device_features_sel :: u32
  mm_driver_features_sel :: u32
  mm_queue_sel :: u32
  mm_queue_num :: "u16 list"
  mm_queue_ready :: "bool list"
  mm_queue_desc :: "u64 list"
  mm_queue_driver :: "u64 list"
  mm_queue_device :: "u64 list"
  mm_status :: u8
  mm_interrupt_status :: u32
  mm_config_generation :: u32
  mm_shm_sel :: u32
  mm_shm_regions :: "(u64 \<times> u64) list"
  mm_kicks :: "u64 list"
  mm_interrupts :: u64

definition mmio_new :: "u32 \<Rightarrow> u64 \<Rightarrow> VirtioMmioState" where
  "mmio_new device_id features =
     \<lparr>mm_device_id = device_id, mm_device_features = features, mm_driver_features = 0,
      mm_device_features_sel = 0, mm_driver_features_sel = 0, mm_queue_sel = 0,
      mm_queue_num = replicate MAX_VIRTQUEUES 0, mm_queue_ready = replicate MAX_VIRTQUEUES False,
      mm_queue_desc = replicate MAX_VIRTQUEUES 0, mm_queue_driver = replicate MAX_VIRTQUEUES 0,
      mm_queue_device = replicate MAX_VIRTQUEUES 0, mm_status = 0, mm_interrupt_status = 0,
      mm_config_generation = 0, mm_shm_sel = 0, mm_shm_regions = [], mm_kicks = replicate MAX_VIRTQUEUES 0,
      mm_interrupts = 0\<rparr>"

definition sel :: "VirtioMmioState \<Rightarrow> nat" where
  "sel s = unat (mm_queue_sel s)"

definition high32 :: "u64 \<Rightarrow> u32" where
  "high32 w = ucast (drop_bit 32 w)"

definition shm_field :: "VirtioMmioState \<Rightarrow> (u64 \<times> u64 \<Rightarrow> u32) \<Rightarrow> u32" where
  "shm_field s f =
     (let i = unat (mm_shm_sel s)
      in if i < length (mm_shm_regions s) then f (mm_shm_regions s ! i) else 0)"

fun mmio_read :: "VirtioMmioState \<Rightarrow> MmioReg \<Rightarrow> u32" where
  "mmio_read s MAGIC = MAGIC_VALUE"
| "mmio_read s VERSION = VERSION_VALUE"
| "mmio_read s DEVICE_ID = mm_device_id s"
| "mmio_read s VENDOR_ID = VENDOR_ID_VALUE"
| "mmio_read s DEVICE_FEATURES =
     (if mm_device_features_sel s = 0 then ucast (mm_device_features s) else high32 (mm_device_features s))"
| "mmio_read s QUEUE_NUM_MAX = (if sel s < MAX_VIRTQUEUES then 1024 else 0)"
| "mmio_read s QUEUE_READY =
     (if sel s < MAX_VIRTQUEUES then (if mm_queue_ready s ! sel s then 1 else 0) else 0)"
| "mmio_read s INTERRUPT_STATUS = mm_interrupt_status s"
| "mmio_read s STATUS = ucast (mm_status s)"
| "mmio_read s CONFIG_GENERATION = mm_config_generation s"
| "mmio_read s SHM_SEL = mm_shm_sel s"
| "mmio_read s SHM_LEN_LOW = shm_field s (\<lambda>r. ucast (snd r))"
| "mmio_read s SHM_LEN_HIGH = shm_field s (\<lambda>r. high32 (snd r))"
| "mmio_read s SHM_BASE_LOW = shm_field s (\<lambda>r. ucast (fst r))"
| "mmio_read s SHM_BASE_HIGH = shm_field s (\<lambda>r. high32 (fst r))"
| "mmio_read s _ = 0"

definition set_low :: "u64 \<Rightarrow> u32 \<Rightarrow> u64" where
  "set_low w v = (w AND 0xFFFFFFFF00000000) OR ucast v"

definition set_high :: "u64 \<Rightarrow> u32 \<Rightarrow> u64" where
  "set_high w v = (w AND 0x00000000FFFFFFFF) OR push_bit 32 (ucast v)"

text \<open>A write to the slot of the selected queue, if there is one.\<close>

definition at_sel :: "VirtioMmioState \<Rightarrow> ('a \<Rightarrow> 'a) \<Rightarrow> 'a list \<Rightarrow> 'a list" where
  "at_sel s f xs = (if sel s < MAX_VIRTQUEUES then xs[sel s := f (xs ! sel s)] else xs)"

fun mmio_write :: "MmioReg \<Rightarrow> u32 \<Rightarrow> VirtioMmioState \<Rightarrow> VirtioMmioState" where
  "mmio_write DEVICE_FEATURES_SEL v s = s\<lparr>mm_device_features_sel := v\<rparr>"
| "mmio_write DRIVER_FEATURES v s =
     s\<lparr>mm_driver_features := (if mm_driver_features_sel s = 0 then set_low (mm_driver_features s) v
                               else set_high (mm_driver_features s) v)\<rparr>"
| "mmio_write DRIVER_FEATURES_SEL v s = s\<lparr>mm_driver_features_sel := v\<rparr>"
| "mmio_write QUEUE_SEL v s = s\<lparr>mm_queue_sel := v\<rparr>"
| "mmio_write SHM_SEL v s = s\<lparr>mm_shm_sel := v\<rparr>"
| "mmio_write QUEUE_NUM v s = s\<lparr>mm_queue_num := at_sel s (\<lambda>_. ucast v) (mm_queue_num s)\<rparr>"
| "mmio_write QUEUE_READY v s = s\<lparr>mm_queue_ready := at_sel s (\<lambda>_. v \<noteq> 0) (mm_queue_ready s)\<rparr>"
| "mmio_write QUEUE_NOTIFY v s =
     (if unat v < MAX_VIRTQUEUES
      then s\<lparr>mm_kicks := (mm_kicks s)[unat v := mm_kicks s ! unat v + 1]\<rparr> else s)"
| "mmio_write INTERRUPT_ACK v s = s\<lparr>mm_interrupt_status := mm_interrupt_status s AND NOT v\<rparr>"
| "mmio_write STATUS v s =
     (let s = s\<lparr>mm_status := ucast v\<rparr>
      in if v = 0
         then s\<lparr>mm_driver_features := 0, mm_queue_sel := 0, mm_queue_num := replicate MAX_VIRTQUEUES 0,
                mm_queue_ready := replicate MAX_VIRTQUEUES False, mm_interrupt_status := 0\<rparr>
         else s)"
| "mmio_write QUEUE_DESC_LOW v s = s\<lparr>mm_queue_desc := at_sel s (\<lambda>w. set_low w v) (mm_queue_desc s)\<rparr>"
| "mmio_write QUEUE_DESC_HIGH v s = s\<lparr>mm_queue_desc := at_sel s (\<lambda>w. set_high w v) (mm_queue_desc s)\<rparr>"
| "mmio_write QUEUE_DRIVER_LOW v s = s\<lparr>mm_queue_driver := at_sel s (\<lambda>w. set_low w v) (mm_queue_driver s)\<rparr>"
| "mmio_write QUEUE_DRIVER_HIGH v s = s\<lparr>mm_queue_driver := at_sel s (\<lambda>w. set_high w v) (mm_queue_driver s)\<rparr>"
| "mmio_write QUEUE_DEVICE_LOW v s = s\<lparr>mm_queue_device := at_sel s (\<lambda>w. set_low w v) (mm_queue_device s)\<rparr>"
| "mmio_write QUEUE_DEVICE_HIGH v s = s\<lparr>mm_queue_device := at_sel s (\<lambda>w. set_high w v) (mm_queue_device s)\<rparr>"
| "mmio_write _ v s = s"

definition trigger_interrupt :: "u32 \<Rightarrow> VirtioMmioState \<Rightarrow> VirtioMmioState" where
  "trigger_interrupt reason s =
     s\<lparr>mm_interrupt_status := mm_interrupt_status s OR reason, mm_interrupts := mm_interrupts s + 1\<rparr>"

definition queue_config :: "u64 \<Rightarrow> VirtioMmioState \<Rightarrow> u16 \<Rightarrow> QueueConfig" where
  "queue_config guest_ram_gpa s queue_idx =
     (let qi = unat queue_idx
      in if qi < MAX_VIRTQUEUES
         then \<lparr>qc_desc_addr = mm_queue_desc s ! qi, qc_avail_addr = mm_queue_driver s ! qi,
               qc_used_addr = mm_queue_device s ! qi, qc_size = mm_queue_num s ! qi,
               qc_ready = mm_queue_ready s ! qi, qc_gpa_base = guest_ram_gpa\<rparr>
         else \<lparr>qc_desc_addr = 0, qc_avail_addr = 0, qc_used_addr = 0, qc_size = 0, qc_ready = False,
               qc_gpa_base = 0\<rparr>)"

subsection \<open>The dispatcher, for the entropy device\<close>

text \<open>
  \<open>DeviceManager::handle_mmio_write\<close> once the address has been resolved to an entropy device with guest
  memory, an interrupt line and an interrupt callback.  \<open>sl_levels\<close> lists the levels handed to the
  callback.  The status bits and the interrupt reason are constants of the virtio bindings with the
  values of the specification.  \<open>None\<close> is a queue run that panics or does not end.
\<close>

definition STATUS_DRIVER_OK :: u8 where
  "STATUS_DRIVER_OK = 4"

definition STATUS_FEATURES_OK :: u8 where
  "STATUS_FEATURES_OK = 8"

definition INT_VRING :: u32 where
  "INT_VRING = 1"

record RngSlot =
  sl_mmio :: VirtioMmioState
  sl_dev :: VirtioRng
  sl_ram :: "u8 list"
  sl_gpa :: u64
  sl_levels :: "bool list"

definition value32 :: "nat \<Rightarrow> u64 \<Rightarrow> u32" where
  "value32 width v =
     (if width = 1 then ucast v AND 0xFF else if width = 2 then ucast v AND 0xFFFF else ucast v)"

definition sync_irq_level :: "RngSlot \<Rightarrow> RngSlot" where
  "sync_irq_level d =
     (if mm_status (sl_mmio d) AND STATUS_DRIVER_OK = 0 then d
      else d\<lparr>sl_levels := sl_levels d @ [mm_interrupt_status (sl_mmio d) \<noteq> 0]\<rparr>)"

definition status_written :: "u8 \<Rightarrow> u8 \<Rightarrow> RngSlot \<Rightarrow> RngSlot" where
  "status_written old new d =
     (let d = (if new AND STATUS_FEATURES_OK \<noteq> 0 \<and> old AND STATUS_FEATURES_OK = 0
               then d\<lparr>sl_dev := rng_ack_features (mm_driver_features (sl_mmio d)) (sl_dev d)\<rparr> else d);
          d = (if new AND STATUS_DRIVER_OK \<noteq> 0 \<and> old AND STATUS_DRIVER_OK = 0
               then d\<lparr>sl_dev := rng_activate (sl_dev d)\<rparr> else d)
      in if new = 0 then d\<lparr>sl_dev := rng_reset (sl_dev d)\<rparr> else d)"

definition queue_notified :: "random \<Rightarrow> u16 \<Rightarrow> RngSlot \<Rightarrow> RngSlot option" where
  "queue_notified rnd queue_idx d =
     (case rng_process_queue rnd queue_idx (sl_ram d) (queue_config (sl_gpa d) (sl_mmio d) queue_idx) of
        None \<Rightarrow> None
      | Some (r, ram) \<Rightarrow>
          (let d = d\<lparr>sl_ram := ram\<rparr>
           in case r of
                Ok completions \<Rightarrow>
                  Some (if completions \<noteq> []
                        then sync_irq_level (d\<lparr>sl_mmio := trigger_interrupt INT_VRING (sl_mmio d)\<rparr>) else d)
              | Err _ \<Rightarrow> Some d))"

definition handle_mmio_write :: "random \<Rightarrow> MmioReg \<Rightarrow> nat \<Rightarrow> u64 \<Rightarrow> RngSlot \<Rightarrow> RngSlot option" where
  "handle_mmio_write rnd r width v d =
     (let old = mm_status (sl_mmio d); v32 = value32 width v;
          d' = d\<lparr>sl_mmio := mmio_write r v32 (sl_mmio d)\<rparr>
      in case r of
           CONFIG _ \<Rightarrow> Some d
         | STATUS \<Rightarrow> Some (status_written old (ucast v32) d')
         | QUEUE_NOTIFY \<Rightarrow> queue_notified rnd (ucast v32) d'
         | INTERRUPT_ACK \<Rightarrow> Some (sync_irq_level d')
         | _ \<Rightarrow> Some d')"

fun mmio_run :: "random \<Rightarrow> (MmioReg \<times> nat \<times> u64) list \<Rightarrow> RngSlot \<Rightarrow> RngSlot option" where
  "mmio_run rnd [] d = Some d"
| "mmio_run rnd ((r, width, v) # ws) d =
     (case handle_mmio_write rnd r width v d of None \<Rightarrow> None | Some d' \<Rightarrow> mmio_run rnd ws d')"

text \<open>The writes by which a driver sets up queue \<open>i\<close>, in the order of the repository's own test.\<close>

definition setup_queue :: "u32 \<Rightarrow> u16 \<Rightarrow> u64 \<Rightarrow> u64 \<Rightarrow> u64 \<Rightarrow> VirtioMmioState \<Rightarrow> VirtioMmioState" where
  "setup_queue i n dsc drv dvc s =
     fold (\<lambda>(r, v). mmio_write r v)
       [(QUEUE_SEL, i), (QUEUE_NUM, ucast n), (QUEUE_DESC_LOW, ucast dsc), (QUEUE_DESC_HIGH, high32 dsc),
        (QUEUE_DRIVER_LOW, ucast drv), (QUEUE_DRIVER_HIGH, high32 drv), (QUEUE_DEVICE_LOW, ucast dvc),
        (QUEUE_DEVICE_HIGH, high32 dvc), (QUEUE_READY, 1)] s"

subsection \<open>Well-formed register files\<close>

definition mmio_ok :: "VirtioMmioState \<Rightarrow> bool" where
  "mmio_ok s =
     (length (mm_queue_num s) = MAX_VIRTQUEUES \<and> length (mm_queue_ready s) = MAX_VIRTQUEUES
      \<and> length (mm_queue_desc s) = MAX_VIRTQUEUES \<and> length (mm_queue_driver s) = MAX_VIRTQUEUES
      \<and> length (mm_queue_device s) = MAX_VIRTQUEUES \<and> length (mm_kicks s) = MAX_VIRTQUEUES)"

lemma length_at_sel [simp]: "length (at_sel s f xs) = length xs"
  by (simp add: at_sel_def)

lemma mmio_new_ok: "mmio_ok (mmio_new d f)"
  by (simp add: mmio_ok_def mmio_new_def)

lemma mmio_write_ok: "mmio_ok s \<Longrightarrow> mmio_ok (mmio_write r v s)"
  by (cases r) (auto simp: mmio_ok_def Let_def)


lemma low_mask: "(0xFFFFFFFF :: u64) = mask 32" and high_mask: "(0xFFFFFFFF00000000 :: u64) = push_bit 32 (mask 32)"
  by (simp_all add: mask_eq_exp_minus_1 push_bit_eq_mult)

lemma set_both [simp]: "set_high (set_low w (ucast v)) (high32 v) = v"
  unfolding set_low_def set_high_def high32_def low_mask high_mask
  by (rule bit_eqI) (auto simp: bit_simps)

subsection \<open>Setting up a queue\<close>

lemma u16_through_u32 [simp]: "ucast (ucast n :: u32) = (n :: u16)"
  by (rule bit_eqI) (auto simp: bit_simps)

lemma setup_queue_arrays:
  assumes "mmio_ok s" and "unat i < MAX_VIRTQUEUES"
  shows "mm_queue_desc (setup_queue i n dsc drv dvc s) = (mm_queue_desc s)[unat i := dsc]"
    "mm_queue_driver (setup_queue i n dsc drv dvc s) = (mm_queue_driver s)[unat i := drv]"
    "mm_queue_device (setup_queue i n dsc drv dvc s) = (mm_queue_device s)[unat i := dvc]"
    "mm_queue_num (setup_queue i n dsc drv dvc s) = (mm_queue_num s)[unat i := n]"
    "mm_queue_ready (setup_queue i n dsc drv dvc s) = (mm_queue_ready s)[unat i := True]"
  using assms by (simp_all add: setup_queue_def at_sel_def sel_def mmio_ok_def)

text \<open>
  C21: Setting up queue \<open>i\<close> of the register file through its 32-bit registers gives the device exactly the
  64-bit ring addresses and the size that the driver chose, with the queue ready, whatever the
  registers held before; every other queue keeps its configuration.
\<close>

theorem queue_setup_roundtrip:
  assumes "mmio_ok s" and "unat i < MAX_VIRTQUEUES"
  shows "queue_config gpa (setup_queue (ucast i) n dsc drv dvc s) j =
           (if j = i
            then \<lparr>qc_desc_addr = dsc, qc_avail_addr = drv, qc_used_addr = dvc, qc_size = n, qc_ready = True,
                  qc_gpa_base = gpa\<rparr>
            else queue_config gpa s j)"
proof -
  have i: "unat (ucast i :: u32) = unat i"
    by (simp add: unsigned_ucast_eq take_bit_nat_eq_self unsigned_less [THEN less_trans])
  have "unat i = unat j \<longleftrightarrow> j = i"
    by (auto simp: word_unat_eq_iff)
  then show ?thesis
    using assms unfolding queue_config_def Let_def
    by (simp add: setup_queue_arrays i mmio_ok_def nth_list_update)
qed

theorem queue_setup_roundtrip_witness:
  "mmio_ok (mmio_new 4 0) \<and> unat (12 :: u16) < MAX_VIRTQUEUES
   \<and> queue_config 0x40000000 (setup_queue (ucast (12 :: u16)) 256 0x180001000 0x80002000 0x80003000 (mmio_new 4 0)) 12
     = \<lparr>qc_desc_addr = 0x180001000, qc_avail_addr = 0x80002000, qc_used_addr = 0x80003000, qc_size = 256,
        qc_ready = True, qc_gpa_base = 0x40000000\<rparr>"
  using queue_setup_roundtrip [OF mmio_new_ok, of 12 "0x40000000" 256 "0x180001000" "0x80002000" "0x80003000" 4 0 12]
  by (simp add: mmio_new_ok MAX_VIRTQUEUES_def)

subsection \<open>Resetting the device\<close>

definition no_queue :: "RngSlot \<Rightarrow> bool" where
  "no_queue d = (mmio_ok (sl_mmio d) \<and> list_all Not (mm_queue_ready (sl_mmio d)) \<and> mm_interrupt_status (sl_mmio d) = 0)"

lemma unready_config: "no_queue d \<Longrightarrow> \<not> qc_ready (queue_config gpa (sl_mmio d) i)"
  by (simp add: no_queue_def queue_config_def Let_def mmio_ok_def list_all_length)

lemma no_queue_write:
  assumes "no_queue d" and "r \<noteq> QUEUE_READY"
  shows "no_queue (d\<lparr>sl_mmio := mmio_write r v (sl_mmio d)\<rparr>)"
proof -
  have "mmio_ok (mmio_write r v (sl_mmio d))"
    using assms(1) mmio_write_ok by (simp add: no_queue_def)
  then show ?thesis
    using assms by (cases r) (auto simp: no_queue_def Let_def list_all_length)
qed

lemma unready_notified: "no_queue d \<Longrightarrow> queue_notified rnd i d = Some d"
  by (simp add: queue_notified_def rng_process_queue_def unready_config)

lemma status_written_keeps [simp]:
  "sl_mmio (status_written old new d) = sl_mmio d" "sl_ram (status_written old new d) = sl_ram d"
  "sl_levels (status_written old new d) = sl_levels d" "sl_gpa (status_written old new d) = sl_gpa d"
  by (simp_all add: status_written_def Let_def)

lemma sync_irq_level_keeps [simp]:
  "sl_mmio (sync_irq_level d) = sl_mmio d" "sl_ram (sync_irq_level d) = sl_ram d"
  by (simp_all add: sync_irq_level_def)

lemma silent_step:
  assumes "no_queue d" and "r \<noteq> QUEUE_READY"
  shows "\<exists>d'. handle_mmio_write rnd r width v d = Some d' \<and> no_queue d' \<and> sl_ram d' = sl_ram d"
proof -
  define e where "e = d\<lparr>sl_mmio := mmio_write r (value32 width v) (sl_mmio d)\<rparr>"
  have e: "no_queue e" "sl_ram e = sl_ram d"
    using no_queue_write [OF assms] by (simp_all add: e_def del: mmio_write.simps)
  have keep: "no_queue d'" if "sl_mmio d' = sl_mmio e" for d'
    using e(1) that by (simp add: no_queue_def)
  have "handle_mmio_write rnd r width v d =
          (case r of CONFIG _ \<Rightarrow> Some d
           | STATUS \<Rightarrow> Some (status_written (mm_status (sl_mmio d)) (ucast (value32 width v)) e)
           | QUEUE_NOTIFY \<Rightarrow> Some e | INTERRUPT_ACK \<Rightarrow> Some (sync_irq_level e) | _ \<Rightarrow> Some e)"
    unfolding handle_mmio_write_def Let_def e_def [symmetric] unready_notified [OF e(1)] ..
  then show ?thesis
    using assms(1) e keep by (simp split: MmioReg.split)
qed

lemma silent_run:
  "no_queue d \<Longrightarrow> list_all (\<lambda>(r, _). r \<noteq> QUEUE_READY) ws
     \<Longrightarrow> \<exists>d'. mmio_run rnd ws d = Some d' \<and> no_queue d' \<and> sl_ram d' = sl_ram d"
proof (induction ws arbitrary: d)
  case (Cons w ws)
  obtain r width v where w: "w = (r, width, v)"
    by (rule prod_cases3)
  obtain d1 where "handle_mmio_write rnd r width v d = Some d1" "no_queue d1" "sl_ram d1 = sl_ram d"
    using silent_step [OF Cons.prems(1), of r rnd width v] Cons.prems(2) w by auto
  then show ?case
    using Cons.IH [of d1] Cons.prems(2) w by simp
qed simp

lemma reset_no_queue:
  "mmio_ok (sl_mmio d) \<Longrightarrow> value32 width v = 0
     \<Longrightarrow> \<exists>d'. handle_mmio_write rnd STATUS width v d = Some d' \<and> no_queue d' \<and> sl_ram d' = sl_ram d"
  by (auto simp: handle_mmio_write_def Let_def no_queue_def mmio_ok_def list_all_length)

text \<open>
  C22: Once the guest has reset the device by writing zero to the status register, the device is silent:
  whatever registers the guest writes next, including any number of queue notifications, every
  write returns, guest memory stays as it is and no interrupt becomes pending, as long as no queue
  is made ready again.
\<close>

theorem reset_silences_device:
  assumes "mmio_ok (sl_mmio d)" and "list_all (\<lambda>(r, _). r \<noteq> QUEUE_READY) ws"
  shows "\<exists>d'. mmio_run rnd ((STATUS, 4, 0) # ws) d = Some d' \<and> sl_ram d' = sl_ram d
              \<and> mm_interrupt_status (sl_mmio d') = 0"
proof -
  obtain d1 where d1: "handle_mmio_write rnd STATUS 4 0 d = Some d1" "no_queue d1" "sl_ram d1 = sl_ram d"
    using reset_no_queue [OF assms(1), of 4 0 rnd] by (auto simp: value32_def)
  show ?thesis
    using silent_run [OF d1(2) assms(2), of rnd] d1 by (auto simp: no_queue_def)
qed

definition example_slot :: RngSlot where
  "example_slot =
     \<lparr>sl_mmio = setup_queue 0 8 0x1000 0x2000 0x3000 (mmio_new 4 0), sl_dev = rng_new, sl_ram = [1, 2],
      sl_gpa = 0, sl_levels = []\<rparr>"

lemma example_slot_ok: "mmio_ok (sl_mmio example_slot)"
  by (simp add: example_slot_def setup_queue_def mmio_new_ok mmio_write_ok del: mmio_write.simps)

theorem reset_silences_device_witness:
  "\<exists>d'. mmio_run (\<lambda>_ n. (replicate n 7, True)) [(STATUS, 4, 0), (QUEUE_NOTIFY, 4, 0)] example_slot = Some d'
        \<and> sl_ram d' = [1, 2] \<and> mm_interrupt_status (sl_mmio d') = 0"
  using reset_silences_device [OF example_slot_ok, of "[(QUEUE_NOTIFY, 4, 0)]" "\<lambda>_ n. (replicate n 7, True)"]
  by (simp add: example_slot_def)


end
