(* ===== verification/Spec2Isabelle.thy ===== *)
theory Spec2Isabelle
  imports Computer_Lifecycle Computer_Recovery Slot_Pool Warm_Cache Vm_Lifecycle Computer_Turns Nat_Engine Dhcp_Server Virtio_Mmio
begin

text \<open>
  \<^bold>\<open>Verification of ArcBox\<close>

  ArcBox runs computers, which are small virtual machines, and one System VM.  This library models
  four parts of it: the lifecycle of a computer with its durable record, the lifecycle of the System
  VM, the packet path of the guest network with its DHCP server, and the virtio queues with the MMIO
  transport and the entropy device behind them.  Paths below are relative to \<open>src/\<close>.

  \<^bold>\<open>The parts and how they interact\<close>

  A computer is driven by an actor.  The actor feeds commands, timers and the reports of its
  sub-tasks to a hierarchical state machine, which answers with a list of effects; the actor executes
  them: it writes the durable record, spawns sub-tasks, arms timers and answers callers.  The record
  store writes each record through an atomic file replacement, and after a restart the recovery
  normalizes what it finds on disk.  A warm snapshot cache and a pool of restored slots shorten the
  start of a computer.  The System VM has a machine and an actor of its own, built in the same way.

  A guest gets its address from the DHCP server.  Its packets pass the NAT engine, which looks up
  connections in the tracking table, rewrites addresses and ports and repairs checksums with the
  checksum library.  A guest reaches its devices through a register file (the MMIO transport), by
  which it configures the rings of a queue in its own memory; a notification runs the device on them.

  \<^bold>\<open>Theories\<close>

  \<^item> \<open>ArcPrelude\<close>: results, durations and words; the locales \<open>invariant_of\<close> (a property of every
    reachable state) and \<open>conserving\<close> (a quantity that operations neither lose nor duplicate).
  \<^item> \<open>Statig\<close>: the contract of the state machine crate as the locale \<open>statig\<close>, and that its rules
    determine the dispatch.
  \<^item> \<open>Common_Error\<close>: \<open>common/arcbox-error\<close>.
  \<^item> \<open>Computer_Types\<close>, \<open>Computer_Phase\<close>, \<open>Computer_Runtime\<close>: \<open>sandbox/types.rs\<close>, \<open>sandbox/record/phase.rs\<close>,
    \<open>lifecycle/runtime.rs\<close> and the deadline policies of \<open>computer/arcbox-computer-runtime\<close>.  The record is
    the record type \<open>ComputerRecord\<close>; \<open>apply_transition\<close> and \<open>validate_record\<close> are the functions of
    those names.
  \<^item> \<open>Atomic_File\<close>: \<open>common/arcbox-atomic-file\<close>, as the sequence of its system calls, each of which may
    fail.
  \<^item> \<open>Computer_Store\<close>: \<open>sandbox/record/store.rs\<close>, over a file system given as a map.
  \<^item> \<open>Computer_Machine\<close>, \<open>Computer_Lifecycle\<close>: \<open>lifecycle/machine.rs\<close> with its events, effects and
    projection, one definition per handler (\<open>ready_h\<close> for \<open>ready\<close>), and what the machine guarantees.
  \<^item> \<open>Computer_Recovery\<close>: \<open>sandbox/reconcile.rs\<close> and \<open>sandbox/policy/recovery.rs\<close>.
  \<^item> \<open>Computer_Actor\<close>, \<open>Computer_World\<close>, \<open>Computer_Turns\<close>: \<open>lifecycle/actor\<close>, one definition per method
    (\<open>ca_on_command\<close> for \<open>on_command\<close>); the actor among its inputs; the end of its dispatch loop.
  \<^item> \<open>Slot_Pool\<close>, \<open>Warm_Cache\<close>: \<open>sandbox/policy/pool.rs\<close>, \<open>sandbox/policy/warm.rs\<close>, \<open>sandbox/warm.rs\<close>.
  \<^item> \<open>Vm_Machine\<close>, \<open>Vm_Actor\<close>, \<open>Vm_Lifecycle\<close>: \<open>vm_lifecycle\<close> of \<open>engine/arcbox-engine\<close>.
  \<^item> \<open>Net_Bytes\<close>, \<open>Packet_Checksum\<close>, \<open>Conntrack\<close>, \<open>Nat_Engine\<close>: \<open>common/arcbox-packet/src/checksum.rs\<close> and
    \<open>common/arcbox-conntrack\<close>.
  \<^item> \<open>Dhcp_Packet\<close>, \<open>Dhcp_Server\<close>: \<open>virt/arcbox-dhcp\<close>.
  \<^item> \<open>Guest_Memory\<close>, \<open>Virtio_Queue\<close>, \<open>Split_Queue\<close>: \<open>guest_mem.rs\<close>, \<open>queue.rs\<close> and \<open>split_queue.rs\<close> of
    \<open>virt/arcbox-virtio-core\<close>.  Operations of \<open>SplitQueue\<close> carry the prefix \<open>sq_\<close>.
  \<^item> \<open>Virtio_Rng\<close>: \<open>virt/arcbox-virtio-rng\<close>.
  \<^item> \<open>Virtio_Mmio\<close>: \<open>device/mmio_state.rs\<close> of \<open>virt/arcbox-vmm\<close>, and \<open>handle_mmio_write\<close> of \<open>device/dispatch.rs\<close>
    with \<open>sync_irq_level\<close> of \<open>device/mod.rs\<close> for a device on the generic path.

  Structs are records, enums datatypes, machine integers words.  Errors are \<open>Err\<close> values; an index out
  of range, or a run that does not end, is \<open>None\<close>.  Arithmetic wraps as in a release build.

  \<^bold>\<open>What is shown\<close>

  \<^item> Computers: the machine asks only for legal record writes and its run refines the record's phases;
    every store operation is atomic under arbitrary faults and every record stays loadable; recovery
    settles every record; a forced removal completes; every caller is answered exactly once, and
    every message is worked off.
  \<^item> System VM: no caller is stranded, at most one sub-task is in flight, and the published state is
    the machine's.
  \<^item> Network: the vectorised and the incremental checksums are the plain one; the lookup cache is
    transparent; translation keeps packets valid and replies come home; no address has two owners;
    DHCP messages survive serialization and parsing.
  \<^item> Virtio: the queue in guest memory refines the queue with local rings, which is a bounded
    first-in first-out queue that never panics; chain walks end on every table; a device writes only
    to the used ring; the entropy device serves every request; registers configure what the driver
    chose, and a reset silences the device.

  Some properties describe defects, each with its conditions: a startup budget that outlives its boot
  (\<open>Vm_Lifecycle\<close>); a reused NAT port that misroutes replies (\<open>Conntrack\<close>); a UDP checksum that turns into
  no checksum, and an empty network prefix (\<open>Nat_Engine\<close>); a removed reservation that doubles a lease, a
  reservation that leaks an address, and a server that offers its own address (\<open>Dhcp_Server\<close>); a
  status write that resets a device but not its registers (\<open>Virtio_Mmio\<close>).

  \<^bold>\<open>Bounds\<close>

  The only fuel is that of \<open>ca_drain_queue\<close>: one unit for each event that waits and \<open>QUEUE_FUEL\<close>, which is
  one, more.  \<open>Computer_Turns\<close> shows that it never runs out.  The loop of the entropy device is a
  partial function, because a guest that points its buffers at the rings can keep it running;
  \<open>Virtio_Rng\<close> shows that it returns when they lie apart.  All other recursions terminate.

  \<^bold>\<open>Code outside the repository\<close>

  The dispatch of the state machine crate, the JSON codec of the records, the digest of warm keys and
  the random source are parameters; the laws that are used of them are hypotheses, and each property
  that has one is applied to a concrete instance.  Register offsets of the virtio bindings are the
  constructors of \<open>MmioReg\<close>; flags and status bits have the values of the virtio specification.

  \<^bold>\<open>Not modelled\<close>

  \<^item> The bodies of the actors' sub-tasks, the machine manager, the hypervisor bindings and drivers, the
    snapshot store: sequences of calls to the host, whose outcomes are inputs of the actors.
  \<^item> The block, network, file-system, console, balloon and socket devices, and the branches of the
    MMIO dispatcher that lead to the block workers and the network transmit path: host files, sockets
    and threads.  Memory fences and lock poisoning have no counterpart in a sequential model.
  \<^item> The user-space TCP, DNS, proxy and route libraries, the image and container code, the guest
    agents, the daemon, the RPC layer and the SDKs: independent of the parts above, and mostly I/O.
  \<^item> Log lines, metrics and \<open>Debug\<close> texts.
\<close>

end
